(* ===== verification/Prelude.thy ===== *)
theory Prelude
  imports Main "HOL-Library.Word" "HOL-Library.AList" "HOL-Library.Multiset"
begin

text \<open>
  Shared vocabulary of the development.

  The Rust code computes with \<open>u64\<close>, \<open>u128\<close>, \<open>i128\<close> and \<open>usize\<close>.  Values of these
  types are represented by \<open>nat\<close> and \<open>int\<close>; every operation that saturates, is checked
  or wraps in the source is one of the operations below, with its width written out.
  Identifiers (\<open>Id\<close>) and user hashes (\<open>Hash32\<close>) are only compared for equality, so
  they are numbers too, with \<open>0\<close> for \<open>Hash32::zero()\<close>.
  A Rust \<open>Result\<close> is a sum, \<open>Inl\<close> being the error.
\<close>

section \<open>Machine integers\<close>

type_synonym u32 = nat
type_synonym u64 = nat
type_synonym u128 = nat
type_synonym usize = nat
type_synonym ident = nat
type_synonym hash32 = nat

named_theorems arith_ops \<open>definitions of the width-limited operations\<close>
named_theorems frame \<open>fields that an operation leaves unchanged\<close>

definition u32_max :: u32 where
  "u32_max = 4294967295"

definition u64_max :: u64 where
  "u64_max = 18446744073709551615"

definition u128_max :: u128 where
  "u128_max = 340282366920938463463374607431768211455"

lemma u32_max_eq: "u32_max = 2 ^ 32 - 1"
  by (simp add: u32_max_def)

lemma u64_max_eq: "u64_max = 2 ^ 64 - 1"
  by (simp add: u64_max_def)

lemma u128_max_eq: "u128_max = 2 ^ 128 - 1"
  by (simp add: u128_max_def)

definition i128_max :: int where
  "i128_max = 170141183460469231731687303715884105727"

definition i128_min :: int where
  "i128_min = - 170141183460469231731687303715884105728"

lemma i128_max_eq: "i128_max = 2 ^ 127 - 1"
  by (simp add: i128_max_def)

text \<open>\<open>u64::saturating_add\<close>, \<open>u64::checked_add\<close> and their \<open>u128\<close> versions.\<close>

definition sat_add64 :: "u64 \<Rightarrow> u64 \<Rightarrow> u64" where
  [arith_ops]: "sat_add64 a b = min (a + b) u64_max"

definition checked_add64 :: "u64 \<Rightarrow> u64 \<Rightarrow> u64 option" where
  [arith_ops]: "checked_add64 a b = (if a + b \<le> u64_max then Some (a + b) else None)"

definition sat_add128 :: "u128 \<Rightarrow> u128 \<Rightarrow> u128" where
  [arith_ops]: "sat_add128 a b = min (a + b) u128_max"

definition sat_mul128 :: "u128 \<Rightarrow> u128 \<Rightarrow> u128" where
  [arith_ops]: "sat_mul128 a b = min (a * b) u128_max"

definition checked_mul128 :: "u128 \<Rightarrow> u128 \<Rightarrow> u128 option" where
  [arith_ops]: "checked_mul128 a b = (if a * b \<le> u128_max then Some (a * b) else None)"

definition checked_add128 :: "u128 \<Rightarrow> u128 \<Rightarrow> u128 option" where
  [arith_ops]: "checked_add128 a b = (if a + b \<le> u128_max then Some (a + b) else None)"

text \<open>\<open>checked_sub\<close> is the same at every unsigned width; \<open>saturating_sub\<close> on unsigned
  values is the truncating subtraction of \<open>nat\<close>.\<close>

definition checked_sub :: "nat \<Rightarrow> nat \<Rightarrow> nat option" where
  [arith_ops]: "checked_sub a b = (if b \<le> a then Some (a - b) else None)"

definition sat_sub :: "nat \<Rightarrow> nat \<Rightarrow> nat" where
  [arith_ops]: "sat_sub a b = a - b"

text \<open>\<open>fetch_add\<close> on an atomic counter wraps.\<close>

definition wrap_add64 :: "u64 \<Rightarrow> u64 \<Rightarrow> u64" where
  [arith_ops]: "wrap_add64 a b = (a + b) mod (u64_max + 1)"

definition wrap_add128 :: "u128 \<Rightarrow> u128 \<Rightarrow> u128" where
  [arith_ops]: "wrap_add128 a b = (a + b) mod (u128_max + 1)"

lemma sat_add64_le [simp]: "sat_add64 a b \<le> u64_max"
  by (simp add: sat_add64_def)

lemma sat_add64_exact: "a + b \<le> u64_max \<Longrightarrow> sat_add64 a b = a + b"
  by (simp add: sat_add64_def)

lemma sat_add64_upper: "sat_add64 a b \<le> a + b"
  by (simp add: sat_add64_def)

lemma sat_add128_le [simp]: "sat_add128 a b \<le> u128_max"
  by (simp add: sat_add128_def)

lemma sat_add128_exact: "a + b \<le> u128_max \<Longrightarrow> sat_add128 a b = a + b"
  by (simp add: sat_add128_def)

lemma sat_mul128_le [simp]: "sat_mul128 a b \<le> u128_max"
  by (simp add: sat_mul128_def)

lemma sat_mul128_exact: "a * b \<le> u128_max \<Longrightarrow> sat_mul128 a b = a * b"
  by (simp add: sat_mul128_def)

lemma sat_mul128_upper: "sat_mul128 a b \<le> a * b"
  by (simp add: sat_mul128_def)

lemma checked_add64_Some_iff [simp]:
  "checked_add64 a b = Some c \<longleftrightarrow> c = a + b \<and> a + b \<le> u64_max"
  by (auto simp: checked_add64_def)

lemma checked_add64_None_iff [simp]: "checked_add64 a b = None \<longleftrightarrow> u64_max < a + b"
  by (auto simp: checked_add64_def)

lemma checked_mul128_Some_iff [simp]:
  "checked_mul128 a b = Some c \<longleftrightarrow> c = a * b \<and> a * b \<le> u128_max"
  by (auto simp: checked_mul128_def)

lemma checked_mul128_None_iff [simp]: "checked_mul128 a b = None \<longleftrightarrow> u128_max < a * b"
  by (auto simp: checked_mul128_def)

lemma wrap_add64_exact: "a + b \<le> u64_max \<Longrightarrow> wrap_add64 a b = a + b"
  by (simp add: wrap_add64_def)

lemma wrap_add128_exact: "a + b \<le> u128_max \<Longrightarrow> wrap_add128 a b = a + b"
  by (simp add: wrap_add128_def)

lemma u64_times_u64_fits: "a \<le> u64_max \<Longrightarrow> b \<le> u64_max \<Longrightarrow> a * b \<le> u128_max"
proof -
  assume "a \<le> u64_max" and "b \<le> u64_max"
  then have "a * b \<le> u64_max * u64_max" by (rule mult_le_mono)
  also have "\<dots> \<le> u128_max" by (simp add: u64_max_def u128_max_def)
  finally show ?thesis .
qed

section \<open>Association lists as the maps the code iterates over\<close>

text \<open>
  A \<open>DashMap\<close> whose iteration the code observes is an association list: its order is
  the iteration order.  \<open>AList.update\<close> and \<open>AList.delete\<close> are the insert and the
  remove; keys stay distinct.
\<close>

abbreviation akeys :: "('k \<times> 'v) list \<Rightarrow> 'k list" where
  "akeys m \<equiv> map fst m"

lemma map_of_update [simp]: "map_of (AList.update k v m) k' = (if k' = k then Some v else map_of m k')"
  by (simp add: update_conv')

lemma map_of_delete [simp]: "map_of (AList.delete k m) k' = (if k' = k then None else map_of m k')"
  by (simp add: delete_conv')

lemma distinct_akeys_update [simp]: "distinct (akeys m) \<Longrightarrow> distinct (akeys (AList.update k v m))"
  by (rule distinct_update)

lemma distinct_akeys_delete [simp]: "distinct (akeys m) \<Longrightarrow> distinct (akeys (AList.delete k m))"
  by (rule distinct_delete)

lemma set_akeys_delete [simp]: "set (akeys (AList.delete k m)) = set (akeys m) - {k}"
  by (induction m) auto

lemma map_of_Some_iff_mem: "distinct (akeys m) \<Longrightarrow> map_of m k = Some v \<longleftrightarrow> (k, v) \<in> set m"
  by (simp add: map_of_eq_Some_iff)

lemma set_delete: "set (AList.delete k m) = {e \<in> set m. fst e \<noteq> k}"
  by (induction m) auto

section \<open>Lists\<close>

text \<open>Sum of a key over a list, used for quantities, notionals and depths.\<close>

abbreviation sum_of :: "('a \<Rightarrow> nat) \<Rightarrow> 'a list \<Rightarrow> nat" where
  "sum_of f xs \<equiv> sum_list (map f xs)"

lemma sum_of_append [simp]: "sum_of f (xs @ ys) = sum_of f xs + sum_of f ys"
  by simp

lemma sum_of_mem_le: "x \<in> set xs \<Longrightarrow> f x \<le> sum_of f xs"
  by (induction xs) auto

lemma sum_of_filter_le: "sum_of f (filter P xs) \<le> sum_of f xs"
  by (induction xs) auto

lemma mset_split_key:
  assumes "distinct (map f xs)" and "x \<in> set xs"
  shows "mset xs = add_mset x (mset (filter (\<lambda>y. f y \<noteq> f x) xs))"
  using assms
proof (induction xs)
  case (Cons a xs)
  show ?case
  proof (cases "x = a")
    case True
    have "filter (\<lambda>y. f y \<noteq> f a) xs = xs"
      using Cons.prems(1) by (auto simp: filter_id_conv image_iff)
    then show ?thesis using True by simp
  next
    case False
    then show ?thesis using Cons by auto
  qed
qed simp

text \<open>\<open>Vec::swap_remove\<close>: the last element takes the removed element's place.\<close>

definition swap_remove :: "nat \<Rightarrow> 'a list \<Rightarrow> 'a list" where
  "swap_remove i xs = (if i < length xs then butlast (xs[i := last xs]) else xs)"

text \<open>\<open>iter().position(|y| y == x)\<close>.\<close>

fun position :: "'a \<Rightarrow> 'a list \<Rightarrow> nat option" where
  "position x [] = None"
| "position x (y # ys) = (if x = y then Some 0 else map_option Suc (position x ys))"

lemma position_None_iff [simp]: "position x xs = None \<longleftrightarrow> x \<notin> set xs"
  by (induction xs) auto

lemma position_SomeD: "position x xs = Some i \<Longrightarrow> i < length xs \<and> xs ! i = x"
  by (induction xs arbitrary: i) (auto split: if_splits)

lemma mset_swap_remove:
  assumes "i < length xs"
  shows "mset (swap_remove i xs) = mset xs - {# xs ! i #}"
proof -
  from assms have ne: "xs \<noteq> []" by auto
  let ?ys = "xs[i := last xs]"
  have ys: "?ys \<noteq> []" using ne by simp
  have last: "last ?ys = last xs"
  proof (cases "i = length xs - 1")
    case True
    then show ?thesis using ne by (simp add: last_conv_nth)
  next
    case False
    then show ?thesis using ne by (simp add: last_conv_nth)
  qed
  have "mset ?ys = add_mset (last xs) (mset xs - {# xs ! i #})"
    using assms by (simp add: mset_update)
  moreover have "mset ?ys = add_mset (last xs) (mset (butlast ?ys))"
    using append_butlast_last_id [OF ys] last
    by (metis add_mset_add_single mset.simps(1,2) mset_append union_mset_add_mset_right)
  ultimately show ?thesis
    using assms by (simp add: swap_remove_def)
qed

lemma mset_swap_remove_position:
  "position x xs = Some i \<Longrightarrow> mset (swap_remove i xs) = mset xs - {# x #}"
  by (metis mset_swap_remove position_SomeD)

lemma distinct_set_removed:
  assumes "mset ys = mset xs - {# x #}" and "distinct xs"
  shows "distinct ys" and "set ys = set xs - {x}"
proof -
  have "mset ys \<subseteq># mset xs" using assms(1) by simp
  then have "distinct ys" and sub: "set ys \<subseteq> set xs"
    using assms(2) by (metis distinct_append mset_append mset_eq_imp_distinct_iff
        mset_subset_eq_exists_conv ex_mset, metis mset_subset_eqD set_mset_mset subsetI)
  then show "distinct ys" by simp
  have "mset_set (set xs) = mset xs" and "mset_set (set ys) = mset ys"
    using assms(2) \<open>distinct ys\<close> by (simp_all add: mset_set_set)
  then have "mset_set (set ys) = mset_set (set xs - {x})"
    using assms(1) by (cases "x \<in> set xs") (simp_all add: mset_set_Diff)
  then show "set ys = set xs - {x}" by (simp add: mset_set_eq_iff)
qed

end
