(* ===== verification/Order_Types.thy ===== *)
theory Order_Types
  imports Prelude
begin

text \<open>
  Orders and the values exchanged with the price levels.

  \<open>OrderType<T>\<close>, \<open>OrderUpdate\<close>, \<open>Trade\<close> and \<open>MatchResult\<close> are data of the \<open>pricelevel\<close> crate.
  Their constructors and fields are the ones that \<open>src/orderbook/private.rs\<close>
  (\<open>convert_to_unit_type\<close>), \<open>src/orderbook/modifications.rs\<close> and
  \<open>src/orderbook/matching.rs\<close> match on; field access is by the selectors.  The operations of
  the \<open>OrderQuantity\<close> trait and the two conversions are code of this repository.
\<close>

section \<open>Data\<close>

datatype side = Buy | Sell

fun opposite :: "side \<Rightarrow> side" where
  "opposite Buy = Sell"
| "opposite Sell = Buy"

datatype time_in_force = Gtc | Ioc | Fok | Gtd u64 | Day

datatype peg_reference_type = BestBid | BestAsk | MidPrice | LastTrade

text \<open>The last field of every constructor is \<open>extra_fields: T\<close>.\<close>

datatype 'x order_type =
    Standard (oid: ident) (oprice: u128) (oquantity: u64) (oside: side) (ouser: hash32)
      (otimestamp: u64) (otif: time_in_force) (oextra: 'x)
  | IcebergOrder (oid: ident) (oprice: u128) (ovisible: u64) (ohidden: u64) (oside: side)
      (ouser: hash32) (otimestamp: u64) (otif: time_in_force) (oextra: 'x)
  | PostOnly (oid: ident) (oprice: u128) (oquantity: u64) (oside: side) (ouser: hash32)
      (otimestamp: u64) (otif: time_in_force) (oextra: 'x)
  | TrailingStop (oid: ident) (oprice: u128) (oquantity: u64) (oside: side) (ouser: hash32)
      (otimestamp: u64) (otif: time_in_force) (otrail_amount: u64)
      (olast_reference_price: u128) (oextra: 'x)
  | PeggedOrder (oid: ident) (oprice: u128) (oquantity: u64) (oside: side) (ouser: hash32)
      (otimestamp: u64) (otif: time_in_force) (oreference_price_offset: int)
      (oreference_price_type: peg_reference_type) (oextra: 'x)
  | MarketToLimit (oid: ident) (oprice: u128) (oquantity: u64) (oside: side) (ouser: hash32)
      (otimestamp: u64) (otif: time_in_force) (oextra: 'x)
  | ReserveOrder (oid: ident) (oprice: u128) (ovisible: u64) (ohidden: u64) (oside: side)
      (ouser: hash32) (otimestamp: u64) (otif: time_in_force) (oreplenish_threshold: u64)
      (oreplenish_amount: "u64 option") (oauto_replenish: bool) (oextra: 'x)

type_synonym unit_order = "unit order_type"

datatype order_update =
    UpdatePrice ident u128
  | UpdateQuantity ident u64
  | UpdatePriceAndQuantity ident u128 u64
  | Cancel ident
  | Replace ident u128 u64 side

datatype taker_kind = TakerStandard | TakerPostOnly

record trade =
  trade_id :: nat
  taker_order_id :: ident
  maker_order_id :: ident
  tprice :: u128
  tquantity :: u64
  taker_side :: side
  ttimestamp :: u64

text \<open>\<open>mr_rejected\<close> is \<open>outcome().was_rejected()\<close>.\<close>

record match_result =
  mr_order_id :: ident
  mr_trades :: "trade list"
  mr_remaining :: u64
  mr_filled_ids :: "ident list"
  mr_rejected :: bool

abbreviation traded_quantity :: "trade list \<Rightarrow> nat" where
  "traded_quantity ts \<equiv> sum_of tquantity ts"

abbreviation traded_value :: "trade list \<Rightarrow> nat" where
  "traded_value ts \<equiv> sum_of (\<lambda>t. tprice t * tquantity t) ts"

section \<open>The \<open>OrderQuantity\<close> trait\<close>

fun order_quantity :: "'x order_type \<Rightarrow> u64" where
  "order_quantity (Standard _ _ q _ _ _ _ _) = q"
| "order_quantity (IcebergOrder _ _ v _ _ _ _ _ _) = v"
| "order_quantity (PostOnly _ _ q _ _ _ _ _) = q"
| "order_quantity (TrailingStop _ _ q _ _ _ _ _ _ _) = q"
| "order_quantity (PeggedOrder _ _ q _ _ _ _ _ _ _) = q"
| "order_quantity (MarketToLimit _ _ q _ _ _ _ _) = q"
| "order_quantity (ReserveOrder _ _ v _ _ _ _ _ _ _ _ _) = v"

fun total_quantity :: "'x order_type \<Rightarrow> u64" where
  "total_quantity (Standard _ _ q _ _ _ _ _) = q"
| "total_quantity (IcebergOrder _ _ v h _ _ _ _ _) = sat_add64 v h"
| "total_quantity (PostOnly _ _ q _ _ _ _ _) = q"
| "total_quantity (TrailingStop _ _ q _ _ _ _ _ _ _) = q"
| "total_quantity (PeggedOrder _ _ q _ _ _ _ _ _ _) = q"
| "total_quantity (MarketToLimit _ _ q _ _ _ _ _) = q"
| "total_quantity (ReserveOrder _ _ v h _ _ _ _ _ _ _ _) = sat_add64 v h"

fun checked_total_quantity :: "'x order_type \<Rightarrow> u64 option" where
  "checked_total_quantity (IcebergOrder _ _ v h _ _ _ _ _) = checked_add64 v h"
| "checked_total_quantity (ReserveOrder _ _ v h _ _ _ _ _ _ _ _) = checked_add64 v h"
| "checked_total_quantity od = Some (total_quantity od)"

fun reduce_reserve_to_total :: "'x order_type \<Rightarrow> u64 \<Rightarrow> 'x order_type" where
  "reduce_reserve_to_total (ReserveOrder i p v h s u ts tif thr amt auto x) new_total_quantity =
     (let original_total = sat_add64 v h;
          amount_to_reduce = sat_sub original_total new_total_quantity;
          filled_from_visible = min amount_to_reduce v;
          visible = sat_sub v filled_from_visible;
          remaining_to_reduce = amount_to_reduce - filled_from_visible;
          hidden = sat_sub h remaining_to_reduce
      in if visible = 0 \<and> hidden > 0
         then let refresh = min (case amt of None \<Rightarrow> 0 | Some q \<Rightarrow> q) hidden
              in ReserveOrder i p refresh (sat_sub hidden refresh) s u ts tif thr amt auto x
         else ReserveOrder i p visible hidden s u ts tif thr amt auto x)"
| "reduce_reserve_to_total od new_total_quantity = od"

fun set_quantity :: "'x order_type \<Rightarrow> u64 \<Rightarrow> 'x order_type" where
  "set_quantity (Standard i p _ s u ts tif x) q = Standard i p q s u ts tif x"
| "set_quantity (PostOnly i p _ s u ts tif x) q = PostOnly i p q s u ts tif x"
| "set_quantity (TrailingStop i p _ s u ts tif tr lr x) q = TrailingStop i p q s u ts tif tr lr x"
| "set_quantity (PeggedOrder i p _ s u ts tif off ref x) q = PeggedOrder i p q s u ts tif off ref x"
| "set_quantity (MarketToLimit i p _ s u ts tif x) q = MarketToLimit i p q s u ts tif x"
| "set_quantity (IcebergOrder i p _ h s u ts tif x) q = IcebergOrder i p q h s u ts tif x"
| "set_quantity (ReserveOrder i p v h s u ts tif thr amt auto x) q =
     reduce_reserve_to_total (ReserveOrder i p v h s u ts tif thr amt auto x) q"

fun set_total_remaining :: "'x order_type \<Rightarrow> u64 \<Rightarrow> 'x order_type" where
  "set_total_remaining (Standard i p _ s u ts tif x) q = Standard i p q s u ts tif x"
| "set_total_remaining (PostOnly i p _ s u ts tif x) q = PostOnly i p q s u ts tif x"
| "set_total_remaining (TrailingStop i p _ s u ts tif tr lr x) q =
     TrailingStop i p q s u ts tif tr lr x"
| "set_total_remaining (PeggedOrder i p _ s u ts tif off ref x) q =
     PeggedOrder i p q s u ts tif off ref x"
| "set_total_remaining (MarketToLimit i p _ s u ts tif x) q = MarketToLimit i p q s u ts tif x"
| "set_total_remaining (IcebergOrder i p v h s u ts tif x) q =
     (let visible = min v q in IcebergOrder i p visible (q - visible) s u ts tif x)"
| "set_total_remaining (ReserveOrder i p v h s u ts tif thr amt auto x) q =
     reduce_reserve_to_total (ReserveOrder i p v h s u ts tif thr amt auto x) q"

section \<open>Conversion between \<open>OrderType<T>\<close> and \<open>OrderType<()>\<close>\<close>

fun convert_to_unit_type :: "'x order_type \<Rightarrow> unit_order" where
  "convert_to_unit_type (Standard i p q s u ts tif _) = Standard i p q s u ts tif ()"
| "convert_to_unit_type (IcebergOrder i p v h s u ts tif _) = IcebergOrder i p v h s u ts tif ()"
| "convert_to_unit_type (PostOnly i p q s u ts tif _) = PostOnly i p q s u ts tif ()"
| "convert_to_unit_type (TrailingStop i p q s u ts tif tr lr _) =
     TrailingStop i p q s u ts tif tr lr ()"
| "convert_to_unit_type (PeggedOrder i p q s u ts tif off ref _) =
     PeggedOrder i p q s u ts tif off ref ()"
| "convert_to_unit_type (MarketToLimit i p q s u ts tif _) = MarketToLimit i p q s u ts tif ()"
| "convert_to_unit_type (ReserveOrder i p v h s u ts tif thr amt auto _) =
     ReserveOrder i p v h s u ts tif thr amt auto ()"

text \<open>The argument \<open>d\<close> is \<open>T::default()\<close>.\<close>

fun convert_from_unit_type :: "'x \<Rightarrow> unit_order \<Rightarrow> 'x order_type" where
  "convert_from_unit_type d (Standard i p q s u ts tif _) = Standard i p q s u ts tif d"
| "convert_from_unit_type d (IcebergOrder i p v h s u ts tif _) =
     IcebergOrder i p v h s u ts tif d"
| "convert_from_unit_type d (PostOnly i p q s u ts tif _) = PostOnly i p q s u ts tif d"
| "convert_from_unit_type d (TrailingStop i p q s u ts tif tr lr _) =
     TrailingStop i p q s u ts tif tr lr d"
| "convert_from_unit_type d (PeggedOrder i p q s u ts tif off ref _) =
     PeggedOrder i p q s u ts tif off ref d"
| "convert_from_unit_type d (MarketToLimit i p q s u ts tif _) = MarketToLimit i p q s u ts tif d"
| "convert_from_unit_type d (ReserveOrder i p v h s u ts tif thr amt auto _) =
     ReserveOrder i p v h s u ts tif thr amt auto d"

text \<open>The price assignment at the start of the price-changing updates.\<close>

fun with_price :: "'x order_type \<Rightarrow> u128 \<Rightarrow> 'x order_type" where
  "with_price (Standard i _ q s u ts tif x) p = Standard i p q s u ts tif x"
| "with_price (IcebergOrder i _ v h s u ts tif x) p = IcebergOrder i p v h s u ts tif x"
| "with_price (PostOnly i _ q s u ts tif x) p = PostOnly i p q s u ts tif x"
| "with_price (TrailingStop i _ q s u ts tif tr lr x) p = TrailingStop i p q s u ts tif tr lr x"
| "with_price (PeggedOrder i _ q s u ts tif off ref x) p = PeggedOrder i p q s u ts tif off ref x"
| "with_price (MarketToLimit i _ q s u ts tif x) p = MarketToLimit i p q s u ts tif x"
| "with_price (ReserveOrder i _ v h s u ts tif thr amt auto x) p =
     ReserveOrder i p v h s u ts tif thr amt auto x"

text \<open>The field assignments of \<open>OrderUpdate::Replace\<close>.\<close>

fun replace_fields :: "'x order_type \<Rightarrow> ident \<Rightarrow> u128 \<Rightarrow> u64 \<Rightarrow> side \<Rightarrow> 'x order_type" where
  "replace_fields (Standard _ _ _ _ u ts tif x) i p q s = Standard i p q s u ts tif x"
| "replace_fields (IcebergOrder _ _ _ h _ u ts tif x) i p q s = IcebergOrder i p q h s u ts tif x"
| "replace_fields (PostOnly _ _ _ _ u ts tif x) i p q s = PostOnly i p q s u ts tif x"
| "replace_fields (TrailingStop _ _ _ _ u ts tif tr lr x) i p q s =
     TrailingStop i p q s u ts tif tr lr x"
| "replace_fields (PeggedOrder _ _ _ _ u ts tif off ref x) i p q s =
     PeggedOrder i p q s u ts tif off ref x"
| "replace_fields (MarketToLimit _ _ _ _ u ts tif x) i p q s = MarketToLimit i p q s u ts tif x"
| "replace_fields (ReserveOrder _ _ _ h _ u ts tif thr amt auto x) i p q s =
     ReserveOrder i p q h s u ts tif thr amt auto x"

section \<open>Lemmas\<close>

lemma opposite_opposite [simp]: "opposite (opposite s) = s"
  by (cases s) auto

lemma opposite_neq [simp]: "opposite s \<noteq> s" "s \<noteq> opposite s"
  by (cases s; simp)+

lemma convert_to_unit_selectors [simp]:
  "oid (convert_to_unit_type od) = oid od"
  "oprice (convert_to_unit_type od) = oprice od"
  "oside (convert_to_unit_type od) = oside od"
  "ouser (convert_to_unit_type od) = ouser od"
  "otif (convert_to_unit_type od) = otif od"
  "otimestamp (convert_to_unit_type od) = otimestamp od"
  "total_quantity (convert_to_unit_type od) = total_quantity od"
  "order_quantity (convert_to_unit_type od) = order_quantity od"
  "checked_total_quantity (convert_to_unit_type od) = checked_total_quantity od"
  by (cases od; simp)+

lemma convert_from_unit_selectors [simp]:
  "oid (convert_from_unit_type d od) = oid od"
  "oprice (convert_from_unit_type d od) = oprice od"
  "oside (convert_from_unit_type d od) = oside od"
  "ouser (convert_from_unit_type d od) = ouser od"
  "otif (convert_from_unit_type d od) = otif od"
  "oextra (convert_from_unit_type d od) = d"
  "total_quantity (convert_from_unit_type d od) = total_quantity od"
  "checked_total_quantity (convert_from_unit_type d od) = checked_total_quantity od"
  by (cases od; simp)+

lemma convert_to_from_unit [simp]: "convert_to_unit_type (convert_from_unit_type d od) = od"
  by (cases od) auto

lemma convert_from_to_unit: "convert_from_unit_type (oextra od) (convert_to_unit_type od) = od"
  by (cases od) auto

lemma with_price_selectors [simp]:
  "oid (with_price od p) = oid od" "oprice (with_price od p) = p"
  "oside (with_price od p) = oside od" "ouser (with_price od p) = ouser od"
  "otif (with_price od p) = otif od"
  "total_quantity (with_price od p) = total_quantity od"
  by (cases od; simp)+

lemma replace_fields_selectors [simp]:
  "oid (replace_fields od i p q s) = i" "oprice (replace_fields od i p q s) = p"
  "oside (replace_fields od i p q s) = s" "ouser (replace_fields od i p q s) = ouser od"
  "otif (replace_fields od i p q s) = otif od"
  by (cases od; simp)+

lemma reduce_reserve_selectors [simp]:
  "oid (reduce_reserve_to_total od q) = oid od"
  "oprice (reduce_reserve_to_total od q) = oprice od"
  "oside (reduce_reserve_to_total od q) = oside od"
  "ouser (reduce_reserve_to_total od q) = ouser od"
  "otif (reduce_reserve_to_total od q) = otif od"
  by (cases od; simp add: Let_def)+

lemma set_quantity_selectors [simp]:
  "oid (set_quantity od q) = oid od" "oprice (set_quantity od q) = oprice od"
  "oside (set_quantity od q) = oside od" "ouser (set_quantity od q) = ouser od"
  "otif (set_quantity od q) = otif od"
  by (cases od; simp add: Let_def)+

lemma set_total_remaining_selectors [simp]:
  "oid (set_total_remaining od q) = oid od" "oprice (set_total_remaining od q) = oprice od"
  "oside (set_total_remaining od q) = oside od" "ouser (set_total_remaining od q) = ouser od"
  "otif (set_total_remaining od q) = otif od"
  by (cases od; simp add: Let_def)+

lemma checked_total_exact: "checked_total_quantity od = Some n \<Longrightarrow> total_quantity od = n"
  by (cases od) (auto simp: sat_add64_exact)

end
