(* ===== verification/Price_Level.thy ===== *)
theory Price_Level
  imports Order_Types
begin

text \<open>
  The \<open>pricelevel\<close> crate as the book sees it.

  The price level, the match result and a few predicates on orders are code of the
  \<open>pricelevel\<close> crate, which is not part of this repository.  They are a parameter of the model:
  a record of functions, passed to every definition that calls one of them.  The type \<open>'l\<close> is
  a price level, \<open>'g\<close> the trade-id generator.  What the book relies on is the locale
  \<open>price_levels\<close>; each law is a documented behaviour of the crate (the comments of
  \<open>matching.rs\<close> and \<open>modifications.rs\<close>, the release notes in \<open>CHANGELOG.md\<close>).
  The predicate \<open>ok\<close> is the level's own invariant.

  The last part is a reference level, a FIFO list, with the proof that it satisfies the laws.
  It shows that the contract can be met and lets the witnesses run the book on
  concrete inputs.
\<close>

section \<open>The operations\<close>

text \<open>\<open>PriceLevelError\<close> is passed on by the book and never inspected.\<close>

type_synonym pl_error = nat

record ('l, 'g) pricelevel_api =
  visible_of :: "unit_order \<Rightarrow> u64"
  hidden_of :: "unit_order \<Rightarrow> u64"
  is_immediate :: "unit_order \<Rightarrow> bool"
  is_fill_or_kill :: "unit_order \<Rightarrow> bool"
  is_post_only :: "unit_order \<Rightarrow> bool"
  with_reduced_quantity :: "unit_order \<Rightarrow> u64 \<Rightarrow> unit_order"
  is_expired :: "time_in_force \<Rightarrow> u64 \<Rightarrow> u64 option \<Rightarrow> bool"
  mr_new :: "ident \<Rightarrow> u64 \<Rightarrow> match_result"
  mr_add_trade :: "match_result \<Rightarrow> trade \<Rightarrow> (pl_error + unit) \<times> match_result"
  mr_add_filled :: "match_result \<Rightarrow> ident \<Rightarrow> match_result"
  level_new :: "u128 \<Rightarrow> 'l"
  level_price :: "'l \<Rightarrow> u128"
  level_visible :: "'l \<Rightarrow> u64"
  level_hidden :: "'l \<Rightarrow> u64"
  level_total :: "'l \<Rightarrow> pl_error + u64"
  order_count :: "'l \<Rightarrow> usize"
  snapshot_by_seq :: "'l \<Rightarrow> unit_order list"
  iter_orders :: "'l \<Rightarrow> unit_order list"
  matchable_quantity :: "'l \<Rightarrow> u64 \<Rightarrow> ident \<Rightarrow> u64"
  level_match :: "'l \<Rightarrow> u64 \<Rightarrow> ident \<Rightarrow> time_in_force \<Rightarrow> taker_kind \<Rightarrow> u64 \<Rightarrow> 'g \<Rightarrow> match_result \<times> 'l \<times> 'g"
  level_add :: "'l \<Rightarrow> unit_order \<Rightarrow> (pl_error + unit_order) \<times> 'l"
  level_update :: "'l \<Rightarrow> order_update \<Rightarrow> (pl_error + unit_order option) \<times> 'l"

text \<open>The owner tag of an order: what the book's indices record of it.\<close>

abbreviation tag :: "'x order_type \<Rightarrow> ident \<times> hash32" where
  "tag od \<equiv> (oid od, ouser od)"

abbreviation ids :: "'x order_type list \<Rightarrow> ident set" where
  "ids ods \<equiv> oid ` set ods"

section \<open>The contract\<close>

locale price_levels =
  fixes A :: "('l, 'g) pricelevel_api"
    and ok :: "'l \<Rightarrow> bool"
  assumes mr_new: "mr_new A i q = \<lparr>mr_order_id = i, mr_trades = [], mr_remaining = q,
      mr_filled_ids = [], mr_rejected = False\<rparr>"
    and mr_add_trade: "tquantity t \<le> mr_remaining m \<Longrightarrow> mr_add_trade A m t =
      (Inr (), m\<lparr>mr_trades := mr_trades m @ [t], mr_remaining := mr_remaining m - tquantity t\<rparr>)"
    and mr_add_filled: "mr_add_filled A m i = m\<lparr>mr_filled_ids := mr_filled_ids m @ [i]\<rparr>"
    and new_ok: "ok (level_new A p)"
    and new_orders: "snapshot_by_seq A (level_new A p) = []"
    and new_price: "level_price A (level_new A p) = p"
    and count: "ok l \<Longrightarrow> order_count A l = length (snapshot_by_seq A l)"
    and iter_mset: "ok l \<Longrightarrow> mset (iter_orders A l) = mset (snapshot_by_seq A l)"
    and ids_distinct: "ok l \<Longrightarrow> distinct (map oid (snapshot_by_seq A l))"
    and add_Inr: "ok l \<Longrightarrow> oid od \<notin> ids (snapshot_by_seq A l) \<Longrightarrow> level_add A l od = (Inr od', l') \<Longrightarrow>
      od' = od \<and> ok l' \<and> snapshot_by_seq A l' = snapshot_by_seq A l @ [od] \<and>
      level_price A l' = level_price A l"
    and add_Inl: "ok l \<Longrightarrow> level_add A l od = (Inl e, l') \<Longrightarrow> l' = l"
    and cancel_present: "ok l \<Longrightarrow> od \<in> set (snapshot_by_seq A l) \<Longrightarrow>
      \<exists>l'. level_update A l (Cancel (oid od)) = (Inr (Some od), l') \<and> ok l' \<and>
        level_price A l' = level_price A l \<and>
        snapshot_by_seq A l' = filter (\<lambda>x. oid x \<noteq> oid od) (snapshot_by_seq A l)"
    and cancel_absent: "ok l \<Longrightarrow> i \<notin> ids (snapshot_by_seq A l) \<Longrightarrow>
      level_update A l (Cancel i) = (Inr None, l)"
    and update_quantity: "ok l \<Longrightarrow> od \<in> set (snapshot_by_seq A l) \<Longrightarrow> 0 < q \<Longrightarrow>
      level_update A l (UpdateQuantity (oid od) q) = (r, l') \<Longrightarrow>
      (\<exists>e. r = Inl e) \<and> l' = l \<or>
      r = Inr (Some (with_reduced_quantity A od q)) \<and> ok l' \<and>
        level_price A l' = level_price A l \<and>
        mset (map tag (snapshot_by_seq A l')) = mset (map tag (snapshot_by_seq A l))"
    and match_ok: "ok l \<Longrightarrow> level_match A l q i tif TakerStandard ts g = (m, l', g') \<Longrightarrow>
      ok l' \<and> level_price A l' = level_price A l"
    and match_conserves: "ok l \<Longrightarrow> level_match A l q i tif TakerStandard ts g = (m, l', g') \<Longrightarrow>
      traded_quantity (mr_trades m) + mr_remaining m = q"
    and match_trade: "ok l \<Longrightarrow> level_match A l q i tif TakerStandard ts g = (m, l', g') \<Longrightarrow>
      t \<in> set (mr_trades m) \<Longrightarrow>
      tprice t = level_price A l \<and> 0 < tquantity t \<and> taker_order_id t = i \<and>
      maker_order_id t \<in> ids (snapshot_by_seq A l)"
    and match_filled: "ok l \<Longrightarrow> level_match A l q i tif TakerStandard ts g = (m, l', g') \<Longrightarrow>
      distinct (mr_filled_ids m) \<and> set (mr_filled_ids m) \<subseteq> maker_order_id ` set (mr_trades m) \<and>
      mset (map tag (snapshot_by_seq A l')) =
        mset (filter (\<lambda>e. fst e \<notin> set (mr_filled_ids m)) (map tag (snapshot_by_seq A l)))"
    and match_fifo: "ok l \<Longrightarrow> level_match A l q i tif TakerStandard ts g = (m, l', g') \<Longrightarrow>
      snapshot_by_seq A l = xs @ ys \<Longrightarrow> q \<le> sum_of (visible_of A) xs \<Longrightarrow>
      i \<notin> ids xs \<Longrightarrow> t \<in> set (mr_trades m) \<Longrightarrow> maker_order_id t \<in> ids xs"
    and match_dry_run: "ok l \<Longrightarrow> level_match A l q i tif TakerStandard ts g = (m, l', g') \<Longrightarrow>
      traded_quantity (mr_trades m) = matchable_quantity A l q i"
    and match_exhausts: "ok l \<Longrightarrow> level_match A l q i tif TakerStandard ts g = (m, l', g') \<Longrightarrow>
      0 < mr_remaining m \<Longrightarrow> matchable_quantity A l' q' i = 0"
    and match_post_only: "ok l \<Longrightarrow> level_match A l q i tif TakerPostOnly ts g = (m, l', g') \<Longrightarrow>
      l' = l \<and> mr_trades m = [] \<and> (mr_rejected m \<longleftrightarrow> 0 < matchable_quantity A l q i)"
    and mr_add_trade_underflow: "mr_remaining m < tquantity t \<Longrightarrow> \<exists>e. mr_add_trade A m t = (Inl e, m)"
begin

lemma match_remaining_le:
  "ok l \<Longrightarrow> level_match A l q i tif TakerStandard ts g = (m, l', g') \<Longrightarrow> mr_remaining m \<le> q"
  using match_conserves by fastforce

lemma match_executed:
  "ok l \<Longrightarrow> level_match A l q i tif TakerStandard ts g = (m, l', g') \<Longrightarrow>
   q - mr_remaining m = traded_quantity (mr_trades m)"
  using match_conserves by fastforce

lemma matchable_le: "ok l \<Longrightarrow> matchable_quantity A l q i \<le> q"
  using match_conserves match_dry_run
  by (metis le_add1 prod_cases3)

lemma iter_set: "ok l \<Longrightarrow> set (iter_orders A l) = set (snapshot_by_seq A l)"
  using iter_mset mset_eq_setD by blast

lemma match_tags:
  "ok l \<Longrightarrow> level_match A l q i tif TakerStandard ts g = (m, l', g') \<Longrightarrow>
   tag ` set (snapshot_by_seq A l') =
     {e \<in> tag ` set (snapshot_by_seq A l). fst e \<notin> set (mr_filled_ids m)}"
proof -
  assume "ok l" and "level_match A l q i tif TakerStandard ts g = (m, l', g')"
  then have "mset (map tag (snapshot_by_seq A l')) =
        mset (filter (\<lambda>e. fst e \<notin> set (mr_filled_ids m)) (map tag (snapshot_by_seq A l)))"
    using match_filled by blast
  from arg_cong [OF this, of set_mset] show ?thesis by auto
qed

lemma match_filled_ids:
  assumes "ok l" and "level_match A l q i tif TakerStandard ts g = (m, l', g')"
  shows "set (mr_filled_ids m) \<subseteq> ids (snapshot_by_seq A l)"
proof
  fix x assume "x \<in> set (mr_filled_ids m)"
  then obtain t where "t \<in> set (mr_trades m)" and "x = maker_order_id t"
    using match_filled [OF assms] by blast
  then show "x \<in> ids (snapshot_by_seq A l)" using match_trade [OF assms] by simp
qed

lemma cancel_cases:
  assumes "ok l" and "level_update A l (Cancel i) = (r, l')"
  obtains (absent) "i \<notin> ids (snapshot_by_seq A l)" "r = Inr None" "l' = l"
  | (present) od where "od \<in> set (snapshot_by_seq A l)" "oid od = i" "r = Inr (Some od)" "ok l'"
      "level_price A l' = level_price A l"
      "snapshot_by_seq A l' = filter (\<lambda>x. oid x \<noteq> i) (snapshot_by_seq A l)"
proof (cases "i \<in> ids (snapshot_by_seq A l)")
  case True
  then obtain od where od: "od \<in> set (snapshot_by_seq A l)" "oid od = i" by auto
  from cancel_present [OF assms(1) od(1)] assms(2) od(2)
  have "r = Inr (Some od)" "ok l'" "level_price A l' = level_price A l"
    "snapshot_by_seq A l' = filter (\<lambda>x. oid x \<noteq> i) (snapshot_by_seq A l)" by simp_all
  with od show ?thesis by (rule present)
next
  case False
  from cancel_absent [OF assms(1) False] assms(2) have "r = Inr None" "l' = l" by simp_all
  with False show ?thesis by (rule absent)
qed

end

section \<open>A reference level\<close>

text \<open>
  A level is its price and its queue, oldest order first.  A maker is consumed where it
  stands, its visible tranche first and then what it can draw of its hidden tranche; a taker
  skips an order with its own id.  The trade-id generator is a counter.
\<close>

record fifo_level =
  fl_price :: u128
  fl_orders :: "unit_order list"

fun fifo_hidden :: "unit_order \<Rightarrow> u64" where
  "fifo_hidden (IcebergOrder _ _ _ h _ _ _ _ _) = h"
| "fifo_hidden (ReserveOrder _ _ _ h _ _ _ _ _ _ _ _) = h"
| "fifo_hidden _ = 0"

fun fifo_drawable :: "unit_order \<Rightarrow> u64" where
  "fifo_drawable (IcebergOrder _ _ v h _ _ _ _ _) = v + h"
| "fifo_drawable (ReserveOrder _ _ v h _ _ _ _ _ _ auto _) = (if auto then v + h else v)"
| "fifo_drawable od = order_quantity od"

fun fifo_expired :: "time_in_force \<Rightarrow> u64 \<Rightarrow> u64 option \<Rightarrow> bool" where
  "fifo_expired (Gtd d) now _ = (d \<le> now)"
| "fifo_expired Day now (Some close) = (close \<le> now)"
| "fifo_expired _ _ _ = False"

text \<open>One pass over the queue: trades, filled ids, the queue left, the quantity left, and
  the counter.\<close>

fun fifo_sweep :: "u128 \<Rightarrow> ident \<Rightarrow> u64 \<Rightarrow> u64 \<Rightarrow> nat \<Rightarrow> unit_order list \<Rightarrow>
    trade list \<times> ident list \<times> unit_order list \<times> u64 \<times> nat" where
  "fifo_sweep p i ts q g [] = ([], [], [], q, g)"
| "fifo_sweep p i ts q g (od # ods) =
     (let d = min q (fifo_drawable od) in
      if oid od = i \<or> d = 0
      then let (trs, fs, os, r, g') = fifo_sweep p i ts q g ods in (trs, fs, od # os, r, g')
      else let t = \<lparr>trade_id = g, taker_order_id = i, maker_order_id = oid od, tprice = p,
                 tquantity = d, taker_side = opposite (oside od), ttimestamp = ts\<rparr>;
               (trs, fs, os, r, g') = fifo_sweep p i ts (q - d) (Suc g) ods
           in if d = fifo_drawable od then (t # trs, oid od # fs, os, r, g')
              else (t # trs, fs, set_total_remaining od (total_quantity od - d) # os, r, g'))"

definition fifo_matchable :: "fifo_level \<Rightarrow> u64 \<Rightarrow> ident \<Rightarrow> u64" where
  "fifo_matchable l q i =
     min q (sum_of fifo_drawable (filter (\<lambda>od. oid od \<noteq> i) (fl_orders l)))"

definition fifo_match :: "fifo_level \<Rightarrow> u64 \<Rightarrow> ident \<Rightarrow> time_in_force \<Rightarrow> taker_kind \<Rightarrow> u64 \<Rightarrow> nat \<Rightarrow>
    match_result \<times> fifo_level \<times> nat" where
  "fifo_match l q i tif kind ts g =
     (case kind of
        TakerPostOnly \<Rightarrow>
          (\<lparr>mr_order_id = i, mr_trades = [], mr_remaining = q, mr_filled_ids = [],
            mr_rejected = 0 < fifo_matchable l q i\<rparr>, l, g)
      | TakerStandard \<Rightarrow>
          (let (trs, fs, os, r, g') = fifo_sweep (fl_price l) i ts q g (fl_orders l)
           in (\<lparr>mr_order_id = i, mr_trades = trs, mr_remaining = r, mr_filled_ids = fs,
                mr_rejected = False\<rparr>, l\<lparr>fl_orders := os\<rparr>, g')))"

definition fifo_total :: "fifo_level \<Rightarrow> pl_error + u64" where
  "fifo_total l =
     (let n = sum_of (\<lambda>od. order_quantity od + fifo_hidden od) (fl_orders l)
      in if n \<le> u64_max then Inr n else Inl 1)"

definition fifo_add :: "fifo_level \<Rightarrow> unit_order \<Rightarrow> (pl_error + unit_order) \<times> fifo_level" where
  "fifo_add l od =
     (if oid od \<in> set (map oid (fl_orders l)) then (Inl 0, l)
      else let l' = l\<lparr>fl_orders := fl_orders l @ [od]\<rparr>
           in case fifo_total l' of Inl e \<Rightarrow> (Inl e, l) | Inr _ \<Rightarrow> (Inr od, l'))"

definition fifo_update :: "fifo_level \<Rightarrow> order_update \<Rightarrow> (pl_error + unit_order option) \<times> fifo_level" where
  "fifo_update l u =
     (case u of
        Cancel i \<Rightarrow>
          (case find (\<lambda>od. oid od = i) (fl_orders l) of
             None \<Rightarrow> (Inr None, l)
           | Some od \<Rightarrow> (Inr (Some od), l\<lparr>fl_orders := filter (\<lambda>x. oid x \<noteq> i) (fl_orders l)\<rparr>))
      | UpdateQuantity i q \<Rightarrow>
          (case find (\<lambda>od. oid od = i) (fl_orders l) of
             None \<Rightarrow> (Inr None, l)
           | Some od \<Rightarrow>
               (let new = set_quantity od q;
                    l' = (if total_quantity od < total_quantity new
                          then l\<lparr>fl_orders := filter (\<lambda>x. oid x \<noteq> i) (fl_orders l) @ [new]\<rparr>
                          else l\<lparr>fl_orders := map (\<lambda>x. if oid x = i then new else x) (fl_orders l)\<rparr>)
                in case fifo_total l' of Inl e \<Rightarrow> (Inl e, l) | Inr _ \<Rightarrow> (Inr (Some new), l')))
      | _ \<Rightarrow> (Inl 2, l))"

definition fifo_add_trade :: "match_result \<Rightarrow> trade \<Rightarrow> (pl_error + unit) \<times> match_result" where
  "fifo_add_trade m t =
     (if tquantity t \<le> mr_remaining m
      then (Inr (), m\<lparr>mr_trades := mr_trades m @ [t], mr_remaining := mr_remaining m - tquantity t\<rparr>)
      else (Inl 3, m))"

definition fifo :: "(fifo_level, nat) pricelevel_api" where
  "fifo =
     \<lparr>visible_of = order_quantity, hidden_of = fifo_hidden,
      is_immediate = (\<lambda>od. otif od = Ioc \<or> otif od = Fok),
      is_fill_or_kill = (\<lambda>od. otif od = Fok),
      is_post_only = is_PostOnly,
      with_reduced_quantity = set_quantity,
      is_expired = fifo_expired,
      mr_new = (\<lambda>i q. \<lparr>mr_order_id = i, mr_trades = [], mr_remaining = q, mr_filled_ids = [],
                       mr_rejected = False\<rparr>),
      mr_add_trade = fifo_add_trade,
      mr_add_filled = (\<lambda>m i. m\<lparr>mr_filled_ids := mr_filled_ids m @ [i]\<rparr>),
      level_new = (\<lambda>p. \<lparr>fl_price = p, fl_orders = []\<rparr>),
      level_price = fl_price,
      level_visible = (\<lambda>l. sum_of order_quantity (fl_orders l)),
      level_hidden = (\<lambda>l. sum_of fifo_hidden (fl_orders l)),
      level_total = fifo_total,
      order_count = (\<lambda>l. length (fl_orders l)),
      snapshot_by_seq = fl_orders,
      iter_orders = fl_orders,
      matchable_quantity = fifo_matchable,
      level_match = fifo_match,
      level_add = fifo_add,
      level_update = fifo_update\<rparr>"

definition fifo_ok :: "fifo_level \<Rightarrow> bool" where
  "fifo_ok l \<longleftrightarrow> distinct (map oid (fl_orders l))"

subsection \<open>The sweep\<close>

lemma fifo_drawable_ge: "order_quantity od \<le> fifo_drawable od"
  by (cases od) auto

lemma fifo_sweep_zero: "fifo_sweep p i ts 0 g ods = ([], [], ods, 0, g)"
  by (induction ods) (auto simp: Let_def)

text \<open>What one step of the sweep does: skip, consume whole, or consume a part and stop.\<close>

lemma fifo_sweep_ConsE:
  assumes "fifo_sweep p i ts q g (x # ods) = (trs, fs, os, r, g')"
  obtains
    (skip) os' where "oid x = i \<or> q = 0 \<or> fifo_drawable x = 0"
      "fifo_sweep p i ts q g ods = (trs, fs, os', r, g')" "os = x # os'"
  | (whole) t trs' fs' where "oid x \<noteq> i" "0 < fifo_drawable x" "fifo_drawable x \<le> q"
      "maker_order_id t = oid x" "tquantity t = fifo_drawable x" "tprice t = p"
      "taker_order_id t = i" "trs = t # trs'" "fs = oid x # fs'"
      "fifo_sweep p i ts (q - fifo_drawable x) (Suc g) ods = (trs', fs', os, r, g')"
  | (part) t where "oid x \<noteq> i" "0 < q" "q < fifo_drawable x" "maker_order_id t = oid x"
      "tquantity t = q" "tprice t = p" "taker_order_id t = i" "trs = [t]" "fs = []" "r = 0"
      "os = set_total_remaining x (total_quantity x - q) # ods"
proof -
  consider "oid x = i \<or> q = 0 \<or> fifo_drawable x = 0"
    | "oid x \<noteq> i" "0 < fifo_drawable x" "fifo_drawable x \<le> q"
    | "oid x \<noteq> i" "0 < q" "q < fifo_drawable x" by linarith
  then show thesis
  proof cases
    case 1
    obtain trs' fs' os' r' h where rec: "fifo_sweep p i ts q g ods = (trs', fs', os', r', h)"
      by (cases "fifo_sweep p i ts q g ods")
    from 1 have "oid x = i \<or> min q (fifo_drawable x) = 0" by auto
    with assms rec have "trs = trs'" "fs = fs'" "os = x # os'" "r = r'" "g' = h"
      by (simp_all add: Let_def)
    with 1 rec show ?thesis by (intro skip) simp_all
  next
    case 2
    obtain trs' fs' os' r' h where
      rec: "fifo_sweep p i ts (q - fifo_drawable x) (Suc g) ods = (trs', fs', os', r', h)"
      by (cases "fifo_sweep p i ts (q - fifo_drawable x) (Suc g) ods")
    let ?t = "\<lparr>trade_id = g, taker_order_id = i, maker_order_id = oid x, tprice = p,
      tquantity = fifo_drawable x, taker_side = opposite (oside x), ttimestamp = ts\<rparr>"
    from 2 have "min q (fifo_drawable x) = fifo_drawable x" by simp
    with 2 assms rec have "trs = ?t # trs'" "fs = oid x # fs'" "os = os'" "r = r'" "g' = h"
      by (simp_all add: Let_def)
    with 2 rec show ?thesis by (intro whole [of ?t trs' fs']) simp_all
  next
    case 3
    let ?t = "\<lparr>trade_id = g, taker_order_id = i, maker_order_id = oid x, tprice = p,
      tquantity = q, taker_side = opposite (oside x), ttimestamp = ts\<rparr>"
    from 3 have "min q (fifo_drawable x) = q" by simp
    with 3 assms have "trs = [?t]" "fs = []" "os = set_total_remaining x (total_quantity x - q) # ods"
      "r = 0" by (simp_all add: Let_def fifo_sweep_zero)
    with 3 show ?thesis by (intro part [of ?t]) simp_all
  qed
qed

lemma fifo_sweep_conserves:
  "fifo_sweep p i ts q g ods = (trs, fs, os, r, g') \<Longrightarrow> traded_quantity trs + r = q"
proof (induction ods arbitrary: q g trs fs os r g')
  case (Cons x ods)
  from Cons.prems show ?case by (cases rule: fifo_sweep_ConsE) (use Cons.IH in fastforce)+
qed simp

lemma fifo_sweep_trade:
  "fifo_sweep p i ts q g ods = (trs, fs, os, r, g') \<Longrightarrow> t \<in> set trs \<Longrightarrow>
   tprice t = p \<and> 0 < tquantity t \<and> taker_order_id t = i \<and> maker_order_id t \<in> ids ods"
proof (induction ods arbitrary: q g trs fs os r g')
  case (Cons x ods)
  from Cons.prems(1) show ?case
    by (cases rule: fifo_sweep_ConsE) (use Cons.IH Cons.prems(2) in fastforce)+
qed simp

lemma fifo_sweep_filled:
  "fifo_sweep p i ts q g ods = (trs, fs, os, r, g') \<Longrightarrow> distinct (map oid ods) \<Longrightarrow>
   distinct fs \<and> set fs \<subseteq> maker_order_id ` set trs \<and> set fs \<subseteq> ids ods \<and>
   map tag os = filter (\<lambda>e. fst e \<notin> set fs) (map tag ods)"
proof (induction ods arbitrary: q g trs fs os r g')
  case (Cons x ods)
  have notin: "oid x \<notin> ids ods" and dist: "distinct (map oid ods)" using Cons.prems(2) by auto
  from Cons.prems(1) show ?case
  proof (cases rule: fifo_sweep_ConsE)
    case (skip os')
    then show ?thesis using Cons.IH [OF skip(2) dist] notin by auto
  next
    case (whole t trs' fs')
    have "filter (\<lambda>e. fst e \<notin> insert (oid x) (set fs')) (map tag ods) =
        filter (\<lambda>e. fst e \<notin> set fs') (map tag ods)"
      using notin by (intro filter_cong) (auto simp: image_iff)
    then show ?thesis using whole Cons.IH [OF whole(10) dist] notin by auto
  qed simp
qed simp

lemma fifo_sweep_prefix:
  "fifo_sweep p i ts q g (xs @ ys) = (trs, fs, os, r, g') \<Longrightarrow>
   q \<le> sum_of order_quantity xs \<Longrightarrow> i \<notin> ids xs \<Longrightarrow> t \<in> set trs \<Longrightarrow> maker_order_id t \<in> ids xs"
proof (induction xs arbitrary: q g trs fs os r g')
  case Nil
  then show ?case by (simp add: fifo_sweep_zero)
next
  case (Cons x xs)
  note ge = fifo_drawable_ge [of x]
  from Cons.prems(1) have "fifo_sweep p i ts q g (x # (xs @ ys)) = (trs, fs, os, r, g')" by simp
  then show ?case
  proof (cases rule: fifo_sweep_ConsE)
    case (skip os')
    then have "q \<le> sum_of order_quantity xs" using Cons.prems(2,3) ge by auto
    then show ?thesis using Cons.IH [OF skip(2)] Cons.prems(3,4) by auto
  next
    case (whole u trs' fs')
    have "q - fifo_drawable x \<le> sum_of order_quantity xs" using Cons.prems(2) ge by auto
    from Cons.IH [OF whole(10) this] show ?thesis using whole(4,8) Cons.prems(3,4) by auto
  next
    case (part u)
    then show ?thesis using Cons.prems(4) by auto
  qed
qed

lemma fifo_sweep_amount:
  "fifo_sweep p i ts q g ods = (trs, fs, os, r, g') \<Longrightarrow>
   traded_quantity trs = min q (sum_of fifo_drawable (filter (\<lambda>od. oid od \<noteq> i) ods))"
proof (induction ods arbitrary: q g trs fs os r g')
  case (Cons x ods)
  from Cons.prems show ?case by (cases rule: fifo_sweep_ConsE) (use Cons.IH in fastforce)+
qed simp

lemma fifo_sweep_exhausts:
  "fifo_sweep p i ts q g ods = (trs, fs, os, r, g') \<Longrightarrow> 0 < r \<Longrightarrow>
   od \<in> set os \<Longrightarrow> oid od \<noteq> i \<Longrightarrow> fifo_drawable od = 0"
proof (induction ods arbitrary: q g trs fs os r g')
  case (Cons x ods)
  from Cons.prems(1) show ?case
  proof (cases rule: fifo_sweep_ConsE)
    case (skip os')
    from fifo_sweep_conserves [OF skip(2)] Cons.prems(2) have "0 < q" by linarith
    then show ?thesis using skip Cons.IH [OF skip(2)] Cons.prems by auto
  next
    case (whole t trs' fs')
    then show ?thesis using Cons.IH [OF whole(10)] Cons.prems by simp
  qed (use Cons.prems in simp)
qed simp

subsection \<open>The reference level meets the contract\<close>

lemma fifo_api [simp]:
  "visible_of fifo = order_quantity" "hidden_of fifo = fifo_hidden"
  "is_immediate fifo od = (otif od = Ioc \<or> otif od = Fok)"
  "is_fill_or_kill fifo od = (otif od = Fok)" "is_post_only fifo = is_PostOnly"
  "with_reduced_quantity fifo = set_quantity" "is_expired fifo = fifo_expired"
  "mr_new fifo i q = \<lparr>mr_order_id = i, mr_trades = [], mr_remaining = q, mr_filled_ids = [],
     mr_rejected = False\<rparr>"
  "mr_add_trade fifo = fifo_add_trade"
  "mr_add_filled fifo m i = m\<lparr>mr_filled_ids := mr_filled_ids m @ [i]\<rparr>"
  "level_new fifo p = \<lparr>fl_price = p, fl_orders = []\<rparr>" "level_price fifo = fl_price"
  "level_visible fifo l = sum_of order_quantity (fl_orders l)"
  "level_hidden fifo l = sum_of fifo_hidden (fl_orders l)"
  "level_total fifo = fifo_total" "order_count fifo l = length (fl_orders l)"
  "snapshot_by_seq fifo = fl_orders" "iter_orders fifo = fl_orders"
  "matchable_quantity fifo = fifo_matchable" "level_match fifo = fifo_match"
  "level_add fifo = fifo_add" "level_update fifo = fifo_update"
  by (simp_all add: fifo_def)

lemma fifo_matchE:
  assumes "fifo_match l q i tif TakerStandard ts g = (m, l', g')"
  obtains os where "fifo_sweep (fl_price l) i ts q g (fl_orders l) =
      (mr_trades m, mr_filled_ids m, os, mr_remaining m, g')" "l' = l\<lparr>fl_orders := os\<rparr>"
  using assms by (auto simp: fifo_match_def split: prod.splits)

lemma find_oid:
  assumes "distinct (map oid ods)" and "od \<in> set ods"
  shows "find (\<lambda>x. oid x = oid od) ods = Some od"
  using assms by (induction ods) (auto simp: image_iff)

lemma fifo_update_quantity:
  assumes "fifo_ok l" and "od \<in> set (fl_orders l)"
    and "fifo_update l (UpdateQuantity (oid od) q) = (r, l')"
  shows "(\<exists>e. r = Inl e) \<and> l' = l \<or>
      r = Inr (Some (set_quantity od q)) \<and> fifo_ok l' \<and> fl_price l' = fl_price l \<and>
        mset (map tag (fl_orders l')) = mset (map tag (fl_orders l))"
proof -
  have d: "distinct (map oid (fl_orders l))" using assms(1) by (simp add: fifo_ok_def)
  have find: "find (\<lambda>x. oid x = oid od) (fl_orders l) = Some od" by (rule find_oid [OF d assms(2)])
  define new where "new = set_quantity od q"
  define k where "k = (if total_quantity od < total_quantity new
      then l\<lparr>fl_orders := filter (\<lambda>x. oid x \<noteq> oid od) (fl_orders l) @ [new]\<rparr>
      else l\<lparr>fl_orders := map (\<lambda>x. if oid x = oid od then new else x) (fl_orders l)\<rparr>)"
  have in_place: "map tag (map (\<lambda>x. if oid x = oid od then new else x) (fl_orders l)) =
      map tag (fl_orders l)"
    using d assms(2) by (auto simp: distinct_map inj_on_def new_def)
  have "mset (fl_orders l) = add_mset od (mset (filter (\<lambda>x. oid x \<noteq> oid od) (fl_orders l)))"
    by (rule mset_split_key [OF d assms(2)])
  from arg_cong [OF this, of "image_mset tag"]
  have moved: "mset (map tag (filter (\<lambda>x. oid x \<noteq> oid od) (fl_orders l) @ [new])) =
      mset (map tag (fl_orders l))" by (simp add: new_def)
  have tags: "mset (map tag (fl_orders k)) = mset (map tag (fl_orders l))"
    using moved arg_cong [OF in_place, of mset]
    by (cases "total_quantity od < total_quantity new") (simp_all add: k_def del: map_map)
  have "mset (map oid (fl_orders k)) = mset (map oid (fl_orders l))"
    using arg_cong [OF tags, of "image_mset fst"] by (simp add: image_mset.compositionality comp_def)
  from mset_eq_imp_distinct_iff [OF this] d have "fifo_ok k" by (simp add: fifo_ok_def)
  moreover have "fl_price k = fl_price l" by (simp add: k_def)
  moreover have "(r, l') = (case fifo_total k of Inl e \<Rightarrow> (Inl e, l) | Inr _ \<Rightarrow> (Inr (Some new), k))"
    unfolding k_def new_def using assms(3) find
    by (simp add: fifo_update_def Let_def split: if_splits)
  ultimately show ?thesis using tags by (auto simp: new_def split: sum.splits)
qed

interpretation fifo: price_levels fifo fifo_ok
proof (unfold_locales, goal_cases)
  case (12 l od)
  then show ?case
    by (auto simp: fifo_update_def fifo_ok_def find_oid distinct_map_filter)
next
  case (13 l i)
  then have "find (\<lambda>x. oid x = i) (fl_orders l) = None" by (auto simp: find_None_iff)
  then show ?case by (simp add: fifo_update_def)
next
  case (14 l od q r l')
  then show ?case using fifo_update_quantity [of l od q r l'] by simp
next
  case (15 l q i tif ts g m l' g')
  then obtain os where sw: "fifo_sweep (fl_price l) i ts q g (fl_orders l) =
      (mr_trades m, mr_filled_ids m, os, mr_remaining m, g')" and "l' = l\<lparr>fl_orders := os\<rparr>"
    by (auto elim: fifo_matchE)
  moreover from fifo_sweep_filled [OF sw] 15(1)
  have "map fst (map tag os) = map fst (filter (\<lambda>e. fst e \<notin> set (mr_filled_ids m)) (map tag (fl_orders l)))"
    by (simp add: fifo_ok_def)
  then have "distinct (map oid os)"
    using 15(1) by (simp add: fifo_ok_def filter_map comp_def distinct_map_filter)
  ultimately show ?case by (simp add: fifo_ok_def)
next
  case (16 l q i tif ts g m l' g')
  then show ?case by (auto elim: fifo_matchE dest: fifo_sweep_conserves)
next
  case (17 l q i tif ts g m l' g' t)
  then show ?case by (auto elim: fifo_matchE dest: fifo_sweep_trade)
next
  case (18 l q i tif ts g m l' g')
  then obtain os where sw: "fifo_sweep (fl_price l) i ts q g (fl_orders l) =
      (mr_trades m, mr_filled_ids m, os, mr_remaining m, g')" and "l' = l\<lparr>fl_orders := os\<rparr>"
    by (auto elim: fifo_matchE)
  then show ?case using fifo_sweep_filled [OF sw] 18(1) by (simp add: fifo_ok_def)
next
  case (19 l q i tif ts g m l' g' xs ys t)
  then show ?case by (auto elim!: fifo_matchE dest: fifo_sweep_prefix)
next
  case (20 l q i tif ts g m l' g')
  then show ?case by (auto simp: fifo_matchable_def elim: fifo_matchE dest: fifo_sweep_amount)
next
  case (21 l q i tif ts g m l' g' q')
  then have "\<forall>od \<in> set (filter (\<lambda>od. oid od \<noteq> i) (fl_orders l')). fifo_drawable od = 0"
    by (auto elim!: fifo_matchE dest: fifo_sweep_exhausts)
  then have "sum_of fifo_drawable (filter (\<lambda>od. oid od \<noteq> i) (fl_orders l')) = 0"
    by (simp add: sum_list_eq_0_iff)
  then show ?case unfolding fifo_api fifo_matchable_def by linarith
next
  case (22 l q i tif ts g m l' g')
  then show ?case by (auto simp: fifo_match_def)
qed (auto simp: fifo_ok_def fifo_add_trade_def fifo_add_def Let_def split: if_splits sum.splits)

end
