(* ===== verification/Stp.thy ===== *)
theory Stp
  imports Price_Level
begin

text \<open>
  Self-trade prevention, \<open>src/orderbook/stp.rs\<close>: the mode of a book, the action for one price
  level, and the scan of the level's orders in queue order that decides it.
\<close>

section \<open>Modes and actions\<close>

datatype stp_mode = StpNone | StpCancelTaker | StpCancelMaker | StpCancelBoth

definition is_enabled :: "stp_mode \<Rightarrow> bool" where
  "is_enabled mode \<longleftrightarrow> mode \<noteq> StpNone"

datatype stp_action =
    NoConflict
  | CancelTaker u64
  | CancelMaker
  | CancelBoth u64 ident

text \<open>The loop shared by the \<open>CancelTaker\<close> and \<open>CancelBoth\<close> arms: the first order of the
  taker's user, with the visible quantity that stands before it.\<close>

fun stp_scan :: "('l, 'g) pricelevel_api \<Rightarrow> hash32 \<Rightarrow> u64 \<Rightarrow> unit_order list \<Rightarrow> (u64 \<times> unit_order) option" where
  "stp_scan A user safe_quantity [] = None"
| "stp_scan A user safe_quantity (od # ods) =
     (if ouser od = user then Some (safe_quantity, od)
      else stp_scan A user (sat_add64 safe_quantity (visible_of A od)) ods)"

definition check_stp_at_level ::
    "('l, 'g) pricelevel_api \<Rightarrow> unit_order list \<Rightarrow> hash32 \<Rightarrow> stp_mode \<Rightarrow> stp_action" where
  "check_stp_at_level A orders taker_user_id mode =
     (if mode = StpNone \<or> taker_user_id = 0 then NoConflict
      else case mode of
        StpNone \<Rightarrow> NoConflict
      | StpCancelTaker \<Rightarrow>
          (case stp_scan A taker_user_id 0 orders of
             Some (safe_quantity, _) \<Rightarrow> CancelTaker safe_quantity
           | None \<Rightarrow> NoConflict)
      | StpCancelMaker \<Rightarrow>
          (if \<exists>od \<in> set orders. ouser od = taker_user_id then CancelMaker else NoConflict)
      | StpCancelBoth \<Rightarrow>
          (case stp_scan A taker_user_id 0 orders of
             Some (safe_quantity, od) \<Rightarrow> CancelBoth safe_quantity (oid od)
           | None \<Rightarrow> NoConflict))"

section \<open>The scan\<close>

lemma stp_scan_None: "stp_scan A user s ods = None \<longleftrightarrow> (\<forall>od \<in> set ods. ouser od \<noteq> user)"
  by (induction ods arbitrary: s) auto

text \<open>A conflict splits the queue at the first own order; the safe quantity is the visible
  quantity of the part before it, capped at \<open>u64::MAX\<close>.\<close>

lemma stp_scan_Some:
  "stp_scan A user s ods = Some (n, od) \<Longrightarrow> s \<le> u64_max \<Longrightarrow>
   \<exists>xs ys. ods = xs @ od # ys \<and> ouser od = user \<and> (\<forall>x \<in> set xs. ouser x \<noteq> user) \<and>
     n = min (s + sum_of (visible_of A) xs) u64_max"
proof (induction ods arbitrary: s)
  case (Cons a ods)
  show ?case
  proof (cases "ouser a = user")
    case True
    then have "a = od" "n = min (s + sum_of (visible_of A) []) u64_max" using Cons.prems by auto
    then show ?thesis using True by (metis append_Nil empty_iff empty_set)
  next
    case False
    then have "stp_scan A user (sat_add64 s (visible_of A a)) ods = Some (n, od)"
      using Cons.prems(1) by simp
    from Cons.IH [OF this] obtain xs ys where "ods = xs @ od # ys" "ouser od = user"
      "\<forall>x \<in> set xs. ouser x \<noteq> user"
      "n = min (sat_add64 s (visible_of A a) + sum_of (visible_of A) xs) u64_max" by auto
    then have "a # ods = (a # xs) @ od # ys \<and> ouser od = user \<and>
        (\<forall>x \<in> set (a # xs). ouser x \<noteq> user) \<and> n = min (s + sum_of (visible_of A) (a # xs)) u64_max"
      using False by (auto simp: sat_add64_def)
    then show ?thesis by blast
  qed
qed simp

lemma stp_scan_SomeE:
  assumes "stp_scan A user 0 ods = Some (n, od)"
  obtains xs ys where "ods = xs @ od # ys" "ouser od = user" "\<forall>x \<in> set xs. ouser x \<noteq> user"
    "n = min (sum_of (visible_of A) xs) u64_max"
  using stp_scan_Some [OF assms] by auto

lemma check_stp_NoConflict_iff:
  "mode \<noteq> StpNone \<Longrightarrow> user \<noteq> 0 \<Longrightarrow>
   check_stp_at_level A ods user mode = NoConflict \<longleftrightarrow> (\<forall>od \<in> set ods. ouser od \<noteq> user)"
  using stp_scan_None [of A user 0 ods]
  by (cases mode) (auto simp: check_stp_at_level_def split: option.splits)

lemma check_stp_CancelTakerE:
  assumes "check_stp_at_level A ods user mode = CancelTaker n"
  obtains od xs ys where "mode = StpCancelTaker" "user \<noteq> 0" "ods = xs @ od # ys" "ouser od = user"
    "\<forall>x \<in> set xs. ouser x \<noteq> user" "n = min (sum_of (visible_of A) xs) u64_max"
  using assms
  by (auto simp: check_stp_at_level_def split: if_splits option.splits stp_mode.splits
      elim!: stp_scan_SomeE)

lemma check_stp_CancelBothE:
  assumes "check_stp_at_level A ods user mode = CancelBoth n i"
  obtains od xs ys where "mode = StpCancelBoth" "user \<noteq> 0" "ods = xs @ od # ys" "ouser od = user"
    "oid od = i" "\<forall>x \<in> set xs. ouser x \<noteq> user" "n = min (sum_of (visible_of A) xs) u64_max"
  using assms
  by (auto simp: check_stp_at_level_def split: if_splits option.splits stp_mode.splits
      elim!: stp_scan_SomeE)

lemma check_stp_CancelMakerD:
  "check_stp_at_level A ods user mode = CancelMaker \<Longrightarrow>
   mode = StpCancelMaker \<and> user \<noteq> 0 \<and> (\<exists>od \<in> set ods. ouser od = user)"
  by (auto simp: check_stp_at_level_def split: if_splits option.splits stp_mode.splits)

end
