(* ===== verification/Fees.thy ===== *)
theory Fees
  imports Order_Types
begin

text \<open>
  The fee schedule (\<open>src/orderbook/fees.rs\<close>) and the trade results built from it
  (\<open>src/orderbook/trade.rs\<close>).  Fee rates are \<open>i32\<close> and fees \<open>i128\<close>; both are integers
  here, with \<open>i128\<close> conversions and additions checked where the code checks them.
\<close>

section \<open>Fee schedules\<close>

definition BPS_DENOMINATOR :: u128 where
  "BPS_DENOMINATOR = 10000"

record fee_overflow =
  fo_notional :: u128
  fo_bps :: int
  fo_max_guaranteed_exact_notional :: u128

record fee_schedule =
  maker_fee_bps :: int
  taker_fee_bps :: int

definition max_guaranteed_exact_notional_for_bps :: "int \<Rightarrow> u128" where
  "max_guaranteed_exact_notional_for_bps bps =
     (if nat \<bar>bps\<bar> = 0 then u128_max else u128_max div nat \<bar>bps\<bar>)"

definition fee_overflow_new :: "u128 \<Rightarrow> int \<Rightarrow> fee_overflow" where
  "fee_overflow_new notional bps =
     \<lparr>fo_notional = notional, fo_bps = bps,
      fo_max_guaranteed_exact_notional = max_guaranteed_exact_notional_for_bps bps\<rparr>"

definition fee_schedule_new :: "int \<Rightarrow> int \<Rightarrow> fee_schedule" where
  "fee_schedule_new maker taker = \<lparr>maker_fee_bps = maker, taker_fee_bps = taker\<rparr>"

text \<open>\<open>i128::try_from(u128)\<close>.\<close>

definition i128_try_from :: "u128 \<Rightarrow> int option" where
  "i128_try_from n = (if int n \<le> i128_max then Some (int n) else None)"

definition try_calculate_fee :: "fee_schedule \<Rightarrow> u128 \<Rightarrow> bool \<Rightarrow> fee_overflow + int" where
  "try_calculate_fee s notional is_maker =
     (let bps = (if is_maker then maker_fee_bps s else taker_fee_bps s)
      in case checked_mul128 notional (nat \<bar>bps\<bar>) of
           None \<Rightarrow> Inl (fee_overflow_new notional bps)
         | Some product \<Rightarrow>
             (case i128_try_from (product div BPS_DENOMINATOR) of
                None \<Rightarrow> Inl (fee_overflow_new notional bps)
              | Some magnitude \<Rightarrow> Inr (if bps < 0 then - magnitude else magnitude)))"

definition calculate_fee :: "fee_schedule \<Rightarrow> u128 \<Rightarrow> bool \<Rightarrow> int" where
  "calculate_fee s notional is_maker =
     (case try_calculate_fee s notional is_maker of
        Inr fee \<Rightarrow> fee
      | Inl overflow \<Rightarrow>
          (let magnitude = (case i128_try_from (u128_max div BPS_DENOMINATOR) of
                              Some m \<Rightarrow> m | None \<Rightarrow> i128_max)
           in if fo_bps overflow < 0 then - magnitude else magnitude))"

definition max_guaranteed_exact_notional :: "fee_schedule \<Rightarrow> u128" where
  "max_guaranteed_exact_notional s =
     (let maker = max_guaranteed_exact_notional_for_bps (maker_fee_bps s);
          taker = max_guaranteed_exact_notional_for_bps (taker_fee_bps s)
      in if maker < taker then maker else taker)"

definition has_maker_rebate :: "fee_schedule \<Rightarrow> bool" where
  "has_maker_rebate s \<longleftrightarrow> maker_fee_bps s < 0"

definition is_zero_fee :: "fee_schedule \<Rightarrow> bool" where
  "is_zero_fee s \<longleftrightarrow> maker_fee_bps s = 0 \<and> taker_fee_bps s = 0"

definition zero_fee :: fee_schedule where
  "zero_fee = fee_schedule_new 0 0"

definition taker_only :: "int \<Rightarrow> fee_schedule" where
  "taker_only taker = fee_schedule_new 0 taker"

definition with_maker_rebate :: "int \<Rightarrow> int \<Rightarrow> fee_schedule" where
  "with_maker_rebate rebate taker = fee_schedule_new (- \<bar>rebate\<bar>) taker"

section \<open>Trade results\<close>

record trade_result =
  tr_symbol :: string
  tr_match_result :: match_result
  total_maker_fees :: int
  total_taker_fees :: int
  tr_engine_seq :: u64
  quote_notional :: u128

text \<open>\<open>i128::checked_add\<close>.\<close>

definition checked_add_i128 :: "int \<Rightarrow> int \<Rightarrow> int option" where
  "checked_add_i128 a b =
     (if i128_min \<le> a + b \<and> a + b \<le> i128_max then Some (a + b) else None)"

fun quote_notional_loop :: "u128 \<Rightarrow> trade list \<Rightarrow> u128" where
  "quote_notional_loop acc [] = acc"
| "quote_notional_loop acc (tx # txs) =
     quote_notional_loop (sat_add128 acc (sat_mul128 (tprice tx) (tquantity tx))) txs"

definition compute_quote_notional :: "match_result \<Rightarrow> u128" where
  "compute_quote_notional mr = quote_notional_loop 0 (mr_trades mr)"

definition trade_result_new :: "string \<Rightarrow> match_result \<Rightarrow> trade_result" where
  "trade_result_new symb mr =
     \<lparr>tr_symbol = symb, tr_match_result = mr, total_maker_fees = 0, total_taker_fees = 0,
      tr_engine_seq = 0, quote_notional = compute_quote_notional mr\<rparr>"

fun fee_loop :: "fee_schedule \<Rightarrow> int \<Rightarrow> int \<Rightarrow> trade list \<Rightarrow> int \<times> int" where
  "fee_loop s maker_sum taker_sum [] = (maker_sum, taker_sum)"
| "fee_loop s maker_sum taker_sum (tx # txs) =
     (let notional = sat_mul128 (tprice tx) (tquantity tx);
          m = (case checked_add_i128 maker_sum (calculate_fee s notional True) of
                 Some v \<Rightarrow> v | None \<Rightarrow> maker_sum);
          t = (case checked_add_i128 taker_sum (calculate_fee s notional False) of
                 Some v \<Rightarrow> v | None \<Rightarrow> taker_sum)
      in fee_loop s m t txs)"

definition with_fees :: "string \<Rightarrow> match_result \<Rightarrow> fee_schedule option \<Rightarrow> trade_result" where
  "with_fees symb mr fee_sched =
     (let (maker, taker) =
            (case fee_sched of
               Some s \<Rightarrow> if \<not> is_zero_fee s then fee_loop s 0 0 (mr_trades mr) else (0, 0)
             | None \<Rightarrow> (0, 0))
      in \<lparr>tr_symbol = symb, tr_match_result = mr, total_maker_fees = maker,
          total_taker_fees = taker, tr_engine_seq = 0,
          quote_notional = compute_quote_notional mr\<rparr>)"

definition total_fees :: "trade_result \<Rightarrow> int" where
  "total_fees tr =
     (case checked_add_i128 (total_maker_fees tr) (total_taker_fees tr) of
        Some v \<Rightarrow> v | None \<Rightarrow> i128_max)"

text \<open>The per-transaction view; the string renderings of the identifiers are the identifiers
  themselves here.\<close>

record transaction_info =
  ti_price :: u128
  ti_quantity :: u64
  ti_transaction_id :: ident
  ti_maker_order_id :: ident
  ti_taker_order_id :: ident
  ti_maker_fee :: int
  ti_taker_fee :: int

definition transaction_info_of :: "fee_schedule option \<Rightarrow> trade \<Rightarrow> transaction_info" where
  "transaction_info_of fee_sched tx =
     (let notional = sat_mul128 (tprice tx) (tquantity tx);
          (m, t) = (case fee_sched of
                      Some s \<Rightarrow> (calculate_fee s notional True, calculate_fee s notional False)
                    | None \<Rightarrow> (0, 0))
      in \<lparr>ti_price = tprice tx, ti_quantity = tquantity tx, ti_transaction_id = trade_id tx,
          ti_maker_order_id = maker_order_id tx, ti_taker_order_id = taker_order_id tx,
          ti_maker_fee = m, ti_taker_fee = t\<rparr>)"

definition transactions_of :: "trade_result \<Rightarrow> fee_schedule option \<Rightarrow> transaction_info list" where
  "transactions_of tr fee_sched =
     (let sched = (case fee_sched of Some s \<Rightarrow> if \<not> is_zero_fee s then Some s else None
                                   | None \<Rightarrow> None)
      in map (transaction_info_of sched) (mr_trades (tr_match_result tr)))"

section \<open>Exactness\<close>

text \<open>The mathematical fee: truncation of the magnitude, sign of the rate.\<close>

definition exact_fee :: "int \<Rightarrow> u128 \<Rightarrow> int" where
  "exact_fee bps notional = sgn bps * int (notional * nat \<bar>bps\<bar> div 10000)"

abbreviation leg_bps :: "fee_schedule \<Rightarrow> bool \<Rightarrow> int" where
  "leg_bps s is_maker \<equiv> (if is_maker then maker_fee_bps s else taker_fee_bps s)"

lemma fits_iff_bound:
  "notional \<le> u128_max \<Longrightarrow>
   notional * nat \<bar>bps\<bar> \<le> u128_max \<longleftrightarrow> notional \<le> max_guaranteed_exact_notional_for_bps bps"
  by (auto simp: max_guaranteed_exact_notional_for_bps_def less_eq_div_iff_mult_less_eq)

lemma div_fits_i128: "n \<le> u128_max \<Longrightarrow> i128_try_from (n div BPS_DENOMINATOR) = Some (int (n div BPS_DENOMINATOR))"
  using div_le_mono [of n u128_max BPS_DENOMINATOR]
  by (simp add: i128_try_from_def BPS_DENOMINATOR_def u128_max_def i128_max_def)

lemma try_calculate_fee_eq:
  "try_calculate_fee s notional is_maker =
     (if notional * nat \<bar>leg_bps s is_maker\<bar> \<le> u128_max
      then Inr (exact_fee (leg_bps s is_maker) notional)
      else Inl (fee_overflow_new notional (leg_bps s is_maker)))"
  by (auto simp: try_calculate_fee_def Let_def div_fits_i128 checked_mul128_def exact_fee_def
      BPS_DENOMINATOR_def [symmetric] sgn_if)

lemma clamp_magnitude: "i128_try_from (u128_max div BPS_DENOMINATOR) = Some (int (u128_max div 10000))"
  using div_fits_i128 [of u128_max] by (simp add: BPS_DENOMINATOR_def)

lemma calculate_fee_eq:
  "calculate_fee s notional is_maker =
     (if notional * nat \<bar>leg_bps s is_maker\<bar> \<le> u128_max
      then exact_fee (leg_bps s is_maker) notional
      else sgn (leg_bps s is_maker) * int (u128_max div 10000))"
  by (auto simp: calculate_fee_def try_calculate_fee_eq fee_overflow_new_def clamp_magnitude
      sgn_if exact_fee_def)

lemma exact_fee_le: "notional * nat \<bar>bps\<bar> \<le> u128_max \<Longrightarrow> \<bar>exact_fee bps notional\<bar> \<le> int (u128_max div 10000)"
  using div_le_mono [of "notional * nat \<bar>bps\<bar>" u128_max 10000]
  by (auto simp: exact_fee_def abs_mult sgn_if)

lemma calculate_fee_bound: "\<bar>calculate_fee s notional is_maker\<bar> \<le> int (u128_max div 10000)"
  using exact_fee_le [of notional "leg_bps s is_maker"]
  by (auto simp: calculate_fee_eq sgn_if)

lemma calculate_fee_mono:
  assumes "n \<le> m" "m \<le> u128_max" "0 \<le> leg_bps s is_maker"
  shows "calculate_fee s n is_maker \<le> calculate_fee s m is_maker"
proof -
  let ?b = "nat \<bar>leg_bps s is_maker\<bar>"
  have le: "n * ?b \<le> m * ?b" using assms(1) by (rule mult_le_mono1)
  then have "n * ?b div 10000 \<le> m * ?b div 10000" by (rule div_le_mono)
  moreover have "n * ?b \<le> u128_max \<Longrightarrow> n * ?b div 10000 \<le> u128_max div 10000" by (rule div_le_mono)
  ultimately show ?thesis using le assms(3)
    by (auto simp: calculate_fee_eq exact_fee_def sgn_if)
qed

section \<open>Aggregates\<close>

text \<open>The sums over the transactions are exact as long as no partial sum leaves \<open>i128\<close>, which
  a bound on the number of transactions guarantees.\<close>

lemma max_fees_fit: "n \<le> 10000 div 2 - 1 \<Longrightarrow> int n * int (u128_max div 10000) \<le> i128_max"
proof -
  assume "n \<le> 10000 div 2 - 1"
  then have "int n * int (u128_max div 10000) \<le> 4999 * int (u128_max div 10000)"
    by (intro mult_right_mono) simp_all
  also have "\<dots> \<le> i128_max" by (simp add: u128_max_def i128_max_def)
  finally show ?thesis .
qed

lemma fee_loop_exact:
  assumes "length txs + k < 5000"
    and "\<bar>m\<bar> \<le> int k * int (u128_max div 10000)" and "\<bar>t\<bar> \<le> int k * int (u128_max div 10000)"
  shows "fee_loop s m t txs =
     (m + (\<Sum>tx\<leftarrow>txs. calculate_fee s (sat_mul128 (tprice tx) (tquantity tx)) True),
      t + (\<Sum>tx\<leftarrow>txs. calculate_fee s (sat_mul128 (tprice tx) (tquantity tx)) False))"
  using assms
proof (induction txs arbitrary: m t k)
  case (Cons tx txs)
  let ?n = "sat_mul128 (tprice tx) (tquantity tx)"
  let ?U = "int (u128_max div 10000)"
  have b: "\<bar>calculate_fee s ?n mk\<bar> \<le> ?U" for mk by (rule calculate_fee_bound)
  have step: "int (Suc k) * ?U = int k * ?U + ?U" by (simp add: algebra_simps)
  have m: "\<bar>m + calculate_fee s ?n True\<bar> \<le> int (Suc k) * ?U"
    and t: "\<bar>t + calculate_fee s ?n False\<bar> \<le> int (Suc k) * ?U"
    using b [of True] b [of False] Cons.prems(2,3) unfolding step by arith+
  have fit: "int (Suc k) * ?U \<le> i128_max" using Cons.prems(1) by (intro max_fees_fit) simp
  have i: "i128_min \<le> - i128_max" by (simp add: i128_min_def i128_max_def)
  have c: "checked_add_i128 m (calculate_fee s ?n True) = Some (m + calculate_fee s ?n True)"
    "checked_add_i128 t (calculate_fee s ?n False) = Some (t + calculate_fee s ?n False)"
    using m t fit i unfolding checked_add_i128_def by auto
  show ?case
    using Cons.IH [of "Suc k", OF _ m t] Cons.prems(1) by (simp add: c Let_def)
qed simp

lemma quote_notional_loop_eq:
  "a \<le> u128_max \<Longrightarrow> quote_notional_loop a txs = min (a + sum_of (\<lambda>tx. tprice tx * tquantity tx) txs) u128_max"
  by (induction txs arbitrary: a) (auto simp: arith_ops)

lemma compute_quote_notional_eq: "compute_quote_notional mr = min (traded_value (mr_trades mr)) u128_max"
  by (simp add: compute_quote_notional_def quote_notional_loop_eq)

lemma sum_list_fees_zero:
  "is_zero_fee s \<Longrightarrow> (\<Sum>tx\<leftarrow>txs. calculate_fee s (f tx) mk) = 0"
  by (induction txs) (auto simp: calculate_fee_eq exact_fee_def is_zero_fee_def)

end
