(* ===== verification/Book_Errors.thy ===== *)
theory Book_Errors
  imports Stp
begin

text \<open>
  Errors and codes: \<open>OrderBookError\<close> (\<open>src/orderbook/error.rs\<close>), the wire-side
  \<open>RejectReason\<close> with its numeric codes and the mapping from errors
  (\<open>src/orderbook/reject_reason.rs\<close>), and the \<open>CancelReason\<close> of
  \<open>src/orderbook/order_state.rs\<close>.
\<close>

section \<open>Data\<close>

datatype order_book_error =
    PriceLevelError pl_error
  | OrderNotFound string
  | InvalidPriceLevel u128
  | PriceCrossing u128 side u128
  | InsufficientLiquidity side u64 u64
  | InsufficientLiquidityNotional side u128 u128
  | InvalidOperation string
  | KillSwitchActive
  | SerializationError string
  | DeserializationError string
  | ChecksumMismatch string string
  | InvalidTickSize u128 u128
  | InvalidLotSize u64 u64
  | OrderSizeOutOfRange u64 "u64 option" "u64 option"
  | DuplicateOrderId ident
  | QuantityOverflow u64 u64
  | MissingUserId ident
  | SelfTradePrevented stp_mode ident hash32
  | RiskMaxOpenOrders hash32 u64 u64
  | RiskMaxNotional hash32 u128 u128 u128
  | RiskPriceBand u128 u128 u32 u32
  | NatsPublishError string
  | NatsSerializationError string

datatype reject_reason =
    RejKillSwitchActive
  | RejRiskMaxOpenOrders
  | RejRiskMaxNotional
  | RejRiskPriceBand
  | RejPostOnlyWouldCross
  | RejSelfTradePrevention
  | RejInvalidPrice
  | RejInvalidQuantity
  | RejInvalidPriceLevel
  | RejOrderSizeOutOfRange
  | RejMissingUserId
  | RejDuplicateOrderId
  | RejInsufficientLiquidity
  | RejOther "16 word"

datatype cancel_reason =
    UserRequested
  | SelfTradePrevention
  | TimeInForceExpired
  | MassCancelAll
  | MassCancelBySide
  | MassCancelByUser
  | MassCancelByPriceRange
  | CancelInsufficientLiquidity

section \<open>Wire codes\<close>

fun as_u16 :: "reject_reason \<Rightarrow> 16 word" where
  "as_u16 RejKillSwitchActive = 1"
| "as_u16 RejRiskMaxOpenOrders = 2"
| "as_u16 RejRiskMaxNotional = 3"
| "as_u16 RejRiskPriceBand = 4"
| "as_u16 RejPostOnlyWouldCross = 5"
| "as_u16 RejSelfTradePrevention = 6"
| "as_u16 RejInvalidPrice = 7"
| "as_u16 RejInvalidQuantity = 8"
| "as_u16 RejInvalidPriceLevel = 9"
| "as_u16 RejOrderSizeOutOfRange = 10"
| "as_u16 RejMissingUserId = 11"
| "as_u16 RejDuplicateOrderId = 12"
| "as_u16 RejInsufficientLiquidity = 13"
| "as_u16 (RejOther code) = code"

definition from_u16 :: "16 word \<Rightarrow> reject_reason" where
  "from_u16 code =
     (if code = 1 then RejKillSwitchActive
      else if code = 2 then RejRiskMaxOpenOrders
      else if code = 3 then RejRiskMaxNotional
      else if code = 4 then RejRiskPriceBand
      else if code = 5 then RejPostOnlyWouldCross
      else if code = 6 then RejSelfTradePrevention
      else if code = 7 then RejInvalidPrice
      else if code = 8 then RejInvalidQuantity
      else if code = 9 then RejInvalidPriceLevel
      else if code = 10 then RejOrderSizeOutOfRange
      else if code = 11 then RejMissingUserId
      else if code = 12 then RejDuplicateOrderId
      else if code = 13 then RejInsufficientLiquidity
      else RejOther code)"

fun reject_reason_from :: "order_book_error \<Rightarrow> reject_reason" where
  "reject_reason_from KillSwitchActive = RejKillSwitchActive"
| "reject_reason_from (RiskMaxOpenOrders _ _ _) = RejRiskMaxOpenOrders"
| "reject_reason_from (RiskMaxNotional _ _ _ _) = RejRiskMaxNotional"
| "reject_reason_from (RiskPriceBand _ _ _ _) = RejRiskPriceBand"
| "reject_reason_from (SelfTradePrevented _ _ _) = RejSelfTradePrevention"
| "reject_reason_from (InvalidPriceLevel _) = RejInvalidPriceLevel"
| "reject_reason_from (PriceCrossing _ _ _) = RejPostOnlyWouldCross"
| "reject_reason_from (InsufficientLiquidity _ _ _) = RejInsufficientLiquidity"
| "reject_reason_from (InsufficientLiquidityNotional _ _ _) = RejInsufficientLiquidity"
| "reject_reason_from (InvalidTickSize _ _) = RejInvalidPrice"
| "reject_reason_from (InvalidLotSize _ _) = RejInvalidQuantity"
| "reject_reason_from (QuantityOverflow _ _) = RejInvalidQuantity"
| "reject_reason_from (OrderSizeOutOfRange _ _ _) = RejOrderSizeOutOfRange"
| "reject_reason_from (DuplicateOrderId _) = RejDuplicateOrderId"
| "reject_reason_from (MissingUserId _) = RejMissingUserId"
| "reject_reason_from (PriceLevelError _) = RejOther 0"
| "reject_reason_from (OrderNotFound _) = RejOther 0"
| "reject_reason_from (InvalidOperation _) = RejOther 0"
| "reject_reason_from (SerializationError _) = RejOther 0"
| "reject_reason_from (DeserializationError _) = RejOther 0"
| "reject_reason_from (ChecksumMismatch _ _) = RejOther 0"
| "reject_reason_from (NatsPublishError _) = RejOther 0"
| "reject_reason_from (NatsSerializationError _) = RejOther 0"

section \<open>Properties of the codes\<close>

lemma as_u16_from_u16: "as_u16 (from_u16 code) = code"
  by (simp add: from_u16_def)

text \<open>A reason the library itself produces, i.e. any but an application code that collides
  with a named one.\<close>

definition canonical :: "reject_reason \<Rightarrow> bool" where
  "canonical r \<longleftrightarrow> (case r of RejOther c \<Rightarrow> c = 0 \<or> 13 < c | _ \<Rightarrow> True)"

lemma word16_small: "(c::16 word) = 0 \<or> 13 < c \<Longrightarrow> c \<notin> {1,2,3,4,5,6,7,8,9,10,11,12,13}"
  by (auto simp: word_less_def)

lemma from_u16_as_u16: "canonical r \<Longrightarrow> from_u16 (as_u16 r) = r"
  using word16_small by (cases r) (auto simp: from_u16_def canonical_def)

lemma reject_reason_from_canonical: "canonical (reject_reason_from e)"
  by (cases e) (auto simp: canonical_def)

lemma reject_reason_from_code_small: "as_u16 (reject_reason_from e) < 1000"
  by (cases e) (auto simp: word_less_def)

end
