(* ===== verification/Risk.thy ===== *)
theory Risk
  imports Book_Errors
begin

text \<open>
  The pre-trade risk layer, \<open>src/orderbook/risk.rs\<close>: configuration, per-account counters,
  per-order entries, the admission checks and the accounting hooks.  The checks may set the
  one-shot warning latch, so they return the state beside the verdict.
\<close>

section \<open>State\<close>

datatype reference_price_source = LastTrade | Mid | FixedPrice u128

record risk_config =
  max_open_orders_per_account :: "u64 option"
  max_notional_per_account :: "u128 option"
  price_band_bps :: "u32 option"
  reference_price :: "reference_price_source option"

definition risk_config_new :: risk_config where
  "risk_config_new = \<lparr>max_open_orders_per_account = None, max_notional_per_account = None,
     price_band_bps = None, reference_price = None\<rparr>"

definition with_max_open_orders_per_account :: "risk_config \<Rightarrow> u64 \<Rightarrow> risk_config" where
  "with_max_open_orders_per_account cfg n = cfg\<lparr>max_open_orders_per_account := Some n\<rparr>"

definition with_max_notional_per_account :: "risk_config \<Rightarrow> u128 \<Rightarrow> risk_config" where
  "with_max_notional_per_account cfg n = cfg\<lparr>max_notional_per_account := Some n\<rparr>"

definition with_price_band_bps :: "risk_config \<Rightarrow> u32 \<Rightarrow> reference_price_source \<Rightarrow> risk_config" where
  "with_price_band_bps cfg bps src = cfg\<lparr>price_band_bps := Some bps, reference_price := Some src\<rparr>"

record risk_counters =
  open_count :: u64
  resting_notional :: u128

record risk_entry =
  re_account :: hash32
  re_price :: u128
  re_remaining_qty :: u64

record risk_state =
  config :: "risk_config option"
  counters :: "hash32 \<rightharpoonup> risk_counters"
  risk_orders :: "ident \<rightharpoonup> risk_entry"
  warned_no_reference :: bool

definition risk_state_new :: risk_state where
  "risk_state_new = \<lparr>config = None, counters = (\<lambda>_. None), risk_orders = (\<lambda>_. None),
     warned_no_reference = False\<rparr>"

definition set_config :: "risk_state \<Rightarrow> risk_config \<Rightarrow> risk_state" where
  "set_config st cfg = st\<lparr>config := Some cfg, warned_no_reference := False\<rparr>"

definition risk_disable :: "risk_state \<Rightarrow> risk_state" where
  "risk_disable st = st\<lparr>config := None\<rparr>"

section \<open>Admission checks\<close>

definition check_price_band ::
    "risk_state \<Rightarrow> risk_config \<Rightarrow> u128 \<Rightarrow> u128 option \<Rightarrow> risk_state \<times> (order_book_error + unit)" where
  "check_price_band st cfg price ref =
     (case (price_band_bps cfg, ref) of
        (Some bps_limit, Some reference) \<Rightarrow>
          (if 0 < reference then
             (let diff = (if price < reference then reference - price else price - reference);
                  scaled_diff = sat_mul128 diff 10000;
                  band = sat_mul128 bps_limit reference
              in if band < scaled_diff then
                   (let bps_u128 = scaled_diff div reference;
                        deviation_bps = (if u32_max < bps_u128 then u32_max else bps_u128)
                    in (st, Inl (RiskPriceBand price reference deviation_bps bps_limit)))
                 else (st, Inr ()))
           else (st, Inr ()))
      | _ \<Rightarrow>
          (if price_band_bps cfg \<noteq> None \<and> reference_price cfg \<noteq> None \<and> ref = None
           then (st\<lparr>warned_no_reference := True\<rparr>, Inr ())
           else (st, Inr ())))"

definition check_limit_admission ::
    "risk_state \<Rightarrow> hash32 \<Rightarrow> u128 \<Rightarrow> u64 \<Rightarrow> u128 option \<Rightarrow> risk_state \<times> (order_book_error + unit)" where
  "check_limit_admission st account price quantity ref =
     (case config st of
        None \<Rightarrow> (st, Inr ())
      | Some cfg \<Rightarrow>
          (let count = (case counters st account of Some c \<Rightarrow> open_count c | None \<Rightarrow> 0);
               current = (case counters st account of Some c \<Rightarrow> resting_notional c | None \<Rightarrow> 0);
               attempted = sat_mul128 quantity price;
               open_orders = (case max_open_orders_per_account cfg of
                   Some limit \<Rightarrow> if limit \<le> count then Inl (RiskMaxOpenOrders account count limit) else Inr ()
                 | None \<Rightarrow> Inr ());
               notional = (case max_notional_per_account cfg of
                   Some limit \<Rightarrow> if limit < sat_add128 current attempted
                                   then Inl (RiskMaxNotional account current attempted limit) else Inr ()
                 | None \<Rightarrow> Inr ())
           in case open_orders of
                Inl e \<Rightarrow> (st, Inl e)
              | Inr _ \<Rightarrow> (case notional of
                              Inl e \<Rightarrow> (st, Inl e)
                            | Inr _ \<Rightarrow> check_price_band st cfg price ref)))"

definition check_modify_admission ::
    "risk_state \<Rightarrow> ident \<Rightarrow> hash32 \<Rightarrow> u128 \<Rightarrow> u64 \<Rightarrow> u128 option \<Rightarrow> risk_state \<times> (order_book_error + unit)" where
  "check_modify_admission st order_id account new_price new_qty ref =
     (case config st of
        None \<Rightarrow> (st, Inr ())
      | Some cfg \<Rightarrow>
          (case risk_orders st order_id of
             None \<Rightarrow> check_limit_admission st account new_price new_qty ref
           | Some entry \<Rightarrow>
               (let old_contribution = sat_mul128 (re_remaining_qty entry) (re_price entry);
                    current = (case counters st account of Some c \<Rightarrow> resting_notional c | None \<Rightarrow> 0);
                    new_contribution = sat_mul128 new_qty new_price;
                    projected = sat_add128 (sat_sub current old_contribution) new_contribution
                in case max_notional_per_account cfg of
                     Some limit \<Rightarrow>
                       (if limit < projected
                        then (st, Inl (RiskMaxNotional account current new_contribution limit))
                        else check_price_band st cfg new_price ref)
                   | None \<Rightarrow> check_price_band st cfg new_price ref)))"

definition check_market_admission :: "risk_state \<Rightarrow> hash32 \<Rightarrow> order_book_error + unit" where
  "check_market_admission st account = Inr ()"

section \<open>Accounting hooks\<close>

definition evict_if_zeroed :: "risk_state \<Rightarrow> hash32 \<Rightarrow> risk_state" where
  "evict_if_zeroed st account =
     (case counters st account of
        Some c \<Rightarrow> (if open_count c = 0 \<and> resting_notional c = 0
                   then st\<lparr>counters := (counters st)(account := None)\<rparr> else st)
      | None \<Rightarrow> st)"

definition on_admission :: "risk_state \<Rightarrow> ident \<Rightarrow> hash32 \<Rightarrow> u128 \<Rightarrow> u64 \<Rightarrow> risk_state" where
  "on_admission st order_id account price remaining_qty =
     (if config st = None then st
      else let c = (case counters st account of
                      Some c \<Rightarrow> c | None \<Rightarrow> \<lparr>open_count = 0, resting_notional = 0\<rparr>);
               notional_delta = sat_mul128 remaining_qty price
           in st\<lparr>risk_orders := (risk_orders st)(order_id \<mapsto>
                   \<lparr>re_account = account, re_price = price, re_remaining_qty = remaining_qty\<rparr>),
                 counters := (counters st)(account \<mapsto>
                   \<lparr>open_count = wrap_add64 (open_count c) 1,
                    resting_notional = wrap_add128 (resting_notional c) notional_delta\<rparr>)\<rparr>)"

definition on_fill :: "risk_state \<Rightarrow> ident \<Rightarrow> u64 \<Rightarrow> u128 \<Rightarrow> risk_state" where
  "on_fill st maker_id filled_qty maker_price =
     (if config st = None then st
      else case risk_orders st maker_id of
        None \<Rightarrow> st
      | Some entry \<Rightarrow>
          (let new_remaining = sat_sub (re_remaining_qty entry) filled_qty;
               account = re_account entry;
               fully_filled = (new_remaining = 0);
               st1 = st\<lparr>risk_orders := (risk_orders st)(maker_id \<mapsto> entry\<lparr>re_remaining_qty := new_remaining\<rparr>)\<rparr>;
               notional_delta = sat_mul128 filled_qty (re_price entry);
               st2 = (case counters st1 account of
                        Some c \<Rightarrow> st1\<lparr>counters := (counters st1)(account \<mapsto>
                           \<lparr>open_count = (if fully_filled then sat_sub (open_count c) 1 else open_count c),
                            resting_notional = sat_sub (resting_notional c) notional_delta\<rparr>)\<rparr>
                      | None \<Rightarrow> st1)
           in if fully_filled
              then evict_if_zeroed (st2\<lparr>risk_orders := (risk_orders st2)(maker_id := None)\<rparr>) account
              else st2))"

definition on_quantity_update :: "risk_state \<Rightarrow> ident \<Rightarrow> u64 \<Rightarrow> risk_state" where
  "on_quantity_update st order_id new_remaining =
     (if config st = None then st
      else case risk_orders st order_id of
        None \<Rightarrow> st
      | Some entry \<Rightarrow>
          (let account = re_account entry;
               old_remaining = re_remaining_qty entry;
               st1 = st\<lparr>risk_orders := (risk_orders st)(order_id \<mapsto> entry\<lparr>re_remaining_qty := new_remaining\<rparr>)\<rparr>
           in case counters st1 account of
                None \<Rightarrow> st1
              | Some c \<Rightarrow>
                  st1\<lparr>counters := (counters st1)(account \<mapsto> c\<lparr>resting_notional :=
                    (if old_remaining \<le> new_remaining
                     then wrap_add128 (resting_notional c)
                            (sat_mul128 (new_remaining - old_remaining) (re_price entry))
                     else sat_sub (resting_notional c)
                            (sat_mul128 (old_remaining - new_remaining) (re_price entry)))\<rparr>)\<rparr>))"

definition on_cancel :: "risk_state \<Rightarrow> ident \<Rightarrow> risk_state" where
  "on_cancel st order_id =
     (if config st = None then st
      else case risk_orders st order_id of
        None \<Rightarrow> st
      | Some entry \<Rightarrow>
          (let st1 = st\<lparr>risk_orders := (risk_orders st)(order_id := None)\<rparr>;
               notional_delta = sat_mul128 (re_remaining_qty entry) (re_price entry);
               st2 = (case counters st1 (re_account entry) of
                        Some c \<Rightarrow> st1\<lparr>counters := (counters st1)(re_account entry \<mapsto>
                           \<lparr>open_count = sat_sub (open_count c) 1,
                            resting_notional = sat_sub (resting_notional c) notional_delta\<rparr>)\<rparr>
                      | None \<Rightarrow> st1)
           in evict_if_zeroed st2 (re_account entry)))"

definition risk_clear :: "risk_state \<Rightarrow> risk_state" where
  "risk_clear st = st\<lparr>risk_orders := (\<lambda>_. None), counters := (\<lambda>_. None)\<rparr>"

section \<open>Counters are the sums over the tracked orders\<close>

definition acct :: "risk_state \<Rightarrow> hash32 \<Rightarrow> ident set" where
  "acct st a = {i. \<exists>e. risk_orders st i = Some e \<and> re_account e = a}"

definition contrib :: "risk_state \<Rightarrow> ident \<Rightarrow> nat" where
  "contrib st i = (case risk_orders st i of Some e \<Rightarrow> re_remaining_qty e * re_price e | None \<Rightarrow> 0)"

definition open_of :: "risk_state \<Rightarrow> hash32 \<Rightarrow> nat" where
  "open_of st a = (case counters st a of Some c \<Rightarrow> open_count c | None \<Rightarrow> 0)"

definition notional_of :: "risk_state \<Rightarrow> hash32 \<Rightarrow> nat" where
  "notional_of st a = (case counters st a of Some c \<Rightarrow> resting_notional c | None \<Rightarrow> 0)"

lemma counter_upds [simp]:
  "open_of (st\<lparr>counters := m\<rparr>) a = (case m a of Some c \<Rightarrow> open_count c | None \<Rightarrow> 0)"
  "notional_of (st\<lparr>counters := m\<rparr>) a = (case m a of Some c \<Rightarrow> resting_notional c | None \<Rightarrow> 0)"
  "open_of (st\<lparr>risk_orders := r\<rparr>) a = open_of st a"
  "notional_of (st\<lparr>risk_orders := r\<rparr>) a = notional_of st a"
  by (simp_all add: open_of_def notional_of_def)

definition risk_inv :: "risk_state \<Rightarrow> bool" where
  "risk_inv st \<longleftrightarrow> finite (dom (risk_orders st)) \<and>
     (\<forall>a. open_of st a = card (acct st a) \<and> notional_of st a = (\<Sum>i \<in> acct st a. contrib st i) \<and>
          notional_of st a \<le> u128_max)"

lemma acct_finite: "finite (dom (risk_orders st)) \<Longrightarrow> finite (acct st a)"
  by (rule finite_subset [of _ "dom (risk_orders st)"]) (auto simp: acct_def)

lemma risk_inv_new: "risk_inv risk_state_new"
  by (simp add: risk_inv_def risk_state_new_def open_of_def notional_of_def acct_def)

lemma risk_inv_clear: "risk_inv (risk_clear st)"
  by (simp add: risk_inv_def risk_clear_def open_of_def notional_of_def acct_def)

lemma risk_inv_config [simp]:
  "risk_inv (set_config st cfg) = risk_inv st" "risk_inv (risk_disable st) = risk_inv st"
  by (simp_all add: risk_inv_def set_config_def risk_disable_def open_of_def notional_of_def acct_def contrib_def)

text \<open>Eviction changes no observable counter.\<close>

lemma evict_frame [simp]:
  "open_of (evict_if_zeroed st a) b = open_of st b"
  "notional_of (evict_if_zeroed st a) b = notional_of st b"
  "risk_orders (evict_if_zeroed st a) = risk_orders st"
  "config (evict_if_zeroed st a) = config st"
  by (auto simp: evict_if_zeroed_def open_of_def notional_of_def split: option.splits)

lemma evict_inv [simp]: "risk_inv (evict_if_zeroed st a) = risk_inv st"
  by (simp add: risk_inv_def acct_def contrib_def)

text \<open>How the specification side moves when one entry is set or removed.\<close>

lemma acct_upd:
  "risk_orders st' = (risk_orders st)(i \<mapsto> e) \<Longrightarrow>
   acct st' a = (if a = re_account e then insert i (acct st a) else acct st a - {i})"
  by (auto simp: acct_def split: if_splits)

lemma acct_del:
  "risk_orders st' = (risk_orders st)(i := None) \<Longrightarrow> acct st' a = acct st a - {i}"
  by (auto simp: acct_def split: if_splits)

lemma contrib_other:
  "risk_orders st' = (risk_orders st)(i := x) \<Longrightarrow> j \<noteq> i \<Longrightarrow> contrib st' j = contrib st j"
  by (simp add: contrib_def)

lemma sum_contrib_other:
  "risk_orders st' = (risk_orders st)(i := x) \<Longrightarrow> i \<notin> S \<Longrightarrow> sum (contrib st') S = sum (contrib st) S"
  by (rule sum.cong) (auto simp: contrib_def)

lemma risk_invD:
  assumes "risk_inv st"
  shows "finite (dom (risk_orders st))" "open_of st a = card (acct st a)"
    "notional_of st a = sum (contrib st) (acct st a)" "notional_of st a \<le> u128_max"
  using assms unfolding risk_inv_def by blast+

lemma risk_invI:
  assumes "\<And>a. open_of st a = card (acct st a) \<and> notional_of st a = sum (contrib st) (acct st a) \<and>
      notional_of st a \<le> u128_max"
    and "finite (dom (risk_orders st))"
  shows "risk_inv st"
  using assms unfolding risk_inv_def by blast

text \<open>An entry that is tracked has its account's counters.\<close>

lemma risk_inv_tracked:
  assumes "risk_inv st" "risk_orders st i = Some e"
  shows "\<exists>c. counters st (re_account e) = Some c \<and> 0 < open_count c \<and>
     re_remaining_qty e * re_price e \<le> resting_notional c"
proof -
  let ?a = "re_account e"
  have mem: "i \<in> acct st ?a" using assms(2) by (auto simp: acct_def)
  have fin: "finite (acct st ?a)" by (rule acct_finite [OF risk_invD(1) [OF assms(1)]])
  have pos: "0 < open_of st ?a"
    using risk_invD(2) [OF assms(1), of ?a] mem fin by (metis card_gt_0_iff empty_iff)
  have "contrib st i \<le> notional_of st ?a"
    using risk_invD(3) [OF assms(1), of ?a] member_le_sum [OF mem _ fin, of "contrib st"] by simp
  then show ?thesis using pos assms(2)
    by (auto simp: open_of_def notional_of_def contrib_def split: option.splits)
qed

text \<open>The three ways a hook moves the state: an entry appears, changes its quantity, or
  disappears, with the account's counters following.\<close>

lemma risk_inv_insert:
  assumes inv: "risk_inv st" and new: "risk_orders st i = None"
    and upd: "risk_orders st' = (risk_orders st)(i \<mapsto> e)"
    and cnt: "\<And>b. open_of st' b = open_of st b + (if b = re_account e then 1 else 0)"
    and ntl: "\<And>b. notional_of st' b = notional_of st b + (if b = re_account e then re_remaining_qty e * re_price e else 0)"
    and fits: "notional_of st (re_account e) + re_remaining_qty e * re_price e \<le> u128_max"
  shows "risk_inv st'"
proof -
  have fin: "finite (dom (risk_orders st))" by (rule risk_invD(1) [OF inv])
  have notin: "i \<notin> acct st b" for b using new by (simp add: acct_def)
  have c: "contrib st' i = re_remaining_qty e * re_price e" using upd by (simp add: contrib_def)
  have "open_of st' b = card (acct st' b) \<and> notional_of st' b = sum (contrib st') (acct st' b) \<and>
      notional_of st' b \<le> u128_max" for b
    using acct_upd [OF upd, of b] notin [of b] acct_finite [OF fin, of b] c fits
      sum_contrib_other [OF upd notin [of b]] risk_invD(2-4) [OF inv, of b]
    by (cases "b = re_account e") (simp_all add: cnt ntl)
  then show ?thesis by (rule risk_invI) (use fin upd in simp)
qed

lemma risk_inv_remove:
  assumes inv: "risk_inv st" and old: "risk_orders st i = Some e"
    and upd: "risk_orders st' = (risk_orders st)(i := None)"
    and cnt: "\<And>b. open_of st' b = open_of st b - (if b = re_account e then 1 else 0)"
    and ntl: "\<And>b. notional_of st' b = notional_of st b - (if b = re_account e then re_remaining_qty e * re_price e else 0)"
  shows "risk_inv st'"
proof -
  have fin: "finite (dom (risk_orders st))" by (rule risk_invD(1) [OF inv])
  have mem: "i \<in> acct st b \<longleftrightarrow> b = re_account e" for b using old by (auto simp: acct_def)
  have c: "contrib st i = re_remaining_qty e * re_price e" using old by (simp add: contrib_def)
  have "open_of st' b = card (acct st' b) \<and> notional_of st' b = sum (contrib st') (acct st' b) \<and>
      notional_of st' b \<le> u128_max" for b
  proof -
    have s: "sum (contrib st') (acct st b - {i}) = sum (contrib st) (acct st b - {i})"
      by (rule sum_contrib_other [OF upd]) simp
    show ?thesis
      using acct_del [OF upd, of b] mem [of b] acct_finite [OF fin, of b] c s risk_invD(2-4) [OF inv, of b]
        sum_diff1_nat [of "contrib st" "acct st b" i]
      by (cases "b = re_account e") (auto simp: cnt ntl)
  qed
  then show ?thesis by (rule risk_invI) (use fin upd in simp)
qed

lemma risk_inv_requantify:
  assumes inv: "risk_inv st" and old: "risk_orders st i = Some e"
    and upd: "risk_orders st' = (risk_orders st)(i \<mapsto> e\<lparr>re_remaining_qty := q\<rparr>)"
    and cnt: "\<And>b. open_of st' b = open_of st b"
    and ntl: "\<And>b. notional_of st' b = (if b = re_account e
                then notional_of st b - re_remaining_qty e * re_price e + q * re_price e
                else notional_of st b)"
    and fits: "notional_of st' (re_account e) \<le> u128_max"
  shows "risk_inv st'"
proof -
  have fin: "finite (dom (risk_orders st))" by (rule risk_invD(1) [OF inv])
  have mem: "i \<in> acct st b \<longleftrightarrow> b = re_account e" for b using old by (auto simp: acct_def)
  have c: "contrib st i = re_remaining_qty e * re_price e" "contrib st' i = q * re_price e"
    using old upd by (simp_all add: contrib_def)
  have "open_of st' b = card (acct st' b) \<and> notional_of st' b = sum (contrib st') (acct st' b) \<and>
      notional_of st' b \<le> u128_max" for b
  proof (cases "b = re_account e")
    case True
    have s: "sum (contrib st') (acct st b - {i}) = sum (contrib st) (acct st b - {i})"
      by (rule sum_contrib_other [OF upd]) simp
    have "sum (contrib st') (acct st b) = q * re_price e + sum (contrib st) (acct st b - {i})"
      using sum.remove [OF acct_finite [OF fin], of i b "contrib st'"] mem [of b] True c s by simp
    then show ?thesis
      using acct_upd [OF upd, of b] mem [of b] True c risk_invD(2,3) [OF inv, of b] fits
        sum_diff1_nat [of "contrib st" "acct st b" i]
      by (auto simp: cnt ntl insert_absorb)
  next
    case False
    then have "acct st' b = acct st b" using acct_upd [OF upd, of b] mem [of b] by simp
    then show ?thesis
      using False mem [of b] sum_contrib_other [OF upd, of "acct st b"] risk_invD(2-4) [OF inv, of b]
      by (simp add: cnt ntl)
  qed
  then show ?thesis by (rule risk_invI) (use fin upd in simp)
qed

section \<open>Every hook keeps the invariant\<close>

lemma on_admission_inv:
  assumes "risk_inv st" "risk_orders st i = None" "open_of st a < u64_max"
    "notional_of st a + q * p \<le> u128_max"
  shows "risk_inv (on_admission st i a p q)"
proof (cases "config st = None")
  case False
  have m: "sat_mul128 q p = q * p" using assms(4) by (simp add: sat_mul128_exact)
  show ?thesis
  proof (rule risk_inv_insert [OF assms(1,2), of _ "\<lparr>re_account = a, re_price = p, re_remaining_qty = q\<rparr>"])
    show "open_of (on_admission st i a p q) b =
        open_of st b + (if b = re_account \<lparr>re_account = a, re_price = p, re_remaining_qty = q\<rparr> then 1 else 0)" for b
      using False assms(3)
      by (auto simp: on_admission_def Let_def open_of_def wrap_add64_exact split: option.splits)
    show "notional_of (on_admission st i a p q) b = notional_of st b +
        (if b = re_account \<lparr>re_account = a, re_price = p, re_remaining_qty = q\<rparr>
         then re_remaining_qty \<lparr>re_account = a, re_price = p, re_remaining_qty = q\<rparr> *
              re_price \<lparr>re_account = a, re_price = p, re_remaining_qty = q\<rparr> else 0)" for b
      using False assms(4) m
      by (auto simp: on_admission_def Let_def notional_of_def wrap_add128_exact split: option.splits)
  qed (use False assms(4) in \<open>auto simp: on_admission_def Let_def\<close>)
qed (simp add: on_admission_def assms(1))

lemma on_cancel_inv:
  assumes "risk_inv st" shows "risk_inv (on_cancel st i)"
proof (cases "config st = None \<or> risk_orders st i = None")
  case False
  then obtain e where e: "risk_orders st i = Some e" and cfg: "config st \<noteq> None" by auto
  obtain c where c: "counters st (re_account e) = Some c"
    and le: "re_remaining_qty e * re_price e \<le> resting_notional c"
    using risk_inv_tracked [OF assms e] by blast
  have "resting_notional c \<le> u128_max"
    using risk_invD(4) [OF assms, of "re_account e"] c by (simp add: notional_of_def)
  then have m: "sat_mul128 (re_remaining_qty e) (re_price e) = re_remaining_qty e * re_price e"
    using le by (simp add: sat_mul128_exact)
  show ?thesis
    by (rule risk_inv_remove [OF assms e])
      (use cfg e c m in \<open>auto simp: on_cancel_def Let_def sat_sub_def open_of_def [of st] notional_of_def [of st]\<close>)
qed (auto simp: on_cancel_def assms)

lemma on_fill_inv:
  assumes "risk_inv st" and filled: "\<And>e. risk_orders st i = Some e \<Longrightarrow> q \<le> re_remaining_qty e"
  shows "risk_inv (on_fill st i q p)"
proof (cases "config st = None \<or> risk_orders st i = None")
  case False
  then obtain e where e: "risk_orders st i = Some e" and cfg: "config st \<noteq> None" by auto
  obtain c where c: "counters st (re_account e) = Some c"
    and le: "re_remaining_qty e * re_price e \<le> resting_notional c"
    using risk_inv_tracked [OF assms(1) e] by blast
  have q: "q \<le> re_remaining_qty e" by (rule filled [OF e])
  then have qle: "q * re_price e \<le> re_remaining_qty e * re_price e" by (rule mult_le_mono1)
  have "resting_notional c \<le> u128_max"
    using risk_invD(4) [OF assms(1), of "re_account e"] c by (simp add: notional_of_def)
  then have m: "sat_mul128 q (re_price e) = q * re_price e"
    using le qle by (intro sat_mul128_exact) linarith
  note defs = on_fill_def Let_def sat_sub_def open_of_def [of st] notional_of_def [of st]
  show ?thesis
  proof (cases "q = re_remaining_qty e")
    case True
    show ?thesis
      by (rule risk_inv_remove [OF assms(1) e])
        (use cfg e c m True in \<open>auto simp: defs\<close>)
  next
    case False
    have d: "(re_remaining_qty e - q) * re_price e = re_remaining_qty e * re_price e - q * re_price e"
      by (rule diff_mult_distrib)
    have n: "notional_of st (re_account e) \<le> u128_max" by (rule risk_invD(4) [OF assms(1)])
    show ?thesis
      by (rule risk_inv_requantify [OF assms(1) e, where q = "re_remaining_qty e - q"])
        (use cfg e c m False q le qle d n in \<open>auto simp: defs\<close>)
  qed
qed (auto simp: on_fill_def assms)

lemma on_quantity_update_inv:
  assumes "risk_inv st"
    and fits: "\<And>e. risk_orders st i = Some e \<Longrightarrow>
      notional_of st (re_account e) - re_remaining_qty e * re_price e + q * re_price e \<le> u128_max"
  shows "risk_inv (on_quantity_update st i q)"
proof (cases "config st = None \<or> risk_orders st i = None")
  case False
  then obtain e where e: "risk_orders st i = Some e" and cfg: "config st \<noteq> None" by auto
  obtain c where c: "counters st (re_account e) = Some c"
    and le: "re_remaining_qty e * re_price e \<le> resting_notional c"
    using risk_inv_tracked [OF assms(1) e] by blast
  have n: "resting_notional c \<le> u128_max"
    using risk_invD(4) [OF assms(1), of "re_account e"] c by (simp add: notional_of_def)
  have f: "resting_notional c - re_remaining_qty e * re_price e + q * re_price e \<le> u128_max"
    using fits [OF e] c by (simp add: notional_of_def)
  have up: "wrap_add128 (resting_notional c) (sat_mul128 (q - re_remaining_qty e) (re_price e)) =
      resting_notional c - re_remaining_qty e * re_price e + q * re_price e"
    if "re_remaining_qty e \<le> q"
  proof -
    have "q * re_price e = re_remaining_qty e * re_price e + (q - re_remaining_qty e) * re_price e"
      using that by (metis add_mult_distrib le_add_diff_inverse)
    then show ?thesis using f le by (simp add: sat_mul128_exact wrap_add128_exact)
  qed
  have down: "sat_sub (resting_notional c) (sat_mul128 (re_remaining_qty e - q) (re_price e)) =
      resting_notional c - re_remaining_qty e * re_price e + q * re_price e"
    if "\<not> re_remaining_qty e \<le> q"
  proof -
    have "re_remaining_qty e * re_price e = q * re_price e + (re_remaining_qty e - q) * re_price e"
      using that by (metis add_mult_distrib le_add_diff_inverse nat_le_linear)
    then show ?thesis using le n by (simp add: sat_mul128_exact sat_sub_def)
  qed
  show ?thesis
    by (rule risk_inv_requantify [OF assms(1) e, where q = q])
      (use cfg e c up down f in \<open>auto simp: on_quantity_update_def Let_def open_of_def notional_of_def\<close>)
qed (auto simp: on_quantity_update_def assms)

section \<open>Sequences of hooks\<close>

text \<open>The calls the book makes into the risk layer, as explicit events.\<close>

datatype risk_event =
    Admit ident hash32 u128 u64
  | Fill ident u64 u128
  | QuantityUpdate ident u64
  | CancelEv ident
  | ClearEv
  | SetConfigEv risk_config
  | DisableEv

fun risk_apply :: "risk_state \<Rightarrow> risk_event \<Rightarrow> risk_state" where
  "risk_apply st (Admit i a p q) = on_admission st i a p q"
| "risk_apply st (Fill i q p) = on_fill st i q p"
| "risk_apply st (QuantityUpdate i q) = on_quantity_update st i q"
| "risk_apply st (CancelEv i) = on_cancel st i"
| "risk_apply st ClearEv = risk_clear st"
| "risk_apply st (SetConfigEv cfg) = set_config st cfg"
| "risk_apply st DisableEv = risk_disable st"

text \<open>What the callers guarantee: an admitted id is not tracked yet and its contribution fits the
  counters; a fill does not exceed the tracked quantity; a quantity update fits.\<close>

fun risk_allowed :: "risk_state \<Rightarrow> risk_event \<Rightarrow> bool" where
  "risk_allowed st (Admit i a p q) \<longleftrightarrow>
     risk_orders st i = None \<and> open_of st a < u64_max \<and> notional_of st a + q * p \<le> u128_max"
| "risk_allowed st (Fill i q p) \<longleftrightarrow>
     (case risk_orders st i of Some e \<Rightarrow> q \<le> re_remaining_qty e | None \<Rightarrow> True)"
| "risk_allowed st (QuantityUpdate i q) \<longleftrightarrow>
     (case risk_orders st i of
        Some e \<Rightarrow> notional_of st (re_account e) - re_remaining_qty e * re_price e + q * re_price e \<le> u128_max
      | None \<Rightarrow> True)"
| "risk_allowed st _ \<longleftrightarrow> True"

fun risk_run :: "risk_state \<Rightarrow> risk_event list \<Rightarrow> risk_state option" where
  "risk_run st [] = Some st"
| "risk_run st (ev # evs) = (if risk_allowed st ev then risk_run (risk_apply st ev) evs else None)"

lemma risk_apply_inv: "risk_inv st \<Longrightarrow> risk_allowed st ev \<Longrightarrow> risk_inv (risk_apply st ev)"
  by (cases ev) (auto intro: on_admission_inv on_fill_inv on_quantity_update_inv on_cancel_inv risk_inv_clear)

lemma risk_run_inv: "risk_inv st \<Longrightarrow> risk_run st evs = Some st' \<Longrightarrow> risk_inv st'"
  by (induction evs arbitrary: st) (auto split: if_splits dest: risk_apply_inv)

text \<open>C20: the per-account counters are exact.  After any sequence of admissions, fills,
  quantity updates, cancels, clears and reconfigurations from the initial state, in which the
  callers respect \<^const>\<open>risk_allowed\<close>, every account's \<open>open_count\<close> is the number of tracked
  orders of that account and its \<open>resting_notional\<close> is the sum of \<open>price * remaining\<close> over them:
  no saturating or wrapping operation loses anything.\<close>

theorem risk_counters_exact:
  assumes "risk_run risk_state_new evs = Some st"
  shows "open_of st a = card (acct st a) \<and> notional_of st a = (\<Sum>i \<in> acct st a. contrib st i)"
  using risk_invD(2,3) [OF risk_run_inv [OF risk_inv_new assms]] by simp

definition risk_demo :: "risk_event list" where
  "risk_demo = [SetConfigEv risk_config_new, Admit 1 7 100 5, Admit 2 7 90 4, Fill 1 2 100, CancelEv 2]"

theorem risk_counters_exact_witness:
  "\<exists>st. risk_run risk_state_new risk_demo = Some st \<and>
     open_of st 7 = card (acct st 7) \<and> notional_of st 7 = (\<Sum>i \<in> acct st 7. contrib st i) \<and> notional_of st 7 = 300"
proof -
  have "\<exists>st. risk_run risk_state_new risk_demo = Some st \<and> notional_of st 7 = 300"
    by (simp add: risk_demo_def risk_state_new_def risk_config_new_def set_config_def on_admission_def
        on_fill_def on_cancel_def evict_if_zeroed_def Let_def arith_ops u64_max_def u128_max_def
        open_of_def notional_of_def)
  then show ?thesis using risk_counters_exact by blast
qed

section \<open>What the checks guarantee\<close>

lemma check_price_band_frame:
  "check_price_band st cfg p ref = (st', r) \<Longrightarrow>
   st' = st\<lparr>warned_no_reference := warned_no_reference st'\<rparr>"
  by (auto simp: check_price_band_def Let_def split: option.splits if_splits)

lemma check_limit_admission_frame:
  "check_limit_admission st a p q ref = (st', r) \<Longrightarrow>
   st' = st\<lparr>warned_no_reference := warned_no_reference st'\<rparr>"
  by (auto simp: check_limit_admission_def Let_def split: option.splits if_splits sum.splits
      dest: check_price_band_frame)

lemma check_modify_admission_frame:
  "check_modify_admission st i a p q ref = (st', r) \<Longrightarrow>
   st' = st\<lparr>warned_no_reference := warned_no_reference st'\<rparr>"
  by (auto simp: check_modify_admission_def Let_def split: option.splits if_splits
      dest: check_limit_admission_frame check_price_band_frame)

lemma check_limit_admission_InrD:
  assumes "check_limit_admission st a p q ref = (st', Inr ())" "config st = Some cfg"
  shows "max_open_orders_per_account cfg = Some l \<Longrightarrow> open_of st a < l"
    and "max_notional_per_account cfg = Some n \<Longrightarrow> sat_add128 (notional_of st a) (sat_mul128 q p) \<le> n"
    and "check_price_band st cfg p ref = (st', Inr ())"
  using assms
  by (auto simp: check_limit_admission_def Let_def open_of_def notional_of_def
      split: option.splits if_splits sum.splits)

text \<open>C21: admission keeps an account inside its limits.  When \<open>check_limit_admission\<close> accepts a
  submitted quantity and the book then admits a resting remainder no larger than it, the account
  has at most the configured number of open orders, its resting notional is at most the
  configured notional, and neither counter wrapped: the notional is exactly the old one plus the
  remainder's.\<close>

theorem admission_within_limits:
  assumes "check_limit_admission st a p q ref = (st', Inr ())" and "config st = Some cfg"
    and "max_open_orders_per_account cfg = Some max_open" and "max_open \<le> u64_max"
    and "max_notional_per_account cfg = Some max_notional" and "max_notional < u128_max"
    and "r \<le> q"
  shows "open_of (on_admission st' i a p r) a \<le> max_open \<and>
     notional_of (on_admission st' i a p r) a = notional_of st a + r * p \<and>
     notional_of (on_admission st' i a p r) a \<le> max_notional"
proof -
  have st': "st' = st\<lparr>warned_no_reference := warned_no_reference st'\<rparr>"
    by (rule check_limit_admission_frame [OF assms(1)])
  have cfg: "config st' = Some cfg" and c: "counters st' = counters st"
    using assms(2) by (subst st', simp)+
  have o: "open_of st a < max_open"
    by (rule check_limit_admission_InrD(1) [OF assms(1-3)])
  have "sat_add128 (notional_of st a) (sat_mul128 q p) \<le> max_notional"
    by (rule check_limit_admission_InrD(2) [OF assms(1,2,5)])
  then have n: "notional_of st a + q * p \<le> max_notional"
    using assms(6) by (auto simp: arith_ops min_def split: if_splits)
  have rp: "r * p \<le> q * p" using assms(7) by (rule mult_le_mono1)
  have nr: "notional_of st a + r * p \<le> max_notional" using n rp by linarith
  have "sat_mul128 r p = r * p" using n rp assms(6) by (intro sat_mul128_exact) linarith
  moreover have "wrap_add128 (notional_of st a) (r * p) = notional_of st a + r * p"
    using n rp assms(6) by (intro wrap_add128_exact) linarith
  moreover have "wrap_add64 (open_of st a) 1 = open_of st a + 1"
    using o assms(4) by (intro wrap_add64_exact) linarith
  ultimately show ?thesis
    using o nr
    by (auto simp: on_admission_def cfg c Let_def open_of_def [of st] notional_of_def [of st] split: option.splits)
qed

definition limits_demo :: risk_state where
  "limits_demo = set_config risk_state_new
     (with_max_notional_per_account (with_max_open_orders_per_account risk_config_new 3) 1000)"

theorem admission_within_limits_witness:
  "open_of (on_admission limits_demo 1 7 100 4) 7 \<le> 3 \<and>
   notional_of (on_admission limits_demo 1 7 100 4) 7 = notional_of limits_demo 7 + 4 * 100 \<and>
   notional_of (on_admission limits_demo 1 7 100 4) 7 \<le> 1000"
  by (rule admission_within_limits [where q = 10 and ref = None and cfg = "the (config limits_demo)"])
    (simp_all add: limits_demo_def set_config_def risk_state_new_def risk_config_new_def
      with_max_notional_per_account_def with_max_open_orders_per_account_def check_limit_admission_def
      check_price_band_def Let_def arith_ops u64_max_def u128_max_def)

text \<open>C22: the price band is exact at the boundary.  With a reference price and a band whose
  product fits \<open>u128\<close>, an order is rejected exactly when the true deviation
  \<open>|price - reference| / reference\<close> exceeds \<open>bps / 10000\<close>, compared without rounding, and the
  rejection reports a deviation of at least the limit.\<close>

theorem price_band_exact:
  assumes "price_band_bps cfg = Some bps" "0 < reference" "bps * reference < u128_max" "bps \<le> u32_max"
  shows "(case snd (check_price_band st cfg price (Some reference)) of
      Inl err \<Rightarrow> bps * reference < 10000 * nat \<bar>int price - int reference\<bar> \<and>
               (\<exists>dev. err = RiskPriceBand price reference dev bps \<and> bps \<le> dev \<and> dev \<le> u32_max)
    | Inr _ \<Rightarrow> 10000 * nat \<bar>int price - int reference\<bar> \<le> bps * reference)"
proof -
  let ?d = "if price < reference then reference - price else price - reference"
  have d: "nat \<bar>int price - int reference\<bar> = ?d" by auto
  have band: "sat_mul128 bps reference = bps * reference"
    using assms(3) by (simp add: sat_mul128_exact)
  have gt: "bps * reference < sat_mul128 ?d 10000 \<longleftrightarrow> bps * reference < 10000 * ?d"
    using assms(3) by (auto simp: sat_mul128_def)
  have dev: "bps \<le> sat_mul128 ?d 10000 div reference" if "bps * reference < sat_mul128 ?d 10000"
    using that assms(2) by (simp add: less_eq_div_iff_mult_less_eq)
  show ?thesis
    unfolding d using assms(1,2,4) band gt dev
    by (auto simp: check_price_band_def Let_def simp del: split_paired_Ex)
qed

definition band_demo :: risk_config where
  "band_demo = with_price_band_bps risk_config_new 500 LastTrade"

theorem price_band_exact_witness:
  "(case snd (check_price_band risk_state_new band_demo 106 (Some 100)) of
      Inl err \<Rightarrow> 500 * 100 < 10000 * nat \<bar>int 106 - int 100\<bar> \<and>
               (\<exists>dev. err = RiskPriceBand 106 100 dev 500 \<and> 500 \<le> dev \<and> dev \<le> u32_max)
    | Inr _ \<Rightarrow> 10000 * nat \<bar>int 106 - int 100\<bar> \<le> (500 :: nat) * 100) \<and>
   snd (check_price_band risk_state_new band_demo 105 (Some 100)) = Inr ()"
proof
  show "snd (check_price_band risk_state_new band_demo 105 (Some 100)) = Inr ()"
    by (simp add: check_price_band_def band_demo_def with_price_band_bps_def Let_def arith_ops u128_max_def)
qed (rule price_band_exact, simp_all add: band_demo_def with_price_band_bps_def u128_max_def u32_max_def)

text \<open>Beyond that bound both sides of the comparison saturate at \<open>u128::MAX\<close> and the band no longer
  rejects: with a 100 percent band, a price 128 times the reference is accepted.\<close>

lemma price_band_saturates:
  "snd (check_price_band st (with_price_band_bps cfg 10000 src) (2 ^ 127) (Some (2 ^ 120))) = Inr ()"
  by (simp add: check_price_band_def with_price_band_bps_def Let_def arith_ops u128_max_def)

end
