(* ===== verification/Clock.thy ===== *)
theory Clock
  imports Prelude
begin

text \<open>
  Time sources, \<open>src/orderbook/clock.rs\<close>.  A clock is state: reading it returns the
  timestamp and the clock to use for the next reading.  The wall clock behind
  \<open>MonotonicClock\<close> is outside the program, so its successive readings are a sequence.
\<close>

datatype clock =
    MonotonicClock (wall: "nat \<Rightarrow> u64") (reading: nat)
  | StubClock (counter: u64) (clock_step: u64)

definition stub_new :: clock where
  "stub_new = StubClock 0 1"

definition starting_at :: "u64 \<Rightarrow> clock" where
  "starting_at start = StubClock start 1"

definition with_step :: "u64 \<Rightarrow> u64 \<Rightarrow> clock" where
  "with_step start step = StubClock start (max step 1)"

fun now_millis :: "clock \<Rightarrow> u64 \<times> clock" where
  "now_millis (MonotonicClock w n) = (w n, MonotonicClock w (Suc n))"
| "now_millis (StubClock c s) = (c, StubClock (wrap_add64 c s) s)"

text \<open>The first \<open>n\<close> readings of a clock.\<close>

fun readings :: "nat \<Rightarrow> clock \<Rightarrow> u64 list" where
  "readings 0 c = []"
| "readings (Suc n) c = (let (t, d) = now_millis c in t # readings n d)"

lemma stub_readings:
  "start + n * s \<le> u64_max \<Longrightarrow> readings n (StubClock start s) = map (\<lambda>k. start + k * s) [0..<n]"
proof (induction n arbitrary: start)
  case (Suc n)
  then have "start + s \<le> u64_max" and "(start + s) + n * s \<le> u64_max" by simp_all
  then show ?case
    using Suc.IH [of "start + s"]
    by (simp add: wrap_add64_exact upt_conv_Cons map_Suc_upt [symmetric] del: upt_Suc)
qed simp

lemma stub_readings_strict:
  assumes "0 < s" "start + n * s \<le> u64_max"
  shows "sorted_wrt (<) (readings n (StubClock start s))"
  using assms by (simp add: stub_readings sorted_wrt_iff_nth_less)

end
