(* ===== verification/Order_State.thy ===== *)
theory Order_State
  imports Book_Errors Clock
begin

text \<open>
  The order lifecycle tracker, \<open>src/orderbook/order_state.rs\<close>: statuses, the bounded
  retention of terminal ones, the timestamped history, and the listener, whose calls are
  recorded in a log.
\<close>

section \<open>Statuses\<close>

datatype order_status =
    Open
  | PartiallyFilled u64 u64
  | Filled u64
  | Cancelled u64 cancel_reason
  | Rejected reject_reason

fun is_terminal :: "order_status \<Rightarrow> bool" where
  "is_terminal (Filled _) = True"
| "is_terminal (Cancelled _ _) = True"
| "is_terminal (Rejected _) = True"
| "is_terminal _ = False"

fun is_active :: "order_status \<Rightarrow> bool" where
  "is_active Open = True"
| "is_active (PartiallyFilled _ _) = True"
| "is_active _ = False"

fun filled_quantity :: "order_status \<Rightarrow> u64" where
  "filled_quantity Open = 0"
| "filled_quantity (PartiallyFilled _ f) = f"
| "filled_quantity (Filled f) = f"
| "filled_quantity (Cancelled f _) = f"
| "filled_quantity (Rejected _) = 0"

lemma is_active_iff [simp]: "is_active s \<longleftrightarrow> \<not> is_terminal s"
  by (cases s) auto

section \<open>The tracker\<close>

record tracker =
  states :: "(ident \<times> order_status) list"
  history :: "(ident \<times> (u64 \<times> order_status) list) list"
  terminal_queue :: "ident list"
  retention_capacity :: usize
  has_listener :: bool
  listener_log :: "(ident \<times> order_status \<times> order_status) list"
  tclock :: clock

definition DEFAULT_RETENTION_CAPACITY :: usize where
  "DEFAULT_RETENTION_CAPACITY = 10000"

definition with_capacity_and_clock :: "usize \<Rightarrow> clock \<Rightarrow> tracker" where
  "with_capacity_and_clock cap c =
     \<lparr>states = [], history = [], terminal_queue = [], retention_capacity = cap,
      has_listener = False, listener_log = [], tclock = c\<rparr>"

definition tracker_with_clock :: "clock \<Rightarrow> tracker" where
  "tracker_with_clock c = with_capacity_and_clock DEFAULT_RETENTION_CAPACITY c"

definition tracker_set_listener :: "tracker \<Rightarrow> tracker" where
  "tracker_set_listener t = t\<lparr>has_listener := True\<rparr>"

definition tracker_get :: "tracker \<Rightarrow> ident \<Rightarrow> order_status option" where
  "tracker_get t i = map_of (states t) i"

definition get_history :: "tracker \<Rightarrow> ident \<Rightarrow> (u64 \<times> order_status) list option" where
  "get_history t i = map_of (history t) i"

definition tracker_len :: "tracker \<Rightarrow> usize" where
  "tracker_len t = length (states t)"

text \<open>The loop of \<open>enqueue_terminal\<close>: pop the oldest ids while the queue is over capacity,
  dropping those that are still terminal.\<close>

fun evict_loop :: "ident list \<Rightarrow> tracker \<Rightarrow> tracker" where
  "evict_loop [] t = t\<lparr>terminal_queue := []\<rparr>"
| "evict_loop (i # q) t =
     (if retention_capacity t < length (i # q) then
        evict_loop q
          (case map_of (states t) i of
             Some s \<Rightarrow> (if is_terminal s
                        then t\<lparr>states := AList.delete i (states t), history := AList.delete i (history t)\<rparr>
                        else t)
           | None \<Rightarrow> t)
      else t\<lparr>terminal_queue := i # q\<rparr>)"

definition enqueue_terminal :: "tracker \<Rightarrow> ident \<Rightarrow> tracker" where
  "enqueue_terminal t i = evict_loop (terminal_queue t @ [i]) t"

definition transition :: "tracker \<Rightarrow> ident \<Rightarrow> order_status \<Rightarrow> tracker" where
  "transition t order_id new_status =
     (let old_status = map_of (states t) order_id;
          t1 = t\<lparr>states := AList.update order_id new_status (states t)\<rparr>;
          (ts, c) = now_millis (tclock t1);
          h = (case map_of (history t1) order_id of Some h \<Rightarrow> h | None \<Rightarrow> []);
          t2 = t1\<lparr>history := AList.update order_id (h @ [(ts, new_status)]) (history t1), tclock := c\<rparr>;
          t3 = (if has_listener t2
                then t2\<lparr>listener_log := listener_log t2 @
                  [(order_id, (case old_status of Some s \<Rightarrow> s | None \<Rightarrow> new_status), new_status)]\<rparr>
                else t2)
      in if is_terminal new_status then enqueue_terminal t3 order_id else t3)"

definition active_count :: "tracker \<Rightarrow> usize" where
  "active_count t = length (filter (\<lambda>e. is_active (snd e)) (states t))"

definition terminal_count :: "tracker \<Rightarrow> usize" where
  "terminal_count t = length (filter (\<lambda>e. is_terminal (snd e)) (states t))"

definition is_old :: "tracker \<Rightarrow> u64 \<Rightarrow> ident \<Rightarrow> bool" where
  "is_old t cutoff i =
     (case map_of (history t) i of
        Some h \<Rightarrow> (if h = [] then False else fst (last h) \<le> cutoff)
      | None \<Rightarrow> False)"

fun purge_loop :: "ident list \<Rightarrow> usize \<Rightarrow> tracker \<Rightarrow> usize \<times> tracker" where
  "purge_loop [] purged t = (purged, t)"
| "purge_loop (i # is) purged t =
     purge_loop is (sat_add64 purged 1)
       (t\<lparr>states := AList.delete i (states t), history := AList.delete i (history t)\<rparr>)"

definition purge_terminal_older_than :: "tracker \<Rightarrow> u128 \<Rightarrow> usize \<times> tracker" where
  "purge_terminal_older_than t older_than_millis =
     (let (now_ms, c) = now_millis (tclock t);
          t1 = t\<lparr>tclock := c\<rparr>;
          cutoff = sat_sub now_ms (if older_than_millis \<le> u64_max then older_than_millis else u64_max);
          to_remove = map fst (filter (\<lambda>e. is_terminal (snd e) \<and> is_old t1 cutoff (fst e)) (states t1))
      in purge_loop to_remove 0 t1)"

definition tracker_clear :: "tracker \<Rightarrow> tracker" where
  "tracker_clear t = t\<lparr>states := [], history := [], terminal_queue := []\<rparr>"

section \<open>Invariant\<close>

text \<open>Keys are distinct; each id has a status exactly when it has a history, whose last entry is
  that status; every terminal id is queued for eviction; the queue respects the capacity.\<close>

definition tracked :: "tracker \<Rightarrow> bool" where
  "tracked t \<longleftrightarrow> distinct (akeys (states t)) \<and> distinct (akeys (history t)) \<and>
     (\<forall>i. map_of (states t) i = (case map_of (history t) i of
            Some h \<Rightarrow> (if h = [] then None else Some (snd (last h))) | None \<Rightarrow> None)) \<and>
     (\<forall>i h. map_of (history t) i = Some h \<longrightarrow> h \<noteq> [])"

definition queued :: "ident list \<Rightarrow> tracker \<Rightarrow> bool" where
  "queued q t \<longleftrightarrow> (\<forall>i s. map_of (states t) i = Some s \<and> is_terminal s \<longrightarrow> i \<in> set q)"

definition tracker_inv :: "tracker \<Rightarrow> bool" where
  "tracker_inv t \<longleftrightarrow> tracked t \<and> queued (terminal_queue t) t \<and>
     length (terminal_queue t) \<le> retention_capacity t"

lemma tracked_delete:
  "tracked t \<Longrightarrow> tracked (t\<lparr>states := AList.delete i (states t), history := AList.delete i (history t)\<rparr>)"
  by (auto simp: tracked_def split: option.splits)

lemma tracked_fields [simp]:
  "tracked (t\<lparr>terminal_queue := q\<rparr>) = tracked t" "tracked (t\<lparr>listener_log := l\<rparr>) = tracked t"
  "tracked (t\<lparr>tclock := c\<rparr>) = tracked t"
  "queued r (t\<lparr>terminal_queue := q\<rparr>) = queued r t" "queued r (t\<lparr>listener_log := l\<rparr>) = queued r t"
  "queued r (t\<lparr>tclock := c\<rparr>) = queued r t" "queued r (t\<lparr>history := h\<rparr>) = queued r t"
  by (simp_all add: tracked_def queued_def)

lemma queued_delete:
  "queued q t \<Longrightarrow> queued q (t\<lparr>states := AList.delete i (states t), history := h\<rparr>)"
  "queued (i # q) t \<Longrightarrow> queued q (t\<lparr>states := AList.delete i (states t), history := h\<rparr>)"
  by (auto simp: queued_def split: if_splits)

lemma evict_loop_inv:
  "tracked t \<Longrightarrow> queued q t \<Longrightarrow>
   tracker_inv (evict_loop q t) \<and> retention_capacity (evict_loop q t) = retention_capacity t"
proof (induction q t rule: evict_loop.induct)
  case (1 t)
  then show ?case by (simp add: tracker_inv_def)
next
  case (2 i q t)
  let ?t = "case map_of (states t) i of
     Some s \<Rightarrow> (if is_terminal s
                then t\<lparr>states := AList.delete i (states t), history := AList.delete i (history t)\<rparr>
                else t)
   | None \<Rightarrow> t"
  have "tracked ?t" using 2(2) by (auto simp: tracked_delete split: option.splits)
  moreover have "queued q ?t"
    using 2(3) queued_delete(2) [OF 2(3)] by (auto simp: queued_def split: option.splits)
  moreover have "retention_capacity ?t = retention_capacity t" by (simp split: option.splits)
  ultimately show ?case using 2 by (auto simp: tracker_inv_def)
qed

lemma tracked_record:
  assumes "tracked t"
  shows "tracked (t\<lparr>states := AList.update i s (states t),
     history := AList.update i ((case map_of (history t) i of Some h \<Rightarrow> h | None \<Rightarrow> []) @ [(ts, s)]) (history t)\<rparr>)"
  using assms by (auto simp: tracked_def split: option.splits)

lemma queued_record:
  "queued q t \<Longrightarrow> \<not> is_terminal s \<Longrightarrow> queued q (t\<lparr>states := AList.update i s (states t)\<rparr>)"
  "queued q t \<Longrightarrow> queued (q @ [i]) (t\<lparr>states := AList.update i s (states t)\<rparr>)"
  by (auto simp: queued_def split: if_splits)

lemma transition_inv:
  assumes "tracker_inv t"
  shows "tracker_inv (transition t i s)" and "retention_capacity (transition t i s) = retention_capacity t"
proof -
  obtain ts c where now: "now_millis (tclock t) = (ts, c)" by fastforce
  let ?u = "t\<lparr>states := AList.update i s (states t),
     history := AList.update i ((case map_of (history t) i of Some h \<Rightarrow> h | None \<Rightarrow> []) @ [(ts, s)]) (history t)\<rparr>"
  define v where "v = (if has_listener t
     then ?u\<lparr>tclock := c, listener_log := listener_log t @
            [(i, (case map_of (states t) i of Some s' \<Rightarrow> s' | None \<Rightarrow> s), s)]\<rparr>
     else ?u\<lparr>tclock := c\<rparr>)"
  have tr: "transition t i s = (if is_terminal s then enqueue_terminal v i else v)"
    by (simp add: transition_def now v_def Let_def)
  have v: "tracked v" "terminal_queue v = terminal_queue t" "retention_capacity v = retention_capacity t"
    using tracked_record [where t = t and i = i and s = s and ts = ts] assms by (simp_all add: v_def tracker_inv_def)
  have q: "queued (terminal_queue t @ [i]) v" "\<not> is_terminal s \<Longrightarrow> queued (terminal_queue t) v"
    using queued_record [of "terminal_queue t" t] assms
    by (simp_all add: v_def tracker_inv_def)
  show "tracker_inv (transition t i s)" "retention_capacity (transition t i s) = retention_capacity t"
    using tr v q evict_loop_inv [OF v(1) q(1)] assms
    by (simp_all add: enqueue_terminal_def tracker_inv_def)
qed

lemma purge_loop_inv:
  "tracker_inv t \<Longrightarrow> purge_loop is n t = (m, t') \<Longrightarrow> tracker_inv t' \<and> retention_capacity t' = retention_capacity t"
proof (induction "is" arbitrary: n t)
  case (Cons i "is")
  let ?t = "t\<lparr>states := AList.delete i (states t), history := AList.delete i (history t)\<rparr>"
  have "tracker_inv ?t"
    using Cons.prems(1) tracked_delete [of t i] queued_delete(1) [of "terminal_queue t" t _ i]
    by (simp add: tracker_inv_def)
  then show ?case using Cons.IH [of ?t] Cons.prems(2) by simp
qed simp

lemma purge_inv:
  "tracker_inv t \<Longrightarrow> purge_terminal_older_than t ms = (m, t') \<Longrightarrow>
   tracker_inv t' \<and> retention_capacity t' = retention_capacity t"
proof -
  assume inv: "tracker_inv t" and p: "purge_terminal_older_than t ms = (m, t')"
  let ?t = "t\<lparr>tclock := snd (now_millis (tclock t))\<rparr>"
  obtain ids where "purge_loop ids 0 ?t = (m, t')"
    using p by (auto simp: purge_terminal_older_than_def Let_def case_prod_unfold)
  moreover have "tracker_inv ?t" using inv by (simp add: tracker_inv_def)
  ultimately show ?thesis using purge_loop_inv by fastforce
qed

lemma clear_inv: "tracker_inv (tracker_clear t)" "retention_capacity (tracker_clear t) = retention_capacity t"
  by (simp_all add: tracker_inv_def tracked_def queued_def tracker_clear_def)

lemma tracker_inv_init: "tracker_inv (with_capacity_and_clock cap c)"
  by (simp add: tracker_inv_def tracked_def queued_def with_capacity_and_clock_def)

text \<open>Terminal statuses are at most as many as queued ids.\<close>

lemma terminal_count_le:
  assumes "tracker_inv t" shows "terminal_count t \<le> retention_capacity t"
proof -
  let ?T = "filter (\<lambda>e. is_terminal (snd e)) (states t)"
  have d: "distinct (akeys (states t))" using assms by (simp add: tracker_inv_def tracked_def)
  have "set (akeys ?T) \<subseteq> set (terminal_queue t)"
    using assms by (auto simp: tracker_inv_def queued_def map_of_Some_iff_mem [OF d] simp del: split_paired_All)
      (metis)
  moreover have "distinct (akeys ?T)" by (rule distinct_map_filter [OF d])
  ultimately have "length ?T \<le> card (set (terminal_queue t))"
    by (metis List.finite_set card_mono distinct_card length_map)
  also have "\<dots> \<le> retention_capacity t"
    using assms card_length [of "terminal_queue t"] by (simp add: tracker_inv_def)
  finally show ?thesis by (simp add: terminal_count_def)
qed

lemma tracker_last_status:
  assumes "tracker_inv t"
  shows "tracker_get t i = Some s \<longleftrightarrow> (\<exists>h. get_history t i = Some h \<and> h \<noteq> [] \<and> snd (last h) = s)"
proof -
  have "map_of (states t) i = (case map_of (history t) i of
      Some h \<Rightarrow> (if h = [] then None else Some (snd (last h))) | None \<Rightarrow> None)"
    using assms unfolding tracker_inv_def tracked_def by blast
  then show ?thesis by (auto simp: tracker_get_def get_history_def split: option.splits)
qed

section \<open>Runs of the tracker\<close>

datatype tracker_event = Transition ident order_status | Purge u128 | Clear

fun tracker_apply :: "tracker \<Rightarrow> tracker_event \<Rightarrow> tracker" where
  "tracker_apply t (Transition i s) = transition t i s"
| "tracker_apply t (Purge ms) = snd (purge_terminal_older_than t ms)"
| "tracker_apply t Clear = tracker_clear t"

lemma tracker_run_inv:
  "tracker_inv t \<Longrightarrow> tracker_inv (foldl tracker_apply t evs) \<and>
   retention_capacity (foldl tracker_apply t evs) = retention_capacity t"
proof (induction evs arbitrary: t)
  case (Cons ev evs)
  have "tracker_inv (tracker_apply t ev) \<and> retention_capacity (tracker_apply t ev) = retention_capacity t"
    using Cons.prems transition_inv clear_inv purge_inv [OF Cons.prems]
    by (cases ev) (auto simp: prod_eq_iff)
  then show ?case using Cons.IH by simp
qed simp

text \<open>C23: the tracker's memory of finished orders is bounded and coherent.  After any sequence
  of transitions, purges and clears, at most \<open>retention_capacity\<close> terminal statuses are kept, and an
  id has a current status exactly when it has a non-empty history, whose last entry is that
  status.\<close>

theorem tracker_bounded_and_coherent:
  "terminal_count (foldl tracker_apply (with_capacity_and_clock cap c) evs) \<le> cap \<and>
   (tracker_get (foldl tracker_apply (with_capacity_and_clock cap c) evs) i = Some s \<longleftrightarrow>
    (\<exists>h. get_history (foldl tracker_apply (with_capacity_and_clock cap c) evs) i = Some h \<and>
         h \<noteq> [] \<and> snd (last h) = s))"
proof -
  have inv: "tracker_inv (foldl tracker_apply (with_capacity_and_clock cap c) evs)"
    and cap: "retention_capacity (foldl tracker_apply (with_capacity_and_clock cap c) evs) = cap"
    using tracker_run_inv [OF tracker_inv_init] by (auto simp: with_capacity_and_clock_def)
  show ?thesis using terminal_count_le [OF inv] tracker_last_status [OF inv] cap by simp
qed

end
