(* ===== verification/Price_Cache.thy ===== *)
theory Price_Cache
  imports Prelude
begin

text \<open>
  The best-price cache, \<open>src/orderbook/cache.rs\<close>: one price and one validity flag per side,
  so that a best price of \<open>0\<close> can be cached.
\<close>

record price_cache =
  best_bid_price :: u128
  best_ask_price :: u128
  bid_valid :: bool
  ask_valid :: bool

definition cache_new :: price_cache where
  "cache_new = \<lparr>best_bid_price = 0, best_ask_price = 0, bid_valid = False, ask_valid = False\<rparr>"

definition invalidate :: "price_cache \<Rightarrow> price_cache" where
  "invalidate c = c\<lparr>bid_valid := False, ask_valid := False\<rparr>"

definition get_cached_best_bid :: "price_cache \<Rightarrow> u128 option" where
  "get_cached_best_bid c = (if bid_valid c then Some (best_bid_price c) else None)"

definition get_cached_best_ask :: "price_cache \<Rightarrow> u128 option" where
  "get_cached_best_ask c = (if ask_valid c then Some (best_ask_price c) else None)"

definition update_best_bid :: "price_cache \<Rightarrow> u128 option \<Rightarrow> price_cache" where
  "update_best_bid c best =
     (case best of Some price \<Rightarrow> c\<lparr>best_bid_price := price, bid_valid := True\<rparr>
                 | None \<Rightarrow> c\<lparr>bid_valid := False\<rparr>)"

definition update_best_ask :: "price_cache \<Rightarrow> u128 option \<Rightarrow> price_cache" where
  "update_best_ask c best =
     (case best of Some price \<Rightarrow> c\<lparr>best_ask_price := price, ask_valid := True\<rparr>
                 | None \<Rightarrow> c\<lparr>ask_valid := False\<rparr>)"

section \<open>Reading back\<close>

lemma cached_after_update [simp]:
  "get_cached_best_bid (update_best_bid c x) = x" "get_cached_best_ask (update_best_ask c y) = y"
  "get_cached_best_ask (update_best_bid c x) = get_cached_best_ask c"
  "get_cached_best_bid (update_best_ask c y) = get_cached_best_bid c"
  by (auto simp: get_cached_best_bid_def get_cached_best_ask_def update_best_bid_def
      update_best_ask_def split: option.splits)

lemma cached_after_invalidate [simp]:
  "get_cached_best_bid (invalidate c) = None" "get_cached_best_ask (invalidate c) = None"
  "get_cached_best_bid cache_new = None" "get_cached_best_ask cache_new = None"
  by (simp_all add: get_cached_best_bid_def get_cached_best_ask_def invalidate_def cache_new_def)

end
