(* ===== verification/Skip_Map.thy ===== *)
theory Skip_Map
  imports Prelude
begin

text \<open>
  The price-ordered index of one side of the book.

  \<open>OrderBook::bids\<close> and \<open>OrderBook::asks\<close> are \<open>SkipMap<u128, Arc<PriceLevel>>\<close>: maps that
  iterate in ascending key order.  The first part states what the book relies on as an
  interface: lookup after insert and remove, and that iteration is the sorted list of
  the entries.  The second part is the representation used by the model, an association
  list sorted by price, with the operations the code calls (\<open>get\<close>, \<open>get_or_insert\<close>,
  \<open>insert\<close>, \<open>remove\<close>, \<open>iter\<close>, \<open>iter().rev()\<close>, \<open>range\<close>), and the proof that it satisfies the
  interface.
\<close>

section \<open>The interface\<close>

locale ordered_index =
  fixes get :: "'m \<Rightarrow> nat \<Rightarrow> 'v option"
    and put :: "nat \<Rightarrow> 'v \<Rightarrow> 'm \<Rightarrow> 'm"
    and remove :: "nat \<Rightarrow> 'm \<Rightarrow> 'm"
    and iter :: "'m \<Rightarrow> (nat \<times> 'v) list"
    and invar :: "'m \<Rightarrow> bool"
  assumes get_put: "invar m \<Longrightarrow> get (put k v m) = (get m)(k \<mapsto> v)"
    and get_remove: "invar m \<Longrightarrow> get (remove k m) = (get m)(k := None)"
    and get_iter: "invar m \<Longrightarrow> get m = map_of (iter m)"
    and iter_sorted: "invar m \<Longrightarrow> sorted_wrt (<) (map fst (iter m))"
    and invar_put: "invar m \<Longrightarrow> invar (put k v m)"
    and invar_remove: "invar m \<Longrightarrow> invar (remove k m)"
begin

lemma iter_distinct: "invar m \<Longrightarrow> distinct (map fst (iter m))"
  using iter_sorted strict_sorted_iff by blast

lemma get_Some_iff: "invar m \<Longrightarrow> get m k = Some v \<longleftrightarrow> (k, v) \<in> set (iter m)"
  by (simp add: get_iter map_of_Some_iff_mem iter_distinct)

lemma first_is_least:
  assumes "invar m" and "iter m = (k, v) # rest" and "get m k' = Some v'"
  shows "k \<le> k'"
proof -
  from assms(1,3) have "(k', v') \<in> set (iter m)" by (simp add: get_Some_iff)
  moreover from iter_sorted [OF assms(1)] assms(2) have "\<forall>e \<in> set rest. k < fst e" by auto
  ultimately show ?thesis using assms(2) by force
qed

lemma last_is_greatest:
  assumes "invar m" and "iter m = rest @ [(k, v)]" and "get m k' = Some v'"
  shows "k' \<le> k"
proof -
  from assms(1,3) have "(k', v') \<in> set (iter m)" by (simp add: get_Some_iff)
  moreover from iter_sorted [OF assms(1)] assms(2) have "\<forall>e \<in> set rest. fst e < k"
    by (auto simp: sorted_wrt_append)
  ultimately show ?thesis using assms(2) by force
qed

lemma put_put_same: "invar m \<Longrightarrow> get (put k w (put k v m)) = get (put k w m)"
  by (simp add: get_put invar_put)

lemma put_commute:
  "invar m \<Longrightarrow> k \<noteq> l \<Longrightarrow> get (put k v (put l w m)) = get (put l w (put k v m))"
  by (auto simp: get_put invar_put fun_upd_twist)

lemma remove_put: "invar m \<Longrightarrow> get (remove k (put k v m)) = get (remove k m)"
  by (simp add: get_put get_remove invar_put)

lemma eq_by_get:
  assumes "invar m" and "invar n" and "get m = get n"
  shows "iter m = iter n"
proof -
  have d: "distinct (iter m)" "distinct (iter n)"
    using iter_distinct [OF assms(1)] iter_distinct [OF assms(2)] by (simp_all add: distinct_map)
  have s: "set (iter m) = set (iter n)"
    using get_Some_iff [OF assms(1)] get_Some_iff [OF assms(2)] assms(3) by auto
  have "sorted (map fst (iter m))" "sorted (map fst (iter n))"
    using iter_sorted assms(1,2) strict_sorted_iff by blast+
  moreover have "inj_on fst (set (iter m) \<union> set (iter n))"
    using iter_distinct [OF assms(1)] s by (simp add: distinct_map)
  moreover have "mset (iter m) = mset (iter n)"
    using d s by (simp add: set_eq_iff_mset_eq_distinct)
  ultimately show ?thesis
    using map_sorted_distinct_set_unique d s iter_distinct assms(1,2) by blast
qed

end

section \<open>Sorted association lists\<close>

type_synonym 'v skip_map = "(nat \<times> 'v) list"

definition sm_get :: "'v skip_map \<Rightarrow> nat \<Rightarrow> 'v option" where
  "sm_get m k = map_of m k"

fun sm_insert :: "nat \<Rightarrow> 'v \<Rightarrow> 'v skip_map \<Rightarrow> 'v skip_map" where
  "sm_insert k v [] = [(k, v)]"
| "sm_insert k v ((k', v') # m) =
     (if k < k' then (k, v) # (k', v') # m
      else if k = k' then (k, v) # m
      else (k', v') # sm_insert k v m)"

definition sm_remove :: "nat \<Rightarrow> 'v skip_map \<Rightarrow> 'v skip_map" where
  "sm_remove k m = filter (\<lambda>e. fst e \<noteq> k) m"

text \<open>\<open>get_or_insert\<close> returns the entry that is there, or inserts the given value.\<close>

definition sm_get_or_insert :: "nat \<Rightarrow> 'v \<Rightarrow> 'v skip_map \<Rightarrow> 'v skip_map \<times> 'v" where
  "sm_get_or_insert k v m =
     (case sm_get m k of Some w \<Rightarrow> (m, w) | None \<Rightarrow> (sm_insert k v m, v))"

definition sm_iter :: "'v skip_map \<Rightarrow> (nat \<times> 'v) list" where
  "sm_iter m = m"

definition sm_iter_rev :: "'v skip_map \<Rightarrow> (nat \<times> 'v) list" where
  "sm_iter_rev m = rev m"

definition sm_range :: "nat \<Rightarrow> nat \<Rightarrow> 'v skip_map \<Rightarrow> (nat \<times> 'v) list" where
  "sm_range lo hi m = filter (\<lambda>e. lo \<le> fst e \<and> fst e \<le> hi) m"

definition sm_invar :: "'v skip_map \<Rightarrow> bool" where
  "sm_invar m \<longleftrightarrow> sorted_wrt (<) (map fst m)"

lemma map_of_sm_insert: "sm_invar m \<Longrightarrow> map_of (sm_insert k v m) = (map_of m)(k \<mapsto> v)"
  by (induction m) (auto simp: sm_invar_def fun_eq_iff)

lemma map_of_sm_remove: "map_of (sm_remove k m) = (map_of m)(k := None)"
  by (induction m) (auto simp: sm_remove_def fun_eq_iff)

lemma set_keys_sm_insert: "fst ` set (sm_insert k v m) = insert k (fst ` set m)"
  by (induction k v m rule: sm_insert.induct) auto

lemma sm_invar_insert: "sm_invar m \<Longrightarrow> sm_invar (sm_insert k v m)"
proof (induction k v m rule: sm_insert.induct)
  case (2 k v k' v' m)
  then show ?case
    using set_keys_sm_insert [of k v m]
    by (auto simp: sm_invar_def image_iff dest: less_trans)
qed (simp add: sm_invar_def)

lemma sm_invar_remove: "sm_invar m \<Longrightarrow> sm_invar (sm_remove k m)"
  by (induction m) (auto simp: sm_invar_def sm_remove_def)

lemma sm_invar_Nil [simp]: "sm_invar []"
  by (simp add: sm_invar_def)

lemma sm_invar_distinct: "sm_invar m \<Longrightarrow> distinct (map fst m)"
  unfolding sm_invar_def using strict_sorted_iff by blast

interpretation sm: ordered_index sm_get sm_insert sm_remove sm_iter sm_invar
  by unfold_locales
    (auto simp: sm_get_def map_of_sm_insert map_of_sm_remove sm_iter_def sm_invar_def fun_eq_iff
      intro: sm_invar_insert [unfolded sm_invar_def] sm_invar_remove [unfolded sm_invar_def])

lemma sm_get_insert [simp]:
  "sm_invar m \<Longrightarrow> sm_get (sm_insert k v m) k' = (if k' = k then Some v else sm_get m k')"
  by (simp add: sm.get_put)

lemma sm_get_remove [simp]: "sm_get (sm_remove k m) k' = (if k' = k then None else sm_get m k')"
  by (simp add: sm_get_def map_of_sm_remove)

lemma sm_get_mem: "sm_invar m \<Longrightarrow> sm_get m k = Some v \<longleftrightarrow> (k, v) \<in> set m"
  using sm.get_Some_iff by (simp add: sm_iter_def)

lemma sm_get_Nil [simp]: "sm_get [] k = None"
  by (simp add: sm_get_def)

lemma sm_insert_same: "sm_invar m \<Longrightarrow> sm_get m k = Some v \<Longrightarrow> sm_insert k v m = m"
  by (induction k v m rule: sm_insert.induct)
    (auto simp: sm_invar_def sm_get_def dest!: map_of_SomeD, fastforce+)

lemma sm_remove_absent: "sm_get m k = None \<Longrightarrow> sm_remove k m = m"
  by (induction m) (auto simp: sm_get_def sm_remove_def split: if_splits)

lemma set_sm_remove: "set (sm_remove k m) = {e \<in> set m. fst e \<noteq> k}"
  by (simp add: sm_remove_def)

lemma sm_eqI: "sm_invar m \<Longrightarrow> sm_invar n \<Longrightarrow> sm_get m = sm_get n \<Longrightarrow> m = n"
  using sm.eq_by_get by (simp add: sm_iter_def)

lemmas sm_invars = sm_invar_insert sm_invar_remove sm_invar_Nil

end
