(* ===== verification/Book.thy ===== *)
theory Book
  imports Stp Fees Risk Order_State Price_Cache Skip_Map
begin

text \<open>
  The order book: the state of \<open>struct OrderBook\<close> (\<open>src/orderbook/book.rs\<close>), its
  configuration, the read operations on it, and the shared helpers of
  \<open>src/orderbook/private.rs\<close>.

  A listener is represented by a flag (installed or not); every listener call and every
  metric is appended to \<open>outlog\<close>, in emission order.  Reads of the best price fill the cache,
  so they return the book.  The submit gate has no counterpart: one call is one step.
\<close>

section \<open>State\<close>

datatype book_event =
    PriceLevelChanged side u128 u64 u64
  | TradeEmitted trade_result
  | RecordReject reject_reason
  | RecordTrades u64
  | RecordDepth nat nat

record special_order_tracker =
  pegged_orders :: "ident list"
  trailing_stop_orders :: "ident list"

record ('l, 'g) book =
  symbol :: string
  bids :: "'l skip_map"
  asks :: "'l skip_map"
  order_locations :: "ident \<rightharpoonup> u128 \<times> side"
  user_orders :: "(hash32 \<times> ident list) list"
  transaction_id_generator :: 'g
  next_order_id :: u64
  engine_seq :: u64
  kill_switch :: bool
  risk_state :: risk_state
  last_trade_price_cell :: u128
  has_traded :: bool
  market_close_timestamp :: u64
  has_market_close :: bool
  cache :: price_cache
  trade_listener :: bool
  price_level_changed_listener :: bool
  special_order_tracker :: special_order_tracker
  tick_size :: "u128 option"
  lot_size :: "u64 option"
  min_order_size :: "u64 option"
  max_order_size :: "u64 option"
  stp_mode_of :: stp_mode
  fee_schedule_of :: "fee_schedule option"
  order_state_tracker :: "tracker option"
  book_clock :: clock
  outlog :: "book_event list"

definition with_clock :: "string \<Rightarrow> clock \<Rightarrow> 'g \<Rightarrow> ('l, 'g) book" where
  "with_clock sy c gen =
     \<lparr>symbol = sy, bids = [], asks = [], order_locations = (\<lambda>_. None), user_orders = [],
      transaction_id_generator = gen, next_order_id = 1, engine_seq = 0, kill_switch = False,
      risk_state = risk_state_new, last_trade_price_cell = 0, has_traded = False,
      market_close_timestamp = 0, has_market_close = False, cache = cache_new,
      trade_listener = False, price_level_changed_listener = False,
      special_order_tracker = \<lparr>pegged_orders = [], trailing_stop_orders = []\<rparr>,
      tick_size = None, lot_size = None, min_order_size = None, max_order_size = None,
      stp_mode_of = StpNone, fee_schedule_of = None, order_state_tracker = None,
      book_clock = c, outlog = []\<rparr>"

text \<open>\<open>match side { Buy => &self.bids, Sell => &self.asks }\<close> and writing back into it.\<close>

definition levels :: "('l, 'g) book \<Rightarrow> side \<Rightarrow> 'l skip_map" where
  "levels b s = (case s of Buy \<Rightarrow> bids b | Sell \<Rightarrow> asks b)"

definition set_levels :: "('l, 'g) book \<Rightarrow> side \<Rightarrow> 'l skip_map \<Rightarrow> ('l, 'g) book" where
  "set_levels b s m = (case s of Buy \<Rightarrow> b\<lparr>bids := m\<rparr> | Sell \<Rightarrow> b\<lparr>asks := m\<rparr>)"

text \<open>A level is mutated in place through its \<open>Arc\<close>: the new value is written back under its price.
  \<open>price_levels.remove(&price)\<close> drops the level.\<close>

definition put_level :: "('l, 'g) book \<Rightarrow> side \<Rightarrow> u128 \<Rightarrow> 'l \<Rightarrow> ('l, 'g) book" where
  "put_level b s p l = set_levels b s (sm_insert p l (levels b s))"

definition drop_level :: "('l, 'g) book \<Rightarrow> side \<Rightarrow> u128 \<Rightarrow> ('l, 'g) book" where
  "drop_level b s p = set_levels b s (sm_remove p (levels b s))"

section \<open>Counters, metrics and events\<close>

definition next_engine_seq :: "('l, 'g) book \<Rightarrow> u64 \<times> ('l, 'g) book" where
  "next_engine_seq b = (engine_seq b, b\<lparr>engine_seq := wrap_add64 (engine_seq b) 1\<rparr>)"

definition emit :: "('l, 'g) book \<Rightarrow> book_event \<Rightarrow> ('l, 'g) book" where
  "emit b ev = b\<lparr>outlog := outlog b @ [ev]\<rparr>"

definition record_reject :: "('l, 'g) book \<Rightarrow> reject_reason \<Rightarrow> ('l, 'g) book" where
  "record_reject b r = emit b (RecordReject r)"

definition record_trades :: "('l, 'g) book \<Rightarrow> u64 \<Rightarrow> ('l, 'g) book" where
  "record_trades b n = (if n = 0 then b else emit b (RecordTrades n))"

definition record_depth_metric :: "('l, 'g) book \<Rightarrow> ('l, 'g) book" where
  "record_depth_metric b = emit b (RecordDepth (length (bids b)) (length (asks b)))"

text \<open>The block that notifies the price-level listener, with the level's price and visible
  quantity.\<close>

definition notify_level :: "('l, 'g) book \<Rightarrow> side \<Rightarrow> u128 \<Rightarrow> u64 \<Rightarrow> ('l, 'g) book" where
  "notify_level b s price quantity =
     (if price_level_changed_listener b
      then let (seq, b1) = next_engine_seq b in emit b1 (PriceLevelChanged s price quantity seq)
      else b)"

section \<open>Lifecycle tracking\<close>

definition track_state :: "('l, 'g) book \<Rightarrow> ident \<Rightarrow> order_status \<Rightarrow> ('l, 'g) book" where
  "track_state b order_id status =
     (let b1 = (case status of Rejected reason \<Rightarrow> record_reject b reason | _ \<Rightarrow> b)
      in case order_state_tracker b1 of
           Some t \<Rightarrow> b1\<lparr>order_state_tracker := Some (transition t order_id status)\<rparr>
         | None \<Rightarrow> b1)"

definition reject_with_risk :: "('l, 'g) book \<Rightarrow> ident \<Rightarrow> order_book_error \<Rightarrow> ('l, 'g) book" where
  "reject_with_risk b order_id err = track_state b order_id (Rejected (reject_reason_from err))"

text \<open>The filled quantity recorded so far for an order that is about to be cancelled.\<close>

definition prev_filled :: "('l, 'g) book \<Rightarrow> ident \<Rightarrow> u64" where
  "prev_filled b order_id =
     (case order_state_tracker b of
        Some t \<Rightarrow> (case tracker_get t order_id of Some s \<Rightarrow> filled_quantity s | None \<Rightarrow> 0)
      | None \<Rightarrow> 0)"

definition order_status_of :: "('l, 'g) book \<Rightarrow> ident \<Rightarrow> order_status option" where
  "order_status_of b order_id =
     (case order_state_tracker b of Some t \<Rightarrow> tracker_get t order_id | None \<Rightarrow> None)"

definition active_order_count :: "('l, 'g) book \<Rightarrow> usize" where
  "active_order_count b = (case order_state_tracker b of Some t \<Rightarrow> active_count t | None \<Rightarrow> 0)"

definition terminal_order_count :: "('l, 'g) book \<Rightarrow> usize" where
  "terminal_order_count b = (case order_state_tracker b of Some t \<Rightarrow> terminal_count t | None \<Rightarrow> 0)"

definition purge_terminal_states :: "('l, 'g) book \<Rightarrow> u128 \<Rightarrow> usize \<times> ('l, 'g) book" where
  "purge_terminal_states b older_than =
     (case order_state_tracker b of
        Some t \<Rightarrow> (let (n, t') = purge_terminal_older_than t older_than
                   in (n, b\<lparr>order_state_tracker := Some t'\<rparr>))
      | None \<Rightarrow> (0, b))"

section \<open>Kill switch and configuration\<close>

definition engage_kill_switch :: "('l, 'g) book \<Rightarrow> ('l, 'g) book" where
  "engage_kill_switch b = b\<lparr>kill_switch := True\<rparr>"

definition release_kill_switch :: "('l, 'g) book \<Rightarrow> ('l, 'g) book" where
  "release_kill_switch b = b\<lparr>kill_switch := False\<rparr>"

definition check_kill_switch_or_reject ::
    "('l, 'g) book \<Rightarrow> ident \<Rightarrow> (order_book_error + unit) \<times> ('l, 'g) book" where
  "check_kill_switch_or_reject b order_id =
     (if kill_switch b
      then (Inl KillSwitchActive, track_state b order_id (Rejected RejKillSwitchActive))
      else (Inr (), b))"

definition check_kill_switch :: "('l, 'g) book \<Rightarrow> order_book_error + unit" where
  "check_kill_switch b = (if kill_switch b then Inl KillSwitchActive else Inr ())"

definition set_risk_config :: "('l, 'g) book \<Rightarrow> risk_config \<Rightarrow> ('l, 'g) book" where
  "set_risk_config b cfg = b\<lparr>risk_state := set_config (risk_state b) cfg\<rparr>"

definition disable_risk :: "('l, 'g) book \<Rightarrow> ('l, 'g) book" where
  "disable_risk b = b\<lparr>risk_state := risk_disable (risk_state b)\<rparr>"

definition set_tick_size :: "('l, 'g) book \<Rightarrow> u128 \<Rightarrow> ('l, 'g) book" where
  "set_tick_size b t = b\<lparr>tick_size := Some t\<rparr>"

definition set_lot_size :: "('l, 'g) book \<Rightarrow> u64 \<Rightarrow> ('l, 'g) book" where
  "set_lot_size b l = b\<lparr>lot_size := Some l\<rparr>"

definition set_min_order_size :: "('l, 'g) book \<Rightarrow> u64 \<Rightarrow> ('l, 'g) book" where
  "set_min_order_size b n = b\<lparr>min_order_size := Some n\<rparr>"

definition set_max_order_size :: "('l, 'g) book \<Rightarrow> u64 \<Rightarrow> ('l, 'g) book" where
  "set_max_order_size b n = b\<lparr>max_order_size := Some n\<rparr>"

definition set_stp_mode :: "('l, 'g) book \<Rightarrow> stp_mode \<Rightarrow> ('l, 'g) book" where
  "set_stp_mode b m = b\<lparr>stp_mode_of := m\<rparr>"

definition set_fee_schedule :: "('l, 'g) book \<Rightarrow> fee_schedule option \<Rightarrow> ('l, 'g) book" where
  "set_fee_schedule b f = b\<lparr>fee_schedule_of := f\<rparr>"

definition set_order_state_tracker :: "('l, 'g) book \<Rightarrow> tracker \<Rightarrow> ('l, 'g) book" where
  "set_order_state_tracker b t = b\<lparr>order_state_tracker := Some t\<rparr>"

definition set_market_close_timestamp :: "('l, 'g) book \<Rightarrow> u64 \<Rightarrow> ('l, 'g) book" where
  "set_market_close_timestamp b ts = b\<lparr>market_close_timestamp := ts, has_market_close := True\<rparr>"

definition clear_market_close_timestamp :: "('l, 'g) book \<Rightarrow> ('l, 'g) book" where
  "clear_market_close_timestamp b = b\<lparr>has_market_close := False\<rparr>"

definition set_clock :: "('l, 'g) book \<Rightarrow> clock \<Rightarrow> ('l, 'g) book" where
  "set_clock b c = b\<lparr>book_clock := c\<rparr>"

definition set_trade_listener :: "('l, 'g) book \<Rightarrow> ('l, 'g) book" where
  "set_trade_listener b = b\<lparr>trade_listener := True\<rparr>"

definition remove_trade_listener :: "('l, 'g) book \<Rightarrow> ('l, 'g) book" where
  "remove_trade_listener b = b\<lparr>trade_listener := False\<rparr>"

definition set_price_level_listener :: "('l, 'g) book \<Rightarrow> ('l, 'g) book" where
  "set_price_level_listener b = b\<lparr>price_level_changed_listener := True\<rparr>"

definition remove_price_level_listener :: "('l, 'g) book \<Rightarrow> ('l, 'g) book" where
  "remove_price_level_listener b = b\<lparr>price_level_changed_listener := False\<rparr>"

section \<open>Best prices\<close>

definition invalidate_cache :: "('l, 'g) book \<Rightarrow> ('l, 'g) book" where
  "invalidate_cache b = b\<lparr>cache := invalidate (cache b)\<rparr>"

definition best_bid :: "('l, 'g) book \<Rightarrow> u128 option \<times> ('l, 'g) book" where
  "best_bid b =
     (case get_cached_best_bid (cache b) of
        Some cached \<Rightarrow> (Some cached, b)
      | None \<Rightarrow>
          (let best_price = (case sm_iter_rev (bids b) of [] \<Rightarrow> None | e # _ \<Rightarrow> Some (fst e))
           in (best_price, b\<lparr>cache := update_best_bid (cache b) best_price\<rparr>)))"

definition best_ask :: "('l, 'g) book \<Rightarrow> u128 option \<times> ('l, 'g) book" where
  "best_ask b =
     (case get_cached_best_ask (cache b) of
        Some cached \<Rightarrow> (Some cached, b)
      | None \<Rightarrow>
          (let best_price = (case sm_iter (asks b) of [] \<Rightarrow> None | e # _ \<Rightarrow> Some (fst e))
           in (best_price, b\<lparr>cache := update_best_ask (cache b) best_price\<rparr>)))"

definition last_trade_price :: "('l, 'g) book \<Rightarrow> u128 option" where
  "last_trade_price b = (if has_traded b then Some (last_trade_price_cell b) else None)"

definition spread :: "('l, 'g) book \<Rightarrow> u128 option \<times> ('l, 'g) book" where
  "spread b =
     (let (bid, b1) = best_bid b; (ask, b2) = best_ask b1
      in (case (bid, ask) of (Some x, Some y) \<Rightarrow> Some (sat_sub y x) | _ \<Rightarrow> None, b2))"

definition will_cross_market :: "('l, 'g) book \<Rightarrow> u128 \<Rightarrow> side \<Rightarrow> bool \<times> ('l, 'g) book" where
  "will_cross_market b price s =
     (case s of
        Buy \<Rightarrow> (let (ask, b1) = best_ask b in ((case ask of Some a \<Rightarrow> a \<le> price | None \<Rightarrow> False), b1))
      | Sell \<Rightarrow> (let (bid, b1) = best_bid b in ((case bid of Some a \<Rightarrow> price \<le> a | None \<Rightarrow> False), b1)))"

section \<open>Risk gates\<close>

definition resolve_reference_price ::
    "('l, 'g) book \<Rightarrow> reference_price_source \<Rightarrow> u128 option \<times> ('l, 'g) book" where
  "resolve_reference_price b src =
     (case src of
        reference_price_source.LastTrade \<Rightarrow> (last_trade_price b, b)
      | Mid \<Rightarrow>
          (let (bid, b1) = best_bid b; (ask, b2) = best_ask b1
           in ((case (bid, ask) of
                  (Some x, Some y) \<Rightarrow> Some ((x + y) div 2)
                | _ \<Rightarrow> last_trade_price b2), b2))
      | FixedPrice p \<Rightarrow> (Some p, b))"

definition check_risk_limit_admission ::
    "('l, 'g) book \<Rightarrow> hash32 \<Rightarrow> u128 \<Rightarrow> u64 \<Rightarrow> (order_book_error + unit) \<times> ('l, 'g) book" where
  "check_risk_limit_admission b account price quantity =
     (case config (risk_state b) of
        None \<Rightarrow> (Inr (), b)
      | Some cfg \<Rightarrow>
          (let (ref, b1) = (case reference_price cfg of
                              Some src \<Rightarrow> resolve_reference_price b src | None \<Rightarrow> (None, b));
               (rs, r) = check_limit_admission (risk_state b1) account price quantity ref
           in (r, b1\<lparr>risk_state := rs\<rparr>)))"

definition check_risk_modify_admission ::
    "('l, 'g) book \<Rightarrow> ident \<Rightarrow> hash32 \<Rightarrow> u128 \<Rightarrow> u64 \<Rightarrow> (order_book_error + unit) \<times> ('l, 'g) book" where
  "check_risk_modify_admission b order_id account new_price new_qty =
     (case config (risk_state b) of
        None \<Rightarrow> (Inr (), b)
      | Some cfg \<Rightarrow>
          (let (ref, b1) = (case reference_price cfg of
                              Some src \<Rightarrow> resolve_reference_price b src | None \<Rightarrow> (None, b));
               (rs, r) = check_modify_admission (risk_state b1) order_id account new_price new_qty ref
           in (r, b1\<lparr>risk_state := rs\<rparr>)))"

section \<open>Expiry\<close>

definition market_close_for_expiry :: "('l, 'g) book \<Rightarrow> u64 option" where
  "market_close_for_expiry b = (if has_market_close b then Some (market_close_timestamp b) else None)"

definition tif_expired_at :: "('l, 'g) pricelevel_api \<Rightarrow> ('l, 'g) book \<Rightarrow> time_in_force \<Rightarrow> u64 \<Rightarrow> bool" where
  "tif_expired_at A b tif now = is_expired A tif now (market_close_for_expiry b)"

definition has_expired :: "('l, 'g) pricelevel_api \<Rightarrow> ('l, 'g) book \<Rightarrow> 'x order_type \<Rightarrow> bool \<times> ('l, 'g) book" where
  "has_expired A b order =
     (let (now, c) = now_millis (book_clock b); b1 = b\<lparr>book_clock := c\<rparr>
      in (tif_expired_at A b1 (otif order) now, b1))"

section \<open>The indices\<close>

definition track_user_order :: "('l, 'g) book \<Rightarrow> hash32 \<Rightarrow> ident \<Rightarrow> ('l, 'g) book" where
  "track_user_order b user_id order_id =
     b\<lparr>user_orders := AList.update user_id
        ((case map_of (user_orders b) user_id of Some is \<Rightarrow> is | None \<Rightarrow> []) @ [order_id]) (user_orders b)\<rparr>"

definition untrack_user_order :: "('l, 'g) book \<Rightarrow> hash32 \<Rightarrow> ident \<Rightarrow> ('l, 'g) book" where
  "untrack_user_order b user_id order_id =
     (case map_of (user_orders b) user_id of
        None \<Rightarrow> b
      | Some is \<Rightarrow>
          (let is' = filter (\<lambda>i. i \<noteq> order_id) is
           in if is' = [] then b\<lparr>user_orders := AList.delete user_id (user_orders b)\<rparr>
              else b\<lparr>user_orders := AList.update user_id is' (user_orders b)\<rparr>))"

text \<open>The scan of \<open>untrack_order_by_id\<close>: the first user whose list holds the id.\<close>

fun untrack_scan :: "ident \<Rightarrow> (hash32 \<times> ident list) list \<Rightarrow> (hash32 \<times> ident list) list" where
  "untrack_scan order_id [] = []"
| "untrack_scan order_id ((u, is) # m) =
     (case position order_id is of
        Some pos \<Rightarrow> (let is' = swap_remove pos is in if is' = [] then m else (u, is') # m)
      | None \<Rightarrow> (u, is) # untrack_scan order_id m)"

definition untrack_order_by_id :: "('l, 'g) book \<Rightarrow> ident \<Rightarrow> ('l, 'g) book" where
  "untrack_order_by_id b order_id = b\<lparr>user_orders := untrack_scan order_id (user_orders b)\<rparr>"

definition remove_location :: "('l, 'g) book \<Rightarrow> ident \<Rightarrow> ('l, 'g) book" where
  "remove_location b order_id = b\<lparr>order_locations := (order_locations b)(order_id := None)\<rparr>"

definition insert_location :: "('l, 'g) book \<Rightarrow> ident \<Rightarrow> u128 \<Rightarrow> side \<Rightarrow> ('l, 'g) book" where
  "insert_location b order_id price s = b\<lparr>order_locations := (order_locations b)(order_id \<mapsto> (price, s))\<rparr>"

definition register_special :: "('l, 'g) book \<Rightarrow> 'x order_type \<Rightarrow> ('l, 'g) book" where
  "register_special b order =
     (let t = special_order_tracker b in
      case order of
        PeggedOrder i _ _ _ _ _ _ _ _ _ \<Rightarrow>
          b\<lparr>special_order_tracker := t\<lparr>pegged_orders := List.insert i (pegged_orders t)\<rparr>\<rparr>
      | TrailingStop i _ _ _ _ _ _ _ _ _ \<Rightarrow>
          b\<lparr>special_order_tracker := t\<lparr>trailing_stop_orders := List.insert i (trailing_stop_orders t)\<rparr>\<rparr>
      | _ \<Rightarrow> b)"

definition unregister_special :: "('l, 'g) book \<Rightarrow> ident \<Rightarrow> ('l, 'g) book" where
  "unregister_special b order_id =
     (let t = special_order_tracker b
      in b\<lparr>special_order_tracker :=
           t\<lparr>pegged_orders := removeAll order_id (pegged_orders t),
              trailing_stop_orders := removeAll order_id (trailing_stop_orders t)\<rparr>\<rparr>)"

section \<open>Access to resting orders\<close>

definition get_order :: "('l, 'g) pricelevel_api \<Rightarrow> 'x \<Rightarrow> ('l, 'g) book \<Rightarrow> ident \<Rightarrow> 'x order_type option" where
  "get_order A d b order_id =
     (case order_locations b order_id of
        None \<Rightarrow> None
      | Some (price, s) \<Rightarrow>
          (case sm_get (levels b s) price of
             None \<Rightarrow> None
           | Some l \<Rightarrow> map_option (convert_from_unit_type d) (find (\<lambda>od. oid od = order_id) (iter_orders A l))))"

definition get_orders_at_price ::
    "('l, 'g) pricelevel_api \<Rightarrow> 'x \<Rightarrow> ('l, 'g) book \<Rightarrow> u128 \<Rightarrow> side \<Rightarrow> 'x order_type list" where
  "get_orders_at_price A d b price s =
     (case sm_get (levels b s) price of
        Some l \<Rightarrow> map (convert_from_unit_type d) (iter_orders A l)
      | None \<Rightarrow> [])"

definition get_all_orders :: "('l, 'g) pricelevel_api \<Rightarrow> 'x \<Rightarrow> ('l, 'g) book \<Rightarrow> 'x order_type list" where
  "get_all_orders A d b =
     concat (map (\<lambda>(_, l). map (convert_from_unit_type d) (iter_orders A l)) (sm_iter (bids b))) @
     concat (map (\<lambda>(_, l). map (convert_from_unit_type d) (iter_orders A l)) (sm_iter (asks b)))"

definition visible_quantity_at_price ::
    "('l, 'g) pricelevel_api \<Rightarrow> ('l, 'g) book \<Rightarrow> u128 \<Rightarrow> side \<Rightarrow> u64 option" where
  "visible_quantity_at_price A b price s = map_option (level_visible A) (sm_get (levels b s) price)"

definition hidden_quantity_at_price ::
    "('l, 'g) pricelevel_api \<Rightarrow> ('l, 'g) book \<Rightarrow> u128 \<Rightarrow> side \<Rightarrow> u64 option" where
  "hidden_quantity_at_price A b price s = map_option (level_hidden A) (sm_get (levels b s) price)"

definition total_quantity_at_price ::
    "('l, 'g) pricelevel_api \<Rightarrow> ('l, 'g) book \<Rightarrow> u128 \<Rightarrow> side \<Rightarrow> u64 option" where
  "total_quantity_at_price A b price s =
     map_option (\<lambda>l. case level_total A l of Inr n \<Rightarrow> n | Inl _ \<Rightarrow> u64_max) (sm_get (levels b s) price)"

definition order_count_at_price ::
    "('l, 'g) pricelevel_api \<Rightarrow> ('l, 'g) book \<Rightarrow> u128 \<Rightarrow> side \<Rightarrow> usize option" where
  "order_count_at_price A b price s = map_option (order_count A) (sm_get (levels b s) price)"

section \<open>Placing an order\<close>

definition place_order_in_book ::
    "('l, 'g) pricelevel_api \<Rightarrow> ('l, 'g) book \<Rightarrow> 'x order_type \<Rightarrow> (order_book_error + 'x order_type) \<times> ('l, 'g) book" where
  "place_order_in_book A b order =
     (let s = oside order; price = oprice order; order_id = oid order;
          (m, l) = sm_get_or_insert price (level_new A price) (levels b s);
          b1 = set_levels b s m
      in case level_add A l (convert_to_unit_type order) of
           (Inl e, l') \<Rightarrow> (Inl (PriceLevelError e), put_level b1 s price l')
         | (Inr _, l') \<Rightarrow>
             (let b2 = put_level b1 s price l';
                  b3 = notify_level b2 s (level_price A l') (level_visible A l');
                  b4 = insert_location b3 order_id price s;
                  b5 = track_user_order b4 (ouser order) order_id
              in (Inr order, record_depth_metric b5)))"

end
