(* ===== verification/Book_Frame.thy ===== *)
theory Book_Frame
  imports Book
begin

text \<open>
  What the small helpers of the book leave alone.  Each lemma lists the fields that one helper
  does not touch; they are simplification rules and the collection \<open>frame\<close>, so that the proofs
  about the operations see through events, metrics, lifecycle tracking and index updates.
\<close>

section \<open>Sides\<close>

lemma levels_simps [simp]: "levels b Buy = bids b" "levels b Sell = asks b"
  by (simp_all add: levels_def)

lemma levels_set_levels [simp]: "levels (set_levels b s m) t = (if t = s then m else levels b t)"
  by (cases s; cases t) (simp_all add: set_levels_def)

lemma set_levels_twice [simp]: "set_levels (set_levels b s m) s n = set_levels b s n"
  by (cases s) (simp_all add: set_levels_def)

lemma levels_cong: "bids b' = bids b \<Longrightarrow> asks b' = asks b \<Longrightarrow> levels b' = levels b"
  by (auto simp: levels_def fun_eq_iff split: side.splits)

section \<open>Frames\<close>

lemma frame_notify_level [simp, frame]:
  "bids (notify_level b s p q) = bids b"
  "asks (notify_level b s p q) = asks b"
  "order_locations (notify_level b s p q) = order_locations b"
  "user_orders (notify_level b s p q) = user_orders b"
  "cache (notify_level b s p q) = cache b"
  "risk_state (notify_level b s p q) = risk_state b"
  "special_order_tracker (notify_level b s p q) = special_order_tracker b"
  "transaction_id_generator (notify_level b s p q) = transaction_id_generator b"
  "book_clock (notify_level b s p q) = book_clock b"
  "last_trade_price_cell (notify_level b s p q) = last_trade_price_cell b"
  "has_traded (notify_level b s p q) = has_traded b"
  "order_state_tracker (notify_level b s p q) = order_state_tracker b"
  "kill_switch (notify_level b s p q) = kill_switch b"
  "tick_size (notify_level b s p q) = tick_size b"
  "lot_size (notify_level b s p q) = lot_size b"
  "min_order_size (notify_level b s p q) = min_order_size b"
  "max_order_size (notify_level b s p q) = max_order_size b"
  "stp_mode_of (notify_level b s p q) = stp_mode_of b"
  "fee_schedule_of (notify_level b s p q) = fee_schedule_of b"
  "trade_listener (notify_level b s p q) = trade_listener b"
  "price_level_changed_listener (notify_level b s p q) = price_level_changed_listener b"
  "has_market_close (notify_level b s p q) = has_market_close b"
  "market_close_timestamp (notify_level b s p q) = market_close_timestamp b"
  "symbol (notify_level b s p q) = symbol b"
  by (simp_all add: notify_level_def next_engine_seq_def emit_def)

lemma frame_record_reject [simp, frame]:
  "bids (record_reject b r) = bids b"
  "asks (record_reject b r) = asks b"
  "order_locations (record_reject b r) = order_locations b"
  "user_orders (record_reject b r) = user_orders b"
  "cache (record_reject b r) = cache b"
  "risk_state (record_reject b r) = risk_state b"
  "special_order_tracker (record_reject b r) = special_order_tracker b"
  "transaction_id_generator (record_reject b r) = transaction_id_generator b"
  "book_clock (record_reject b r) = book_clock b"
  "last_trade_price_cell (record_reject b r) = last_trade_price_cell b"
  "has_traded (record_reject b r) = has_traded b"
  "order_state_tracker (record_reject b r) = order_state_tracker b"
  "kill_switch (record_reject b r) = kill_switch b"
  "tick_size (record_reject b r) = tick_size b"
  "lot_size (record_reject b r) = lot_size b"
  "min_order_size (record_reject b r) = min_order_size b"
  "max_order_size (record_reject b r) = max_order_size b"
  "stp_mode_of (record_reject b r) = stp_mode_of b"
  "fee_schedule_of (record_reject b r) = fee_schedule_of b"
  "trade_listener (record_reject b r) = trade_listener b"
  "price_level_changed_listener (record_reject b r) = price_level_changed_listener b"
  "has_market_close (record_reject b r) = has_market_close b"
  "market_close_timestamp (record_reject b r) = market_close_timestamp b"
  "symbol (record_reject b r) = symbol b"
  by (simp_all add: record_reject_def emit_def)

lemma frame_record_trades [simp, frame]:
  "bids (record_trades b n) = bids b"
  "asks (record_trades b n) = asks b"
  "order_locations (record_trades b n) = order_locations b"
  "user_orders (record_trades b n) = user_orders b"
  "cache (record_trades b n) = cache b"
  "risk_state (record_trades b n) = risk_state b"
  "special_order_tracker (record_trades b n) = special_order_tracker b"
  "transaction_id_generator (record_trades b n) = transaction_id_generator b"
  "book_clock (record_trades b n) = book_clock b"
  "last_trade_price_cell (record_trades b n) = last_trade_price_cell b"
  "has_traded (record_trades b n) = has_traded b"
  "order_state_tracker (record_trades b n) = order_state_tracker b"
  "kill_switch (record_trades b n) = kill_switch b"
  "tick_size (record_trades b n) = tick_size b"
  "lot_size (record_trades b n) = lot_size b"
  "min_order_size (record_trades b n) = min_order_size b"
  "max_order_size (record_trades b n) = max_order_size b"
  "stp_mode_of (record_trades b n) = stp_mode_of b"
  "fee_schedule_of (record_trades b n) = fee_schedule_of b"
  "trade_listener (record_trades b n) = trade_listener b"
  "price_level_changed_listener (record_trades b n) = price_level_changed_listener b"
  "has_market_close (record_trades b n) = has_market_close b"
  "market_close_timestamp (record_trades b n) = market_close_timestamp b"
  "symbol (record_trades b n) = symbol b"
  by (simp_all add: record_trades_def emit_def)

lemma frame_record_depth [simp, frame]:
  "bids (record_depth_metric b) = bids b"
  "asks (record_depth_metric b) = asks b"
  "order_locations (record_depth_metric b) = order_locations b"
  "user_orders (record_depth_metric b) = user_orders b"
  "cache (record_depth_metric b) = cache b"
  "risk_state (record_depth_metric b) = risk_state b"
  "special_order_tracker (record_depth_metric b) = special_order_tracker b"
  "transaction_id_generator (record_depth_metric b) = transaction_id_generator b"
  "book_clock (record_depth_metric b) = book_clock b"
  "last_trade_price_cell (record_depth_metric b) = last_trade_price_cell b"
  "has_traded (record_depth_metric b) = has_traded b"
  "order_state_tracker (record_depth_metric b) = order_state_tracker b"
  "kill_switch (record_depth_metric b) = kill_switch b"
  "tick_size (record_depth_metric b) = tick_size b"
  "lot_size (record_depth_metric b) = lot_size b"
  "min_order_size (record_depth_metric b) = min_order_size b"
  "max_order_size (record_depth_metric b) = max_order_size b"
  "stp_mode_of (record_depth_metric b) = stp_mode_of b"
  "fee_schedule_of (record_depth_metric b) = fee_schedule_of b"
  "trade_listener (record_depth_metric b) = trade_listener b"
  "price_level_changed_listener (record_depth_metric b) = price_level_changed_listener b"
  "has_market_close (record_depth_metric b) = has_market_close b"
  "market_close_timestamp (record_depth_metric b) = market_close_timestamp b"
  "symbol (record_depth_metric b) = symbol b"
  by (simp_all add: record_depth_metric_def emit_def)

lemma frame_track_state [simp, frame]:
  "bids (track_state b i st) = bids b"
  "asks (track_state b i st) = asks b"
  "order_locations (track_state b i st) = order_locations b"
  "user_orders (track_state b i st) = user_orders b"
  "cache (track_state b i st) = cache b"
  "risk_state (track_state b i st) = risk_state b"
  "special_order_tracker (track_state b i st) = special_order_tracker b"
  "transaction_id_generator (track_state b i st) = transaction_id_generator b"
  "book_clock (track_state b i st) = book_clock b"
  "last_trade_price_cell (track_state b i st) = last_trade_price_cell b"
  "has_traded (track_state b i st) = has_traded b"
  "kill_switch (track_state b i st) = kill_switch b"
  "tick_size (track_state b i st) = tick_size b"
  "lot_size (track_state b i st) = lot_size b"
  "min_order_size (track_state b i st) = min_order_size b"
  "max_order_size (track_state b i st) = max_order_size b"
  "stp_mode_of (track_state b i st) = stp_mode_of b"
  "fee_schedule_of (track_state b i st) = fee_schedule_of b"
  "trade_listener (track_state b i st) = trade_listener b"
  "price_level_changed_listener (track_state b i st) = price_level_changed_listener b"
  "has_market_close (track_state b i st) = has_market_close b"
  "market_close_timestamp (track_state b i st) = market_close_timestamp b"
  "symbol (track_state b i st) = symbol b"
  by (simp_all add: track_state_def Let_def record_reject_def emit_def split: option.splits order_status.splits)

lemma frame_invalidate [simp, frame]:
  "bids (invalidate_cache b) = bids b"
  "asks (invalidate_cache b) = asks b"
  "order_locations (invalidate_cache b) = order_locations b"
  "user_orders (invalidate_cache b) = user_orders b"
  "risk_state (invalidate_cache b) = risk_state b"
  "special_order_tracker (invalidate_cache b) = special_order_tracker b"
  "transaction_id_generator (invalidate_cache b) = transaction_id_generator b"
  "book_clock (invalidate_cache b) = book_clock b"
  "last_trade_price_cell (invalidate_cache b) = last_trade_price_cell b"
  "has_traded (invalidate_cache b) = has_traded b"
  "order_state_tracker (invalidate_cache b) = order_state_tracker b"
  "kill_switch (invalidate_cache b) = kill_switch b"
  "tick_size (invalidate_cache b) = tick_size b"
  "lot_size (invalidate_cache b) = lot_size b"
  "min_order_size (invalidate_cache b) = min_order_size b"
  "max_order_size (invalidate_cache b) = max_order_size b"
  "stp_mode_of (invalidate_cache b) = stp_mode_of b"
  "fee_schedule_of (invalidate_cache b) = fee_schedule_of b"
  "trade_listener (invalidate_cache b) = trade_listener b"
  "price_level_changed_listener (invalidate_cache b) = price_level_changed_listener b"
  "has_market_close (invalidate_cache b) = has_market_close b"
  "market_close_timestamp (invalidate_cache b) = market_close_timestamp b"
  "symbol (invalidate_cache b) = symbol b"
  by (simp_all add: invalidate_cache_def)

lemma frame_unregister [simp, frame]:
  "bids (unregister_special b i) = bids b"
  "asks (unregister_special b i) = asks b"
  "order_locations (unregister_special b i) = order_locations b"
  "user_orders (unregister_special b i) = user_orders b"
  "cache (unregister_special b i) = cache b"
  "risk_state (unregister_special b i) = risk_state b"
  "transaction_id_generator (unregister_special b i) = transaction_id_generator b"
  "book_clock (unregister_special b i) = book_clock b"
  "last_trade_price_cell (unregister_special b i) = last_trade_price_cell b"
  "has_traded (unregister_special b i) = has_traded b"
  "order_state_tracker (unregister_special b i) = order_state_tracker b"
  "kill_switch (unregister_special b i) = kill_switch b"
  "tick_size (unregister_special b i) = tick_size b"
  "lot_size (unregister_special b i) = lot_size b"
  "min_order_size (unregister_special b i) = min_order_size b"
  "max_order_size (unregister_special b i) = max_order_size b"
  "stp_mode_of (unregister_special b i) = stp_mode_of b"
  "fee_schedule_of (unregister_special b i) = fee_schedule_of b"
  "trade_listener (unregister_special b i) = trade_listener b"
  "price_level_changed_listener (unregister_special b i) = price_level_changed_listener b"
  "has_market_close (unregister_special b i) = has_market_close b"
  "market_close_timestamp (unregister_special b i) = market_close_timestamp b"
  "symbol (unregister_special b i) = symbol b"
  by (simp_all add: unregister_special_def Let_def)

lemma frame_register [simp, frame]:
  "bids (register_special b od) = bids b"
  "asks (register_special b od) = asks b"
  "order_locations (register_special b od) = order_locations b"
  "user_orders (register_special b od) = user_orders b"
  "cache (register_special b od) = cache b"
  "risk_state (register_special b od) = risk_state b"
  "transaction_id_generator (register_special b od) = transaction_id_generator b"
  "book_clock (register_special b od) = book_clock b"
  "last_trade_price_cell (register_special b od) = last_trade_price_cell b"
  "has_traded (register_special b od) = has_traded b"
  "order_state_tracker (register_special b od) = order_state_tracker b"
  "kill_switch (register_special b od) = kill_switch b"
  "tick_size (register_special b od) = tick_size b"
  "lot_size (register_special b od) = lot_size b"
  "min_order_size (register_special b od) = min_order_size b"
  "max_order_size (register_special b od) = max_order_size b"
  "stp_mode_of (register_special b od) = stp_mode_of b"
  "fee_schedule_of (register_special b od) = fee_schedule_of b"
  "trade_listener (register_special b od) = trade_listener b"
  "price_level_changed_listener (register_special b od) = price_level_changed_listener b"
  "has_market_close (register_special b od) = has_market_close b"
  "market_close_timestamp (register_special b od) = market_close_timestamp b"
  "symbol (register_special b od) = symbol b"
  by (simp_all add: register_special_def Let_def split: order_type.splits)

lemma frame_untrack_user [simp, frame]:
  "bids (untrack_user_order b u i) = bids b"
  "asks (untrack_user_order b u i) = asks b"
  "order_locations (untrack_user_order b u i) = order_locations b"
  "cache (untrack_user_order b u i) = cache b"
  "risk_state (untrack_user_order b u i) = risk_state b"
  "special_order_tracker (untrack_user_order b u i) = special_order_tracker b"
  "transaction_id_generator (untrack_user_order b u i) = transaction_id_generator b"
  "book_clock (untrack_user_order b u i) = book_clock b"
  "last_trade_price_cell (untrack_user_order b u i) = last_trade_price_cell b"
  "has_traded (untrack_user_order b u i) = has_traded b"
  "order_state_tracker (untrack_user_order b u i) = order_state_tracker b"
  "kill_switch (untrack_user_order b u i) = kill_switch b"
  "tick_size (untrack_user_order b u i) = tick_size b"
  "lot_size (untrack_user_order b u i) = lot_size b"
  "min_order_size (untrack_user_order b u i) = min_order_size b"
  "max_order_size (untrack_user_order b u i) = max_order_size b"
  "stp_mode_of (untrack_user_order b u i) = stp_mode_of b"
  "fee_schedule_of (untrack_user_order b u i) = fee_schedule_of b"
  "trade_listener (untrack_user_order b u i) = trade_listener b"
  "price_level_changed_listener (untrack_user_order b u i) = price_level_changed_listener b"
  "has_market_close (untrack_user_order b u i) = has_market_close b"
  "market_close_timestamp (untrack_user_order b u i) = market_close_timestamp b"
  "symbol (untrack_user_order b u i) = symbol b"
  by (simp_all add: untrack_user_order_def Let_def split: option.splits)

lemma frame_untrack_by_id [simp, frame]:
  "bids (untrack_order_by_id b i) = bids b"
  "asks (untrack_order_by_id b i) = asks b"
  "order_locations (untrack_order_by_id b i) = order_locations b"
  "cache (untrack_order_by_id b i) = cache b"
  "risk_state (untrack_order_by_id b i) = risk_state b"
  "special_order_tracker (untrack_order_by_id b i) = special_order_tracker b"
  "transaction_id_generator (untrack_order_by_id b i) = transaction_id_generator b"
  "book_clock (untrack_order_by_id b i) = book_clock b"
  "last_trade_price_cell (untrack_order_by_id b i) = last_trade_price_cell b"
  "has_traded (untrack_order_by_id b i) = has_traded b"
  "order_state_tracker (untrack_order_by_id b i) = order_state_tracker b"
  "kill_switch (untrack_order_by_id b i) = kill_switch b"
  "tick_size (untrack_order_by_id b i) = tick_size b"
  "lot_size (untrack_order_by_id b i) = lot_size b"
  "min_order_size (untrack_order_by_id b i) = min_order_size b"
  "max_order_size (untrack_order_by_id b i) = max_order_size b"
  "stp_mode_of (untrack_order_by_id b i) = stp_mode_of b"
  "fee_schedule_of (untrack_order_by_id b i) = fee_schedule_of b"
  "trade_listener (untrack_order_by_id b i) = trade_listener b"
  "price_level_changed_listener (untrack_order_by_id b i) = price_level_changed_listener b"
  "has_market_close (untrack_order_by_id b i) = has_market_close b"
  "market_close_timestamp (untrack_order_by_id b i) = market_close_timestamp b"
  "symbol (untrack_order_by_id b i) = symbol b"
  by (simp_all add: untrack_order_by_id_def)

lemma frame_track_user [simp, frame]:
  "bids (track_user_order b u i) = bids b"
  "asks (track_user_order b u i) = asks b"
  "order_locations (track_user_order b u i) = order_locations b"
  "cache (track_user_order b u i) = cache b"
  "risk_state (track_user_order b u i) = risk_state b"
  "special_order_tracker (track_user_order b u i) = special_order_tracker b"
  "transaction_id_generator (track_user_order b u i) = transaction_id_generator b"
  "book_clock (track_user_order b u i) = book_clock b"
  "last_trade_price_cell (track_user_order b u i) = last_trade_price_cell b"
  "has_traded (track_user_order b u i) = has_traded b"
  "order_state_tracker (track_user_order b u i) = order_state_tracker b"
  "kill_switch (track_user_order b u i) = kill_switch b"
  "tick_size (track_user_order b u i) = tick_size b"
  "lot_size (track_user_order b u i) = lot_size b"
  "min_order_size (track_user_order b u i) = min_order_size b"
  "max_order_size (track_user_order b u i) = max_order_size b"
  "stp_mode_of (track_user_order b u i) = stp_mode_of b"
  "fee_schedule_of (track_user_order b u i) = fee_schedule_of b"
  "trade_listener (track_user_order b u i) = trade_listener b"
  "price_level_changed_listener (track_user_order b u i) = price_level_changed_listener b"
  "has_market_close (track_user_order b u i) = has_market_close b"
  "market_close_timestamp (track_user_order b u i) = market_close_timestamp b"
  "symbol (track_user_order b u i) = symbol b"
  by (simp_all add: track_user_order_def)

lemma frame_remove_location [simp, frame]:
  "bids (remove_location b i) = bids b"
  "asks (remove_location b i) = asks b"
  "user_orders (remove_location b i) = user_orders b"
  "cache (remove_location b i) = cache b"
  "risk_state (remove_location b i) = risk_state b"
  "special_order_tracker (remove_location b i) = special_order_tracker b"
  "transaction_id_generator (remove_location b i) = transaction_id_generator b"
  "book_clock (remove_location b i) = book_clock b"
  "last_trade_price_cell (remove_location b i) = last_trade_price_cell b"
  "has_traded (remove_location b i) = has_traded b"
  "order_state_tracker (remove_location b i) = order_state_tracker b"
  "kill_switch (remove_location b i) = kill_switch b"
  "tick_size (remove_location b i) = tick_size b"
  "lot_size (remove_location b i) = lot_size b"
  "min_order_size (remove_location b i) = min_order_size b"
  "max_order_size (remove_location b i) = max_order_size b"
  "stp_mode_of (remove_location b i) = stp_mode_of b"
  "fee_schedule_of (remove_location b i) = fee_schedule_of b"
  "trade_listener (remove_location b i) = trade_listener b"
  "price_level_changed_listener (remove_location b i) = price_level_changed_listener b"
  "has_market_close (remove_location b i) = has_market_close b"
  "market_close_timestamp (remove_location b i) = market_close_timestamp b"
  "symbol (remove_location b i) = symbol b"
  by (simp_all add: remove_location_def)

lemma frame_insert_location [simp, frame]:
  "bids (insert_location b i p s) = bids b"
  "asks (insert_location b i p s) = asks b"
  "user_orders (insert_location b i p s) = user_orders b"
  "cache (insert_location b i p s) = cache b"
  "risk_state (insert_location b i p s) = risk_state b"
  "special_order_tracker (insert_location b i p s) = special_order_tracker b"
  "transaction_id_generator (insert_location b i p s) = transaction_id_generator b"
  "book_clock (insert_location b i p s) = book_clock b"
  "last_trade_price_cell (insert_location b i p s) = last_trade_price_cell b"
  "has_traded (insert_location b i p s) = has_traded b"
  "order_state_tracker (insert_location b i p s) = order_state_tracker b"
  "kill_switch (insert_location b i p s) = kill_switch b"
  "tick_size (insert_location b i p s) = tick_size b"
  "lot_size (insert_location b i p s) = lot_size b"
  "min_order_size (insert_location b i p s) = min_order_size b"
  "max_order_size (insert_location b i p s) = max_order_size b"
  "stp_mode_of (insert_location b i p s) = stp_mode_of b"
  "fee_schedule_of (insert_location b i p s) = fee_schedule_of b"
  "trade_listener (insert_location b i p s) = trade_listener b"
  "price_level_changed_listener (insert_location b i p s) = price_level_changed_listener b"
  "has_market_close (insert_location b i p s) = has_market_close b"
  "market_close_timestamp (insert_location b i p s) = market_close_timestamp b"
  "symbol (insert_location b i p s) = symbol b"
  by (simp_all add: insert_location_def)

lemma frame_set_levels [simp, frame]:
  "order_locations (set_levels b s m) = order_locations b"
  "user_orders (set_levels b s m) = user_orders b"
  "cache (set_levels b s m) = cache b"
  "risk_state (set_levels b s m) = risk_state b"
  "special_order_tracker (set_levels b s m) = special_order_tracker b"
  "transaction_id_generator (set_levels b s m) = transaction_id_generator b"
  "book_clock (set_levels b s m) = book_clock b"
  "last_trade_price_cell (set_levels b s m) = last_trade_price_cell b"
  "has_traded (set_levels b s m) = has_traded b"
  "order_state_tracker (set_levels b s m) = order_state_tracker b"
  "kill_switch (set_levels b s m) = kill_switch b"
  "tick_size (set_levels b s m) = tick_size b"
  "lot_size (set_levels b s m) = lot_size b"
  "min_order_size (set_levels b s m) = min_order_size b"
  "max_order_size (set_levels b s m) = max_order_size b"
  "stp_mode_of (set_levels b s m) = stp_mode_of b"
  "fee_schedule_of (set_levels b s m) = fee_schedule_of b"
  "trade_listener (set_levels b s m) = trade_listener b"
  "price_level_changed_listener (set_levels b s m) = price_level_changed_listener b"
  "has_market_close (set_levels b s m) = has_market_close b"
  "market_close_timestamp (set_levels b s m) = market_close_timestamp b"
  "symbol (set_levels b s m) = symbol b"
  by (simp_all add: set_levels_def split: side.splits)

lemma levels_frame [simp, frame]:
  "levels (notify_level b s p q) = levels b"
  "levels (record_reject b r) = levels b"
  "levels (record_trades b n) = levels b"
  "levels (record_depth_metric b) = levels b"
  "levels (track_state b i st) = levels b"
  "levels (invalidate_cache b) = levels b"
  "levels (unregister_special b i) = levels b"
  "levels (register_special b od) = levels b"
  "levels (untrack_user_order b u i) = levels b"
  "levels (untrack_order_by_id b i) = levels b"
  "levels (track_user_order b u i) = levels b"
  "levels (remove_location b i) = levels b"
  "levels (insert_location b i p s) = levels b"
  by (rule levels_cong; simp)+

lemma levels_updates [simp]:
  "levels (b\<lparr>cache := c\<rparr>) = levels b" "levels (b\<lparr>risk_state := r\<rparr>) = levels b"
  "levels (b\<lparr>book_clock := k\<rparr>) = levels b" "levels (b\<lparr>transaction_id_generator := g\<rparr>) = levels b"
  "levels (b\<lparr>last_trade_price_cell := p\<rparr>) = levels b" "levels (b\<lparr>has_traded := t\<rparr>) = levels b"
  "levels (b\<lparr>order_locations := L\<rparr>) = levels b" "levels (b\<lparr>user_orders := U\<rparr>) = levels b"
  "levels (b\<lparr>special_order_tracker := x\<rparr>) = levels b" "levels (b\<lparr>order_state_tracker := y\<rparr>) = levels b"
  by (rule levels_cong; simp)+

lemma index_updates [simp]:
  "order_locations (remove_location b i) = (order_locations b)(i := None)"
  "order_locations (insert_location b i p s) = (order_locations b)(i \<mapsto> (p, s))"
  "cache (invalidate_cache b) = invalidate (cache b)"
  by (simp_all add: remove_location_def insert_location_def invalidate_cache_def)

lemma frame_put_level [simp, frame]:
  "order_locations (put_level b s p l) = order_locations b"
  "user_orders (put_level b s p l) = user_orders b"
  "cache (put_level b s p l) = cache b"
  "risk_state (put_level b s p l) = risk_state b"
  "special_order_tracker (put_level b s p l) = special_order_tracker b"
  "transaction_id_generator (put_level b s p l) = transaction_id_generator b"
  "book_clock (put_level b s p l) = book_clock b"
  "last_trade_price_cell (put_level b s p l) = last_trade_price_cell b"
  "has_traded (put_level b s p l) = has_traded b"
  "order_state_tracker (put_level b s p l) = order_state_tracker b"
  "kill_switch (put_level b s p l) = kill_switch b"
  "tick_size (put_level b s p l) = tick_size b"
  "lot_size (put_level b s p l) = lot_size b"
  "min_order_size (put_level b s p l) = min_order_size b"
  "max_order_size (put_level b s p l) = max_order_size b"
  "stp_mode_of (put_level b s p l) = stp_mode_of b"
  "fee_schedule_of (put_level b s p l) = fee_schedule_of b"
  "trade_listener (put_level b s p l) = trade_listener b"
  "price_level_changed_listener (put_level b s p l) = price_level_changed_listener b"
  "has_market_close (put_level b s p l) = has_market_close b"
  "market_close_timestamp (put_level b s p l) = market_close_timestamp b"
  "symbol (put_level b s p l) = symbol b"
  by (simp_all add: put_level_def)

lemma frame_drop_level [simp, frame]:
  "order_locations (drop_level b s p) = order_locations b"
  "user_orders (drop_level b s p) = user_orders b"
  "cache (drop_level b s p) = cache b"
  "risk_state (drop_level b s p) = risk_state b"
  "special_order_tracker (drop_level b s p) = special_order_tracker b"
  "transaction_id_generator (drop_level b s p) = transaction_id_generator b"
  "book_clock (drop_level b s p) = book_clock b"
  "last_trade_price_cell (drop_level b s p) = last_trade_price_cell b"
  "has_traded (drop_level b s p) = has_traded b"
  "order_state_tracker (drop_level b s p) = order_state_tracker b"
  "kill_switch (drop_level b s p) = kill_switch b"
  "tick_size (drop_level b s p) = tick_size b"
  "lot_size (drop_level b s p) = lot_size b"
  "min_order_size (drop_level b s p) = min_order_size b"
  "max_order_size (drop_level b s p) = max_order_size b"
  "stp_mode_of (drop_level b s p) = stp_mode_of b"
  "fee_schedule_of (drop_level b s p) = fee_schedule_of b"
  "trade_listener (drop_level b s p) = trade_listener b"
  "price_level_changed_listener (drop_level b s p) = price_level_changed_listener b"
  "has_market_close (drop_level b s p) = has_market_close b"
  "market_close_timestamp (drop_level b s p) = market_close_timestamp b"
  "symbol (drop_level b s p) = symbol b"
  by (simp_all add: drop_level_def)

end
