(* ===== verification/Book_Invariant.thy ===== *)
theory Book_Invariant
  imports Book_Frame
begin

text \<open>
  What a consistent book is.  A placement \<open>(id, user, price, side)\<close> says where an order rests.
  The placements found in the levels are the truth; the location map and the user index must
  describe the same set, the levels must be sorted, non-empty and well-formed, and a valid cache
  slot must hold the best price.  The lemmas say how each helper of the book moves these parts.
\<close>

section \<open>Definitions\<close>

type_synonym placement = "ident \<times> hash32 \<times> u128 \<times> side"

definition resting :: "('l, 'g) pricelevel_api \<Rightarrow> ('l, 'g) book \<Rightarrow> placement set" where
  "resting A b = {(i, u, p, s). \<exists>l. sm_get (levels b s) p = Some l \<and> (i, u) \<in> tag ` set (snapshot_by_seq A l)}"

definition levels_wf :: "('l, 'g) pricelevel_api \<Rightarrow> ('l \<Rightarrow> bool) \<Rightarrow> ('l, 'g) book \<Rightarrow> bool" where
  "levels_wf A ok b \<longleftrightarrow> (\<forall>s. sm_invar (levels b s) \<and>
     (\<forall>p l. sm_get (levels b s) p = Some l \<longrightarrow> ok l \<and> level_price A l = p))"

definition no_empty :: "('l, 'g) pricelevel_api \<Rightarrow> ('l, 'g) book \<Rightarrow> bool" where
  "no_empty A b \<longleftrightarrow> (\<forall>s p l. sm_get (levels b s) p = Some l \<longrightarrow> snapshot_by_seq A l \<noteq> [])"

definition loc_idx :: "(ident \<rightharpoonup> u128 \<times> side) \<Rightarrow> placement set \<Rightarrow> bool" where
  "loc_idx L R \<longleftrightarrow> (\<forall>i p s. L i = Some (p, s) \<longleftrightarrow> (\<exists>u. (i, u, p, s) \<in> R))"

definition owned :: "(hash32 \<times> ident list) list \<Rightarrow> hash32 \<Rightarrow> ident list" where
  "owned U u = (case map_of U u of Some is \<Rightarrow> is | None \<Rightarrow> [])"

definition usr_idx :: "(hash32 \<times> ident list) list \<Rightarrow> placement set \<Rightarrow> bool" where
  "usr_idx U R \<longleftrightarrow> distinct (akeys U) \<and> (\<forall>u. map_of U u \<noteq> Some []) \<and> (\<forall>u. distinct (owned U u)) \<and>
     (\<forall>u i. i \<in> set (owned U u) \<longleftrightarrow> (\<exists>p s. (i, u, p, s) \<in> R)) \<and>
     (\<forall>i u p s u' p' s'. (i, u, p, s) \<in> R \<longrightarrow> (i, u', p', s') \<in> R \<longrightarrow> u = u')"

abbreviation without :: "ident \<Rightarrow> placement set \<Rightarrow> placement set" where
  "without i R \<equiv> {r \<in> R. fst r \<noteq> i}"

definition cache_ok :: "('l, 'g) book \<Rightarrow> bool" where
  "cache_ok b \<longleftrightarrow>
     (\<forall>p. get_cached_best_bid (cache b) = Some p \<longrightarrow> bids b \<noteq> [] \<and> p = fst (last (bids b))) \<and>
     (\<forall>p. get_cached_best_ask (cache b) = Some p \<longrightarrow> asks b \<noteq> [] \<and> p = fst (hd (asks b)))"

definition book_inv :: "('l, 'g) pricelevel_api \<Rightarrow> ('l \<Rightarrow> bool) \<Rightarrow> ('l, 'g) book \<Rightarrow> bool" where
  "book_inv A ok b \<longleftrightarrow> levels_wf A ok b \<and> no_empty A b \<and>
     loc_idx (order_locations b) (resting A b) \<and> usr_idx (user_orders b) (resting A b) \<and> cache_ok b"

section \<open>The location map\<close>

lemma loc_idx_empty: "loc_idx (\<lambda>_. None) {}"
  by (simp add: loc_idx_def)

lemma loc_idx_remove: "loc_idx L R \<Longrightarrow> loc_idx (L(i := None)) (without i R)"
  by (auto simp: loc_idx_def)

lemma loc_idx_insert:
  "loc_idx L R \<Longrightarrow> L i = None \<Longrightarrow> loc_idx (L(i \<mapsto> (p, s))) (insert (i, u, p, s) R)"
  by (auto simp: loc_idx_def) (metis option.distinct(1))+

lemma loc_idx_mem: "loc_idx L R \<Longrightarrow> (i, u, p, s) \<in> R \<Longrightarrow> L i = Some (p, s)"
  by (auto simp: loc_idx_def)

lemma loc_idx_None: "loc_idx L R \<Longrightarrow> L i = None \<longleftrightarrow> (\<forall>r \<in> R. fst r \<noteq> i)"
proof (cases "L i")
  case None
  assume "loc_idx L R"
  then show ?thesis using None loc_idx_mem by fastforce
next
  case (Some e)
  assume "loc_idx L R"
  then show ?thesis using Some unfolding loc_idx_def by (cases e) fastforce
qed

lemma loc_idx_without: "loc_idx L R \<Longrightarrow> L i = None \<Longrightarrow> without i R = R"
  by (auto simp: loc_idx_None)

section \<open>The user index\<close>

lemma owned_update [simp]: "owned (AList.update u is U) v = (if v = u then is else owned U v)"
  by (simp add: owned_def)

lemma owned_delete [simp]: "owned (AList.delete u U) v = (if v = u then [] else owned U v)"
  by (simp add: owned_def)

lemma owned_Cons: "owned ((w, ws) # U) v = (if v = w then ws else owned U v)"
  by (simp add: owned_def)

lemma owned_absent: "u \<notin> set (akeys U) \<Longrightarrow> owned U u = []"
  by (metis map_of_eq_None_iff option.simps(4) owned_def set_map)

lemma usr_idx_empty: "usr_idx [] {}"
  by (simp add: usr_idx_def owned_def)

lemma usr_idxD:
  assumes "usr_idx U R"
  shows "distinct (akeys U)" "map_of U u \<noteq> Some []" "distinct (owned U u)"
    "i \<in> set (owned U u) \<longleftrightarrow> (\<exists>p s. (i, u, p, s) \<in> R)"
    "(i, u, p, s) \<in> R \<Longrightarrow> (i, u', p', s') \<in> R \<Longrightarrow> u = u'"
  using assms unfolding usr_idx_def by blast+

lemma usr_idxI:
  assumes "distinct (akeys U)" "\<And>u. map_of U u \<noteq> Some []" "\<And>u. distinct (owned U u)"
    "\<And>u i. i \<in> set (owned U u) \<longleftrightarrow> (\<exists>p s. (i, u, p, s) \<in> R)"
    "\<And>i u p s u' p' s'. (i, u, p, s) \<in> R \<Longrightarrow> (i, u', p', s') \<in> R \<Longrightarrow> u = u'"
  shows "usr_idx U R"
  using assms unfolding usr_idx_def by blast

lemma usr_idx_track:
  assumes "usr_idx (user_orders b) R" "\<forall>r \<in> R. fst r \<noteq> i"
  shows "usr_idx (user_orders (track_user_order b u i)) (insert (i, u, p, s) R)"
proof -
  note D = usr_idxD [OF assms(1)]
  have U: "user_orders (track_user_order b u i) =
      AList.update u (owned (user_orders b) u @ [i]) (user_orders b)"
    by (simp add: track_user_order_def owned_def)
  have new: "i \<notin> set (owned (user_orders b) v)" for v using assms(2) D(4) [of i v] by auto
  show ?thesis
    unfolding U
  proof (rule usr_idxI)
    show "j \<in> set (owned (AList.update u (owned (user_orders b) u @ [i]) (user_orders b)) v) \<longleftrightarrow>
        (\<exists>p' s'. (j, v, p', s') \<in> insert (i, u, p, s) R)" for v j
      using D(4) [of j v] by auto
    show "x = y" if "(j, x, p1, s1) \<in> insert (i, u, p, s) R" "(j, y, p2, s2) \<in> insert (i, u, p, s) R"
      for j x y p1 s1 p2 s2
      using that assms(2) D(5) by force
  qed (use D(1-3) new in auto)
qed

text \<open>Removing one id from the list of its owner, or from the list that holds it.\<close>

lemma usr_idx_drop:
  assumes "usr_idx U R" "distinct (akeys U')" "\<And>v. map_of U' v \<noteq> Some []" "\<And>v. distinct (owned U' v)"
    and mem: "\<And>v. set (owned U' v) = set (owned U v) - {i}"
  shows "usr_idx U' (without i R)"
  using assms(2-4)
proof (rule usr_idxI)
  show "j \<in> set (owned U' v) \<longleftrightarrow> (\<exists>p s. (j, v, p, s) \<in> without i R)" for v j
    unfolding mem using usr_idxD(4) [OF assms(1), of j v] by auto
  show "x = y" if "(j, x, p, s) \<in> without i R" "(j, y, p', s') \<in> without i R" for j x y p s p' s'
    using that usr_idxD(5) [OF assms(1)] by blast
qed

lemma usr_idx_untrack_user:
  assumes "usr_idx (user_orders b) R" and own: "\<And>v p s. (i, v, p, s) \<in> R \<Longrightarrow> v = u"
  shows "usr_idx (user_orders (untrack_user_order b u i)) (without i R)"
proof (rule usr_idx_drop [OF assms(1)])
  note D = usr_idxD [OF assms(1)]
  let ?U = "user_orders (untrack_user_order b u i)"
  have other: "i \<notin> set (owned (user_orders b) v)" if "v \<noteq> u" for v
    using that own D(4) [of i v] by blast
  have f: "filter (\<lambda>j. j \<noteq> i) (owned (user_orders b) u) = [] \<Longrightarrow> set (owned (user_orders b) u) \<subseteq> {i}"
    by (auto simp: filter_empty_conv)
  show "distinct (akeys ?U)"
    using D(1) by (auto simp: untrack_user_order_def Let_def split: option.splits)
  show "map_of ?U v \<noteq> Some []" for v
    using D(2) [of v] by (auto simp: untrack_user_order_def Let_def split: option.splits)
  show "distinct (owned ?U v)" for v
    using D(3) [of v] by (auto simp: untrack_user_order_def Let_def owned_def split: option.splits)
  show "set (owned ?U v) = set (owned (user_orders b) v) - {i}" for v
    using other [of v] f by (auto simp: untrack_user_order_def Let_def owned_def split: option.splits)
qed

lemma untrack_scan_spec:
  assumes "distinct (akeys U)" "\<And>u. map_of U u \<noteq> Some []" "\<And>u. distinct (owned U u)"
    and "\<And>u v. i \<in> set (owned U u) \<Longrightarrow> i \<in> set (owned U v) \<Longrightarrow> u = v"
  shows "distinct (akeys (untrack_scan i U)) \<and> set (akeys (untrack_scan i U)) \<subseteq> set (akeys U) \<and>
    (\<forall>u. map_of (untrack_scan i U) u \<noteq> Some []) \<and> (\<forall>u. distinct (owned (untrack_scan i U) u)) \<and>
    (\<forall>u. set (owned (untrack_scan i U) u) = set (owned U u) - {i})"
  using assms
proof (induction U)
  case (Cons e U)
  obtain w ws where e: "e = (w, ws)" by (cases e)
  have w: "w \<notin> set (akeys U)" "distinct (akeys U)" using Cons.prems(1) e by auto
  have sub: "map_of U u = (if u = w then None else map_of (e # U) u)"
    "owned U u = (if u = w then [] else owned (e # U) u)" for u
    using w(1) owned_absent [OF w(1)] by (auto simp: e owned_Cons map_of_eq_None_iff)
  have base: "map_of U u \<noteq> Some []" "distinct (owned U u)" for u
    using Cons.prems(2,3) [of u] unfolding sub by simp_all
  moreover have "u = v" if "i \<in> set (owned U u)" "i \<in> set (owned U v)" for u v
    using that Cons.prems(4) [of u v] unfolding sub by (simp split: if_splits)
  ultimately have ih: "distinct (akeys (untrack_scan i U))" "set (akeys (untrack_scan i U)) \<subseteq> set (akeys U)"
    "\<And>u. map_of (untrack_scan i U) u \<noteq> Some []" "\<And>u. distinct (owned (untrack_scan i U) u)"
    "\<And>u. set (owned (untrack_scan i U) u) = set (owned U u) - {i}"
    using Cons.IH [OF w(2)] by blast+
  have ws: "ws \<noteq> []" "distinct ws"
    using Cons.prems(2,3) [of w] by (auto simp: e owned_Cons)
  show ?case
  proof (cases "position i ws")
    case None
    then have i: "i \<notin> set ws" and scan: "untrack_scan i (e # U) = (w, ws) # untrack_scan i U"
      by (simp, simp add: e None)
    have "w \<notin> set (akeys (untrack_scan i U))" using ih(2) w(1) by blast
    moreover have "set (owned ((w, ws) # untrack_scan i U) u) = set (owned ((w, ws) # U) u) - {i}" for u
      using ih(5) [of u] i by (simp add: owned_Cons)
    ultimately show ?thesis
      unfolding scan using ih(1-4) ws by (auto simp: e owned_Cons)
  next
    case (Some pos)
    let ?r = "swap_remove pos ws"
    have sr: "distinct ?r" "set ?r = set ws - {i}"
      using distinct_set_removed [OF mset_swap_remove_position [OF Some] ws(2)] by auto
    have scan: "untrack_scan i (e # U) = (if ?r = [] then U else (w, ?r) # U)"
      by (simp add: e Some Let_def)
    have own: "owned (untrack_scan i (e # U)) u = (if u = w then ?r else owned U u)" for u
      unfolding scan using owned_absent [OF w(1)] by (simp add: owned_Cons)
    have "i \<in> set ws" using Some by (metis option.distinct(1) position_None_iff)
    then have no: "i \<notin> set (owned U u)" for u
      using Cons.prems(4) [of w u] owned_absent [OF w(1)] by (cases "u = w") (auto simp: e owned_Cons)
    have mp: "map_of (untrack_scan i (e # U)) u \<noteq> Some []" for u
      unfolding scan using base(1) [of u] by (simp split: if_splits)
    have st: "set (owned (untrack_scan i (e # U)) u) = set (owned (e # U) u) - {i}" for u
      unfolding own using sr(2) no [of u] by (simp add: e owned_Cons)
    have ds: "distinct (owned (untrack_scan i (e # U)) u)" for u
      unfolding own using sr(1) base(2) [of u] by simp
    have "distinct (akeys (untrack_scan i (e # U)))" "set (akeys (untrack_scan i (e # U))) \<subseteq> set (akeys (e # U))"
      unfolding scan using w by (auto simp: e)
    then show ?thesis using mp st ds by blast
  qed
qed (simp add: owned_def)

lemma usr_idx_untrack_by_id:
  assumes "usr_idx (user_orders b) R"
  shows "usr_idx (user_orders (untrack_order_by_id b i)) (without i R)"
proof -
  note D = usr_idxD [OF assms]
  have one: "u = v" if "i \<in> set (owned (user_orders b) u)" "i \<in> set (owned (user_orders b) v)" for u v
    using that D(4) [of i u] D(4) [of i v] D(5) by blast
  have "distinct (akeys (untrack_scan i (user_orders b)))"
    "\<And>u. map_of (untrack_scan i (user_orders b)) u \<noteq> Some []"
    "\<And>u. distinct (owned (untrack_scan i (user_orders b)) u)"
    "\<And>u. set (owned (untrack_scan i (user_orders b)) u) = set (owned (user_orders b) u) - {i}"
    using untrack_scan_spec [OF D(1-3) one] by blast+
  from usr_idx_drop [OF assms this] show ?thesis by (simp add: untrack_order_by_id_def)
qed

section \<open>The levels\<close>

lemma resting_cong: "levels b' = levels b \<Longrightarrow> resting A b' = resting A b"
  by (simp add: resting_def)

lemma levels_wf_cong: "levels b' = levels b \<Longrightarrow> levels_wf A ok b' = levels_wf A ok b"
  by (simp add: levels_wf_def)

lemma no_empty_cong: "levels b' = levels b \<Longrightarrow> no_empty A b' = no_empty A b"
  by (simp add: no_empty_def)

lemma levels_wfD:
  assumes "levels_wf A ok b"
  shows "sm_invar (levels b s)" "sm_get (levels b s) p = Some l \<Longrightarrow> ok l"
    "sm_get (levels b s) p = Some l \<Longrightarrow> level_price A l = p"
  using assms by (auto simp: levels_wf_def)

text \<open>Writing a level back, and removing one.\<close>

lemma put_level_get:
  "levels_wf A ok b \<Longrightarrow> sm_get (levels (put_level b s p l) t) q =
     (if t = s \<and> q = p then Some l else sm_get (levels b t) q)"
  using levels_wfD(1) [of A ok b s] by (simp add: put_level_def)

lemma drop_level_get:
  "sm_get (levels (drop_level b s p) t) q = (if t = s \<and> q = p then None else sm_get (levels b t) q)"
  by (simp add: drop_level_def)

lemma put_level_wf:
  assumes "levels_wf A ok b" "ok l" "level_price A l = p"
  shows "levels_wf A ok (put_level b s p l)"
proof -
  have "sm_invar (levels (put_level b s p l) t)" for t
    using levels_wfD(1) [OF assms(1)] by (simp add: put_level_def sm_invar_insert)
  moreover have "ok k \<and> level_price A k = q" if "sm_get (levels (put_level b s p l) t) q = Some k" for t q k
    using that assms levels_wfD(2,3) [OF assms(1), of t q k] by (simp add: put_level_get [OF assms(1)] split: if_splits)
  ultimately show ?thesis by (simp add: levels_wf_def)
qed

lemma drop_level_wf:
  assumes "levels_wf A ok b"
  shows "levels_wf A ok (drop_level b s p)"
proof -
  have "sm_invar (levels (drop_level b s p) t)" for t
    using levels_wfD(1) [OF assms] by (simp add: drop_level_def sm_invar_remove)
  moreover have "ok k \<and> level_price A k = q" if "sm_get (levels (drop_level b s p) t) q = Some k" for t q k
    using that levels_wfD(2,3) [OF assms, of t q k] by (simp add: drop_level_get split: if_splits)
  ultimately show ?thesis by (simp add: levels_wf_def)
qed

definition at_level :: "u128 \<Rightarrow> side \<Rightarrow> (ident \<times> hash32) set \<Rightarrow> placement set" where
  "at_level p s E = {(i, u, p', s'). p' = p \<and> s' = s \<and> (i, u) \<in> E}"

lemma at_level_iff [simp]: "(i, u, p', s') \<in> at_level p s E \<longleftrightarrow> p' = p \<and> s' = s \<and> (i, u) \<in> E"
  by (simp add: at_level_def)

lemma resting_iff:
  "(i, u, p, s) \<in> resting A b \<longleftrightarrow>
   (\<exists>l. sm_get (levels b s) p = Some l \<and> (i, u) \<in> tag ` set (snapshot_by_seq A l))"
  by (simp add: resting_def)

lemma resting_at:
  "sm_get (levels b s) p = Some l \<Longrightarrow> (i, u, p, s) \<in> resting A b \<longleftrightarrow> (i, u) \<in> tag ` set (snapshot_by_seq A l)"
  by (simp add: resting_iff)

lemma resting_put:
  "levels_wf A ok b \<Longrightarrow> resting A (put_level b s p l) =
     {r \<in> resting A b. snd (snd r) \<noteq> (p, s)} \<union> at_level p s (tag ` set (snapshot_by_seq A l))"
  by (auto simp: resting_iff put_level_get split: if_splits)

lemma resting_drop:
  "resting A (drop_level b s p) = {r \<in> resting A b. snd (snd r) \<noteq> (p, s)}"
  by (auto simp: resting_iff drop_level_get split: if_splits)

lemma resting_drop_empty:
  "sm_get (levels b s) p = Some l \<Longrightarrow> snapshot_by_seq A l = [] \<Longrightarrow> resting A (drop_level b s p) = resting A b"
  unfolding resting_drop by (auto simp: resting_iff)

section \<open>The cache\<close>

lemma cache_ok_invalid [simp]: "cache b = invalidate c \<Longrightarrow> cache_ok b"
  by (simp add: cache_ok_def)

lemma cache_ok_cong: "bids b' = bids b \<Longrightarrow> asks b' = asks b \<Longrightarrow> cache b' = cache b \<Longrightarrow> cache_ok b' = cache_ok b"
  by (simp add: cache_ok_def)

definition true_best_bid :: "('l, 'g) book \<Rightarrow> u128 option" where
  "true_best_bid b = (if bids b = [] then None else Some (fst (last (bids b))))"

definition true_best_ask :: "('l, 'g) book \<Rightarrow> u128 option" where
  "true_best_ask b = (if asks b = [] then None else Some (fst (hd (asks b))))"

lemma best_bid_correct:
  assumes "cache_ok b" "best_bid b = (r, b')"
  shows "r = true_best_bid b" "cache_ok b'" "b' = b\<lparr>cache := cache b'\<rparr>"
  using assms
  by (auto simp: best_bid_def true_best_bid_def cache_ok_def Let_def sm_iter_rev_def
      split: option.splits list.splits)

lemma best_ask_correct:
  assumes "cache_ok b" "best_ask b = (r, b')"
  shows "r = true_best_ask b" "cache_ok b'" "b' = b\<lparr>cache := cache b'\<rparr>"
  using assms
  by (auto simp: best_ask_def true_best_ask_def cache_ok_def Let_def sm_iter_def
      split: option.splits list.splits)

end
