(* ===== verification/Matching.thy ===== *)
theory Matching
  imports Book_Invariant
begin

text \<open>
  The matching engine, \<open>src/orderbook/matching.rs\<close>: stop conditions, the sweep over the
  opposite side with self-trade prevention and the post-only guard, the read-only
  feasibility checks, and the cancellation of a resting maker on a level that the sweep holds
  (\<open>cancel_resting_maker_on_level\<close> of \<open>modifications.rs\<close>).
\<close>

section \<open>Modes and stop conditions\<close>

fun order_matchable_qty :: "('l, 'g) pricelevel_api \<Rightarrow> unit_order \<Rightarrow> u64" where
  "order_matchable_qty A od =
     sat_add64 (visible_of A od)
       (case od of
          IcebergOrder _ _ _ hidden _ _ _ _ _ \<Rightarrow> hidden
        | ReserveOrder _ _ _ hidden _ _ _ _ _ _ auto _ \<Rightarrow> (if auto then hidden else 0)
        | _ \<Rightarrow> 0)"

record match_outcome =
  mo_result :: match_result
  taker_stp_cancelled :: bool
  taker_post_only_rejected :: bool

definition outcome_resting :: "match_result \<Rightarrow> match_outcome" where
  "outcome_resting r = \<lparr>mo_result = r, taker_stp_cancelled = False, taker_post_only_rejected = False\<rparr>"

datatype match_mode = BaseQty u64 "u128 option" | QuoteAmount u128

fun mode_limit_price :: "match_mode \<Rightarrow> u128 option" where
  "mode_limit_price (BaseQty _ limit) = limit"
| "mode_limit_price (QuoteAmount _) = None"

fun initial_match_quantity :: "match_mode \<Rightarrow> u64" where
  "initial_match_quantity (BaseQty q _) = q"
| "initial_match_quantity (QuoteAmount _) = u64_max"

datatype stop_condition = StopBase u64 | StopQuote u128

fun from_mode :: "match_mode \<Rightarrow> stop_condition" where
  "from_mode (BaseQty q _) = StopBase q"
| "from_mode (QuoteAmount a) = StopQuote a"

fun level_qty_cap :: "stop_condition \<Rightarrow> u128 \<Rightarrow> u64 \<Rightarrow> u64" where
  "level_qty_cap (StopBase remaining) lp lot =
     (if lot \<le> 1 then remaining else remaining - remaining mod lot)"
| "level_qty_cap (StopQuote remaining) lp lot =
     (if lp = 0 \<or> remaining < lp then 0
      else let raw = min (remaining div lp) u64_max
           in if lot \<le> 1 then raw else raw - raw mod lot)"

fun consume :: "stop_condition \<Rightarrow> u64 \<Rightarrow> u128 \<Rightarrow> stop_condition" where
  "consume (StopBase remaining) executed lp = StopBase (sat_sub remaining executed)"
| "consume (StopQuote remaining) executed lp =
     StopQuote (sat_sub remaining (sat_mul128 lp executed))"

fun is_done :: "stop_condition \<Rightarrow> bool" where
  "is_done (StopBase remaining) \<longleftrightarrow> remaining = 0"
| "is_done (StopQuote remaining) \<longleftrightarrow> remaining = 0"

section \<open>Cancelling a maker on a held level\<close>

definition cancel_resting_maker_on_level ::
    "('l, 'g) pricelevel_api \<Rightarrow> 'l \<Rightarrow> side \<Rightarrow> ident \<Rightarrow> cancel_reason \<Rightarrow> ('l, 'g) book \<Rightarrow> 'l \<times> ('l, 'g) book" where
  "cancel_resting_maker_on_level A l s order_id reason b =
     (case level_update A l (Cancel order_id) of
        (Inr (Some cancelled), l') \<Rightarrow>
          (let b1 = invalidate_cache b;
               b2 = notify_level b1 s (level_price A l') (level_visible A l');
               b3 = track_state b2 order_id (Cancelled (prev_filled b2 order_id) reason);
               b4 = remove_location b3 order_id;
               b5 = b4\<lparr>risk_state := on_cancel (risk_state b4) order_id\<rparr>;
               b6 = untrack_user_order b5 (ouser cancelled) order_id
           in (l', unregister_special b6 order_id))
      | (_, l') \<Rightarrow> (l', b))"

text \<open>The loop of the \<open>CancelMaker\<close> arm over the snapshot of the level.\<close>

fun cancel_own_makers ::
    "('l, 'g) pricelevel_api \<Rightarrow> side \<Rightarrow> hash32 \<Rightarrow> unit_order list \<Rightarrow> 'l \<Rightarrow> ('l, 'g) book \<Rightarrow> 'l \<times> ('l, 'g) book" where
  "cancel_own_makers A s user [] l b = (l, b)"
| "cancel_own_makers A s user (od # ods) l b =
     (if ouser od = user
      then let (l1, b1) = cancel_resting_maker_on_level A l s (oid od) SelfTradePrevention b
           in cancel_own_makers A s user ods l1 b1
      else cancel_own_makers A s user ods l b)"

section \<open>The sweep\<close>

text \<open>The variables of \<open>match_order_inner\<close> that the loop updates.\<close>

record ('l, 'g) sweep =
  sw_book :: "('l, 'g) book"
  sw_result :: match_result
  sw_filled :: "(ident \<times> u64) list"
  sw_empty :: "u128 list"
  sw_stop :: stop_condition
  sw_stp_cancelled :: bool
  sw_post_only :: bool

text \<open>\<open>process_level_match\<close>: the loop over the trades, then the one over the filled makers.\<close>

fun add_trades :: "('l, 'g) pricelevel_api \<Rightarrow> trade list \<Rightarrow> match_result \<Rightarrow> risk_state \<Rightarrow> match_result \<times> risk_state" where
  "add_trades A [] r rs = (r, rs)"
| "add_trades A (t # ts) r rs =
     add_trades A ts (snd (mr_add_trade A r t)) (on_fill rs (maker_order_id t) (tquantity t) (tprice t))"

fun add_filled :: "('l, 'g) pricelevel_api \<Rightarrow> trade list \<Rightarrow> ident list \<Rightarrow> match_result \<Rightarrow> (ident \<times> u64) list \<Rightarrow>
    match_result \<times> (ident \<times> u64) list" where
  "add_filled A trades [] r filled = (r, filled)"
| "add_filled A trades (i # is) r filled =
     add_filled A trades is (mr_add_filled A r i)
       (filled @ [(i, sum_of tquantity (filter (\<lambda>t. maker_order_id t = i) trades))])"

definition process_level_match ::
    "('l, 'g) pricelevel_api \<Rightarrow> match_result \<Rightarrow> u128 \<Rightarrow> 'l \<Rightarrow> side \<Rightarrow> ('l, 'g) sweep \<Rightarrow> ('l, 'g) sweep" where
  "process_level_match A m price l s sw =
     (let b = sw_book sw;
          (r1, b1) =
            (if mr_trades m \<noteq> [] then
               (let (r, rs) = add_trades A (mr_trades m) (sw_result sw) (risk_state b)
                in (r, notify_level
                         (b\<lparr>last_trade_price_cell := price, has_traded := True, risk_state := rs\<rparr>)
                         (opposite s) (level_price A l) (level_visible A l)))
             else (sw_result sw, b));
          (r2, filled) = add_filled A (mr_trades m) (mr_filled_ids m) r1 (sw_filled sw)
      in sw\<lparr>sw_book := b1, sw_result := r2, sw_filled := filled,
            sw_empty := (if order_count A l = 0 then sw_empty sw @ [price] else sw_empty sw)\<rparr>)"

text \<open>\<open>price_level.match_order\<close>, \<open>process_level_match\<close>, \<open>stop.consume\<close>: the block that
  \<open>match_order_inner\<close> has three times.\<close>

definition match_and_process ::
    "('l, 'g) pricelevel_api \<Rightarrow> ident \<Rightarrow> side \<Rightarrow> taker_kind \<Rightarrow> u64 \<Rightarrow> u64 \<Rightarrow> u128 \<Rightarrow> 'l \<Rightarrow> ('l, 'g) sweep \<Rightarrow>
      'l \<times> ('l, 'g) sweep" where
  "match_and_process A order_id s kind ts qty price l sw =
     (let (m, l', g') = level_match A l qty order_id Gtc kind ts (transaction_id_generator (sw_book sw));
          sw1 = sw\<lparr>sw_book := (put_level (sw_book sw) (opposite s) price l')\<lparr>transaction_id_generator := g'\<rparr>\<rparr>;
          executed = sat_sub qty (mr_remaining m);
          sw2 = process_level_match A m price l' s sw1
      in (l', sw2\<lparr>sw_stop := consume (sw_stop sw2) executed price\<rparr>))"

datatype loop_step = Break | Continue | FallThrough

text \<open>The self-trade block of one iteration.  It returns the level, the state and whether the
  loop breaks, continues with the next level, or falls through to normal matching.\<close>

definition stp_block ::
    "('l, 'g) pricelevel_api \<Rightarrow> ident \<Rightarrow> side \<Rightarrow> hash32 \<Rightarrow> taker_kind \<Rightarrow> u64 \<Rightarrow> u64 \<Rightarrow> u128 \<Rightarrow> 'l \<Rightarrow> ('l, 'g) sweep \<Rightarrow>
      loop_step \<times> 'l \<times> ('l, 'g) sweep" where
  "stp_block A order_id s user kind ts qty_cap price l sw =
     (let stp_orders = snapshot_by_seq A l in
      case check_stp_at_level A stp_orders user (stp_mode_of (sw_book sw)) of
        NoConflict \<Rightarrow> (FallThrough, l, sw)
      | CancelTaker safe_quantity \<Rightarrow>
          (let match_qty = min qty_cap safe_quantity;
               (l1, sw1) = (if 0 < safe_quantity \<and> 0 < match_qty
                            then match_and_process A order_id s kind ts match_qty price l sw else (l, sw))
           in (Break, l1, sw1\<lparr>sw_stp_cancelled := True\<rparr>))
      | CancelMaker \<Rightarrow>
          (let (l1, b1) = cancel_own_makers A (opposite s) user stp_orders l (sw_book sw);
               sw1 = sw\<lparr>sw_book := put_level b1 (opposite s) price l1\<rparr>
           in if order_count A l1 = 0 then (Continue, l1, sw1\<lparr>sw_empty := sw_empty sw1 @ [price]\<rparr>)
              else (FallThrough, l1, sw1))
      | CancelBoth safe_quantity maker_id \<Rightarrow>
          (let match_qty = min qty_cap safe_quantity;
               (l1, sw1) = (if 0 < safe_quantity \<and> 0 < match_qty
                            then match_and_process A order_id s kind ts match_qty price l sw else (l, sw));
               (l2, b2) = cancel_resting_maker_on_level A l1 (opposite s) maker_id
                            SelfTradePrevention (sw_book sw1);
               sw2 = sw1\<lparr>sw_book := put_level b2 (opposite s) price l2\<rparr>;
               sw3 = (if order_count A l2 = 0 then sw2\<lparr>sw_empty := sw_empty sw2 @ [price]\<rparr> else sw2)
           in (Break, l2, sw3\<lparr>sw_stp_cancelled := True\<rparr>)))"

definition beyond_limit :: "side \<Rightarrow> u128 option \<Rightarrow> u128 \<Rightarrow> bool" where
  "beyond_limit s limit price =
     (case limit of
        None \<Rightarrow> False
      | Some lim \<Rightarrow> (case s of Buy \<Rightarrow> lim < price | Sell \<Rightarrow> price < lim))"

text \<open>One iteration of the loop over the price levels.\<close>

definition sweep_level ::
    "('l, 'g) pricelevel_api \<Rightarrow> ident \<Rightarrow> side \<Rightarrow> u128 option \<Rightarrow> u64 \<Rightarrow> hash32 \<Rightarrow> bool \<Rightarrow> taker_kind \<Rightarrow> u64 \<Rightarrow>
      u128 \<Rightarrow> 'l \<Rightarrow> ('l, 'g) sweep \<Rightarrow> bool \<times> ('l, 'g) sweep" where
  "sweep_level A order_id s limit lot user stp_active kind ts price l sw =
     (if beyond_limit s limit price then (True, sw)
      else let qty_cap = level_qty_cap (sw_stop sw) price lot in
      if qty_cap = 0 then (True, sw)
      else if kind = TakerPostOnly then
        (let (probe, l', g') = level_match A l qty_cap order_id Gtc kind ts (transaction_id_generator (sw_book sw));
             sw1 = sw\<lparr>sw_book := (put_level (sw_book sw) (opposite s) price l')\<lparr>transaction_id_generator := g'\<rparr>\<rparr>
         in if mr_rejected probe then (True, sw1\<lparr>sw_post_only := True\<rparr>) else (False, sw1))
      else
        (let (step, l1, sw1) = (if stp_active then stp_block A order_id s user kind ts qty_cap price l sw
                                else (FallThrough, l, sw))
         in case step of
              Break \<Rightarrow> (True, sw1)
            | Continue \<Rightarrow> (False, sw1)
            | FallThrough \<Rightarrow>
                (let (l2, sw2) = match_and_process A order_id s kind ts qty_cap price l1 sw1
                 in (is_done (sw_stop sw2), sw2))))"

fun sweep_levels ::
    "('l, 'g) pricelevel_api \<Rightarrow> ident \<Rightarrow> side \<Rightarrow> u128 option \<Rightarrow> u64 \<Rightarrow> hash32 \<Rightarrow> bool \<Rightarrow> taker_kind \<Rightarrow> u64 \<Rightarrow>
      (u128 \<times> 'l) list \<Rightarrow> ('l, 'g) sweep \<Rightarrow> ('l, 'g) sweep" where
  "sweep_levels A order_id s limit lot user stp_active kind ts [] sw = sw"
| "sweep_levels A order_id s limit lot user stp_active kind ts ((price, l) # rest) sw =
     (let (stop, sw1) = sweep_level A order_id s limit lot user stp_active kind ts price l sw
      in if stop then sw1 else sweep_levels A order_id s limit lot user stp_active kind ts rest sw1)"

text \<open>The order in which a taker of side \<open>s\<close> visits the opposite levels.\<close>

definition sweep_order :: "('l, 'g) book \<Rightarrow> side \<Rightarrow> (u128 \<times> 'l) list" where
  "sweep_order b s = (case s of Buy \<Rightarrow> sm_iter (asks b) | Sell \<Rightarrow> sm_iter_rev (bids b))"

section \<open>\<open>match_order_inner\<close>\<close>

definition empty_book_result ::
    "('l, 'g) book \<Rightarrow> side \<Rightarrow> match_mode \<Rightarrow> match_result \<Rightarrow> (order_book_error + match_result) \<times> ('l, 'g) book" where
  "empty_book_result b s mode r =
     (case mode of
        BaseQty quantity None \<Rightarrow>
          (Inl (InsufficientLiquidity s quantity 0), record_reject b RejInsufficientLiquidity)
      | QuoteAmount amount \<Rightarrow>
          (Inl (InsufficientLiquidityNotional s amount 0), record_reject b RejInsufficientLiquidity)
      | BaseQty quantity (Some _) \<Rightarrow> (Inr r, b))"

fun rebuild_trades :: "('l, 'g) pricelevel_api \<Rightarrow> trade list \<Rightarrow> match_result \<Rightarrow> match_result option" where
  "rebuild_trades A [] r = Some r"
| "rebuild_trades A (t # ts) r =
     (case mr_add_trade A r t of (Inl _, _) \<Rightarrow> None | (Inr _, r') \<Rightarrow> rebuild_trades A ts r')"

definition normalize_notional_match_result ::
    "('l, 'g) pricelevel_api \<Rightarrow> ident \<Rightarrow> match_result \<Rightarrow> match_result" where
  "normalize_notional_match_result A order_id src =
     (let executed_qty = foldl sat_add64 0 (map tquantity (mr_trades src))
      in case rebuild_trades A (mr_trades src) (mr_new A order_id executed_qty) of
           None \<Rightarrow> src
         | Some rebuilt \<Rightarrow> foldl (mr_add_filled A) rebuilt (mr_filled_ids src))"

text \<open>The loop that removes the filled makers from the indices.\<close>

fun retire_filled :: "(ident \<times> u64) list \<Rightarrow> ('l, 'g) book \<Rightarrow> ('l, 'g) book" where
  "retire_filled [] b = b"
| "retire_filled ((i, q) # is) b =
     retire_filled is (untrack_order_by_id (remove_location (track_state b i (Filled q)) i) i)"

fun remove_levels :: "side \<Rightarrow> u128 list \<Rightarrow> ('l, 'g) book \<Rightarrow> ('l, 'g) book" where
  "remove_levels s [] b = b"
| "remove_levels s (p # ps) b = remove_levels s ps (drop_level b s p)"

text \<open>Everything between the loop and the verdict.\<close>

definition finish_sweep :: "side \<Rightarrow> ('l, 'g) sweep \<Rightarrow> ('l, 'g) book" where
  "finish_sweep s sw =
     (let b1 = remove_levels (opposite s) (sw_empty sw) (sw_book sw);
          b2 = (if sw_empty sw \<noteq> [] then record_depth_metric b1 else b1)
      in retire_filled (sw_filled sw) b2)"

definition initial_sweep :: "('l, 'g) pricelevel_api \<Rightarrow> ident \<Rightarrow> match_mode \<Rightarrow> ('l, 'g) book \<Rightarrow> ('l, 'g) sweep" where
  "initial_sweep A order_id mode b =
     \<lparr>sw_book = b, sw_result = mr_new A order_id (initial_match_quantity mode), sw_filled = [],
      sw_empty = [], sw_stop = from_mode mode, sw_stp_cancelled = False, sw_post_only = False\<rparr>"

text \<open>The verdict on the result of the sweep.\<close>

definition sweep_verdict ::
    "('l, 'g) pricelevel_api \<Rightarrow> ident \<Rightarrow> side \<Rightarrow> match_mode \<Rightarrow> hash32 \<Rightarrow> ('l, 'g) sweep \<Rightarrow> ('l, 'g) book \<Rightarrow>
      (order_book_error + match_outcome) \<times> ('l, 'g) book" where
  "sweep_verdict A order_id s mode user sw b =
     (let no_fills = (mr_trades (sw_result sw) = []);
          result = (case mode of
                      QuoteAmount _ \<Rightarrow> normalize_notional_match_result A order_id (sw_result sw)
                    | BaseQty _ _ \<Rightarrow> sw_result sw);
          outcome = \<lparr>mo_result = result, taker_stp_cancelled = sw_stp_cancelled sw,
                     taker_post_only_rejected = sw_post_only sw\<rparr>
      in if sw_stp_cancelled sw \<and> no_fills then
           (Inl (SelfTradePrevented (stp_mode_of b) order_id user),
            record_reject (track_state b order_id (Cancelled 0 SelfTradePrevention)) RejSelfTradePrevention)
         else if no_fills then
           (case mode of
              BaseQty quantity None \<Rightarrow>
                (Inl (InsufficientLiquidity s quantity 0), record_reject b RejInsufficientLiquidity)
            | QuoteAmount amount \<Rightarrow>
                (Inl (InsufficientLiquidityNotional s amount 0), record_reject b RejInsufficientLiquidity)
            | BaseQty _ (Some _) \<Rightarrow> (Inr outcome, b))
         else (Inr outcome, b))"

definition match_order_inner ::
    "('l, 'g) pricelevel_api \<Rightarrow> ('l, 'g) book \<Rightarrow> ident \<Rightarrow> side \<Rightarrow> match_mode \<Rightarrow> hash32 \<Rightarrow> taker_kind \<Rightarrow>
      (order_book_error + match_outcome) \<times> ('l, 'g) book" where
  "match_order_inner A b order_id s mode user kind =
     (let b1 = invalidate_cache b;
          lot = (case lot_size b1 of Some l \<Rightarrow> l | None \<Rightarrow> 1);
          (ts, c) = now_millis (book_clock b1);
          b2 = b1\<lparr>book_clock := c\<rparr>;
          stp_active = (is_enabled (stp_mode_of b2) \<and> user \<noteq> 0);
          sw0 = initial_sweep A order_id mode b2
      in if levels b2 (opposite s) = [] then
           (case empty_book_result b2 s mode (sw_result sw0) of
              (Inl e, b3) \<Rightarrow> (Inl e, b3)
            | (Inr r, b3) \<Rightarrow> (Inr (outcome_resting r), b3))
         else
           (let sw = sweep_levels A order_id s (mode_limit_price mode) lot user stp_active kind ts
                       (sweep_order b2 s) sw0
            in sweep_verdict A order_id s mode user sw (finish_sweep s sw)))"

text \<open>The public and internal entry points.\<close>

definition match_order_with_user_outcome ::
    "('l, 'g) pricelevel_api \<Rightarrow> ('l, 'g) book \<Rightarrow> ident \<Rightarrow> side \<Rightarrow> u64 \<Rightarrow> u128 option \<Rightarrow> hash32 \<Rightarrow> taker_kind \<Rightarrow>
      (order_book_error + match_outcome) \<times> ('l, 'g) book" where
  "match_order_with_user_outcome A b order_id s quantity limit user kind =
     match_order_inner A b order_id s (BaseQty quantity limit) user kind"

definition outcome_result ::
    "(order_book_error + match_outcome) \<times> ('l, 'g) book \<Rightarrow> (order_book_error + match_result) \<times> ('l, 'g) book" where
  "outcome_result x = (case x of (Inl e, b) \<Rightarrow> (Inl e, b) | (Inr out, b) \<Rightarrow> (Inr (mo_result out), b))"

definition match_order ::
    "('l, 'g) pricelevel_api \<Rightarrow> ('l, 'g) book \<Rightarrow> ident \<Rightarrow> side \<Rightarrow> u64 \<Rightarrow> u128 option \<Rightarrow>
      (order_book_error + match_result) \<times> ('l, 'g) book" where
  "match_order A b order_id s quantity limit =
     outcome_result (match_order_with_user_outcome A b order_id s quantity limit 0 TakerStandard)"

definition match_order_with_user ::
    "('l, 'g) pricelevel_api \<Rightarrow> ('l, 'g) book \<Rightarrow> ident \<Rightarrow> side \<Rightarrow> u64 \<Rightarrow> u128 option \<Rightarrow> hash32 \<Rightarrow>
      (order_book_error + match_result) \<times> ('l, 'g) book" where
  "match_order_with_user A b order_id s quantity limit user =
     outcome_result (match_order_with_user_outcome A b order_id s quantity limit user TakerStandard)"

definition match_order_by_amount_with_user ::
    "('l, 'g) pricelevel_api \<Rightarrow> ('l, 'g) book \<Rightarrow> ident \<Rightarrow> side \<Rightarrow> u128 \<Rightarrow> hash32 \<Rightarrow>
      (order_book_error + match_result) \<times> ('l, 'g) book" where
  "match_order_by_amount_with_user A b order_id s amount user =
     outcome_result (match_order_inner A b order_id s (QuoteAmount amount) user TakerStandard)"

fun match_orders_batch ::
    "('l, 'g) pricelevel_api \<Rightarrow> (ident \<times> side \<times> u64 \<times> u128 option) list \<Rightarrow> ('l, 'g) book \<Rightarrow>
      (order_book_error + match_result) list \<times> ('l, 'g) book" where
  "match_orders_batch A [] b = ([], b)"
| "match_orders_batch A ((i, s, q, lim) # ods) b =
     (let (r, b1) = match_order A b i s q lim; (rs, b2) = match_orders_batch A ods b1
      in (r # rs, b2))"

section \<open>Read-only feasibility\<close>

fun peek_loop :: "('l, 'g) pricelevel_api \<Rightarrow> side \<Rightarrow> u64 \<Rightarrow> u128 option \<Rightarrow> u64 \<Rightarrow> (u128 \<times> 'l) list \<Rightarrow> u64" where
  "peek_loop A s quantity limit matched [] = matched"
| "peek_loop A s quantity limit matched ((price, l) # rest) =
     (if quantity \<le> matched then matched
      else if beyond_limit s limit price then matched
      else let available = (case level_total A l of Inr n \<Rightarrow> n | Inl _ \<Rightarrow> 0);
               needed = sat_sub quantity matched
           in peek_loop A s quantity limit (sat_add64 matched (min needed available)) rest)"

definition peek_match :: "('l, 'g) pricelevel_api \<Rightarrow> ('l, 'g) book \<Rightarrow> side \<Rightarrow> u64 \<Rightarrow> u128 option \<Rightarrow> u64" where
  "peek_match A b s quantity limit =
     (if levels b (opposite s) = [] then 0 else peek_loop A s quantity limit 0 (sweep_order b s))"

text \<open>The quantity one level can give, and whether the walk stops after it.\<close>

definition fok_reachable ::
    "('l, 'g) pricelevel_api \<Rightarrow> stp_mode \<Rightarrow> bool \<Rightarrow> hash32 \<Rightarrow> ident \<Rightarrow> u64 \<Rightarrow> 'l \<Rightarrow> u64 \<times> bool" where
  "fok_reachable A mode stp_active user taker_id cap l =
     (if stp_active then
        (let ods = snapshot_by_seq A l in
         case check_stp_at_level A ods user mode of
           NoConflict \<Rightarrow> (matchable_quantity A l cap taker_id, False)
         | CancelMaker \<Rightarrow>
             (sum_of (order_matchable_qty A) (filter (\<lambda>od. ouser od \<noteq> user) ods), False)
         | CancelTaker safe_quantity \<Rightarrow> (safe_quantity, True)
         | CancelBoth safe_quantity _ \<Rightarrow> (safe_quantity, True))
      else (matchable_quantity A l cap taker_id, False))"

fun fok_loop ::
    "('l, 'g) pricelevel_api \<Rightarrow> stp_mode \<Rightarrow> bool \<Rightarrow> side \<Rightarrow> u64 \<Rightarrow> u128 option \<Rightarrow> u64 \<Rightarrow> hash32 \<Rightarrow> ident \<Rightarrow>
      u64 \<Rightarrow> (u128 \<times> 'l) list \<Rightarrow> u64" where
  "fok_loop A mode stp_active s quantity limit lot user taker_id matched [] = matched"
| "fok_loop A mode stp_active s quantity limit lot user taker_id matched ((price, l) # rest) =
     (if quantity \<le> matched then matched
      else if beyond_limit s limit price then matched
      else let needed = quantity - matched;
               cap = (if lot \<le> 1 then needed else needed - needed mod lot)
           in if cap = 0 then matched
              else let (reachable, stop_after) = fok_reachable A mode stp_active user taker_id cap l;
                       matched' = sat_add64 matched (min cap reachable)
                   in if stop_after then matched'
                      else fok_loop A mode stp_active s quantity limit lot user taker_id matched' rest)"

definition fok_fillable_quantity ::
    "('l, 'g) pricelevel_api \<Rightarrow> ('l, 'g) book \<Rightarrow> side \<Rightarrow> u64 \<Rightarrow> u128 option \<Rightarrow> hash32 \<Rightarrow> ident \<Rightarrow> u64" where
  "fok_fillable_quantity A b s quantity limit user taker_id =
     (if quantity = 0 \<or> levels b (opposite s) = [] then 0
      else fok_loop A (stp_mode_of b) (is_enabled (stp_mode_of b) \<and> user \<noteq> 0) s quantity limit
             (case lot_size b of Some l \<Rightarrow> l | None \<Rightarrow> 1) user taker_id 0 (sweep_order b s))"

end
