(* ===== verification/Sweep.thy ===== *)
theory Sweep
  imports Matching
begin

text \<open>
  Facts about one sweep, proved from the price-level contract: what a sweep does to the
  result and the stop condition, and that it moves the book between consistent states.
  While the sweep runs, filled makers have left their levels but not yet the indices;
  \<open>pending\<close> is the set of their placements, and the indices describe the resting orders
  together with it.
\<close>

section \<open>Configuration is untouched\<close>

definition conf_of :: "('l, 'g) book \<Rightarrow> stp_mode \<times> u64 option \<times> bool" where
  "conf_of b = (stp_mode_of b, lot_size b, price_level_changed_listener b)"

lemma conf_simps [simp]:
  "conf_of (put_level b s p l) = conf_of b" "conf_of (notify_level b s p q) = conf_of b"
  "conf_of (track_state b i st) = conf_of b" "conf_of (remove_location b i) = conf_of b"
  "conf_of (untrack_user_order b u i) = conf_of b" "conf_of (unregister_special b i) = conf_of b"
  "conf_of (invalidate_cache b) = conf_of b" "conf_of (untrack_order_by_id b i) = conf_of b"
  "conf_of (drop_level b s p) = conf_of b" "conf_of (record_depth_metric b) = conf_of b"
  "conf_of (b\<lparr>risk_state := r\<rparr>) = conf_of b" "conf_of (b\<lparr>transaction_id_generator := g\<rparr>) = conf_of b"
  "conf_of (b\<lparr>last_trade_price_cell := p\<rparr>) = conf_of b" "conf_of (b\<lparr>has_traded := t\<rparr>) = conf_of b"
  "conf_of (b\<lparr>book_clock := c\<rparr>) = conf_of b"
  by (simp_all add: conf_of_def)

section \<open>The levels of a book, as the sweep changes them\<close>

lemma levels_put_cong: "levels b' = levels b \<Longrightarrow> levels (put_level b' s p l) = levels (put_level b s p l)"
  by (rule ext) (simp add: put_level_def)

lemma resting_put_cong: "levels b' = levels b \<Longrightarrow> resting A (put_level b' s p l) = resting A (put_level b s p l)"
  by (rule resting_cong) (rule levels_put_cong)

lemma untrack_user_cong:
  "user_orders b' = user_orders b \<Longrightarrow> user_orders (untrack_user_order b' v i) = user_orders (untrack_user_order b v i)"
  by (simp add: untrack_user_order_def Let_def split: option.splits)

section \<open>Results\<close>

lemma add_filled_eq:
  "add_filled A trs is r filled =
     (foldl (mr_add_filled A) r is,
      filled @ map (\<lambda>i. (i, sum_of tquantity (filter (\<lambda>t. maker_order_id t = i) trs))) is)"
  by (induction "is" arbitrary: r filled) auto

text \<open>Every maker of the trades is an order of the list and belongs to another user.\<close>

definition no_self :: "hash32 \<Rightarrow> unit_order list \<Rightarrow> trade list \<Rightarrow> bool" where
  "no_self u ods trs \<longleftrightarrow> (\<forall>t \<in> set trs. \<exists>od \<in> set ods. oid od = maker_order_id t \<and> ouser od \<noteq> u)"

context price_levels
begin

lemma foldl_mr_add_filled: "foldl (mr_add_filled A) r is = r\<lparr>mr_filled_ids := mr_filled_ids r @ is\<rparr>"
  by (induction "is" arbitrary: r) (auto simp: mr_add_filled)

lemma add_trades_exact:
  "traded_quantity ts \<le> mr_remaining r \<Longrightarrow>
   fst (add_trades A ts r rs) = r\<lparr>mr_trades := mr_trades r @ ts, mr_remaining := mr_remaining r - traded_quantity ts\<rparr>"
proof (induction ts arbitrary: r rs)
  case (Cons t ts)
  then have "mr_add_trade A r t =
      (Inr (), r\<lparr>mr_trades := mr_trades r @ [t], mr_remaining := mr_remaining r - tquantity t\<rparr>)"
    by (intro mr_add_trade) simp
  then show ?case
    using Cons.IH [of "r\<lparr>mr_trades := mr_trades r @ [t], mr_remaining := mr_remaining r - tquantity t\<rparr>"] Cons.prems
    by simp
qed simp

text \<open>In any case the trades recorded are some of the trades offered, in order.\<close>

lemma add_trades_some:
  "\<exists>us. mr_trades (fst (add_trades A ts r rs)) = mr_trades r @ us \<and> set us \<subseteq> set ts \<and>
     traded_value us \<le> traded_value ts \<and>
     traded_quantity us + mr_remaining (fst (add_trades A ts r rs)) = mr_remaining r"
proof (induction ts arbitrary: r rs)
  case (Cons t ts)
  show ?case
  proof (cases "tquantity t \<le> mr_remaining r")
    case True
    from Cons.IH [of "r\<lparr>mr_trades := mr_trades r @ [t], mr_remaining := mr_remaining r - tquantity t\<rparr>"]
    obtain us where "mr_trades (fst (add_trades A (t # ts) r rs)) = mr_trades r @ t # us" "set us \<subseteq> set ts"
      "traded_value us \<le> traded_value ts"
      "traded_quantity us + mr_remaining (fst (add_trades A (t # ts) r rs)) = mr_remaining r - tquantity t"
      using mr_add_trade [OF True] by auto
    then show ?thesis using True by (intro exI [of _ "t # us"]) auto
  next
    case False
    then obtain e where "mr_add_trade A r t = (Inl e, r)" using mr_add_trade_underflow by fastforce
    then show ?thesis using Cons.IH [of r] by (fastforce intro: trans_le_add2)
  qed
qed simp

text \<open>\<open>match_and_process\<close> at a glance.\<close>

lemma match_and_processE:
  assumes "match_and_process A i s TakerStandard ts q p l sw = (l', sw')" "ok l"
  obtains m g' where "level_match A l q i Gtc TakerStandard ts (transaction_id_generator (sw_book sw)) = (m, l', g')"
    "sw_stop sw' = consume (sw_stop sw) (traded_quantity (mr_trades m)) p"
    "sw_result sw' = foldl (mr_add_filled A)
       (if mr_trades m = [] then sw_result sw
        else fst (add_trades A (mr_trades m) (sw_result sw) (risk_state (sw_book sw)))) (mr_filled_ids m)"
    "map fst (sw_filled sw') = map fst (sw_filled sw) @ mr_filled_ids m"
    "sw_empty sw' = (if order_count A l' = 0 then sw_empty sw @ [p] else sw_empty sw)"
    "sw_stp_cancelled sw' = sw_stp_cancelled sw" "sw_post_only sw' = sw_post_only sw"
    "levels (sw_book sw') = levels (put_level (sw_book sw) (opposite s) p l')"
    "order_locations (sw_book sw') = order_locations (sw_book sw)"
    "user_orders (sw_book sw') = user_orders (sw_book sw)"
    "cache (sw_book sw') = cache (sw_book sw)" "conf_of (sw_book sw') = conf_of (sw_book sw)"
proof -
  obtain m l1 g' where m: "level_match A l q i Gtc TakerStandard ts (transaction_id_generator (sw_book sw)) = (m, l1, g')"
    by (metis prod_cases3)
  have x: "sat_sub q (mr_remaining m) = traded_quantity (mr_trades m)"
    unfolding sat_sub_def by (rule match_executed [OF assms(2) m])
  let ?f = "\<lambda>i. (i, sum_of tquantity (filter (\<lambda>t. maker_order_id t = i) (mr_trades m)))"
  have fst_f: "map (fst \<circ> ?f) xs = xs" for xs by (induction xs) auto
  show thesis
    using assms(1) m x fst_f
    by (intro that [of m g'])
      (auto simp: match_and_process_def process_level_match_def Let_def add_filled_eq case_prod_unfold
        split: if_splits)
qed

text \<open>Cancelling a maker on a held level.\<close>

lemma cancel_maker_cases:
  assumes "cancel_resting_maker_on_level A l s i reason b = (l', b')" "ok l"
  obtains (absent) "i \<notin> ids (snapshot_by_seq A l)" "l' = l" "b' = b"
  | (present) od where "od \<in> set (snapshot_by_seq A l)" "oid od = i" "ok l'"
      "level_price A l' = level_price A l"
      "snapshot_by_seq A l' = filter (\<lambda>x. oid x \<noteq> i) (snapshot_by_seq A l)"
      "levels b' = levels b" "order_locations b' = (order_locations b)(i := None)"
      "user_orders b' = user_orders (untrack_user_order b (ouser od) i)"
      "cache b' = invalidate (cache b)" "conf_of b' = conf_of b"
      "transaction_id_generator b' = transaction_id_generator b"
proof -
  obtain r l1 where u: "level_update A l (Cancel i) = (r, l1)" by fastforce
  show thesis
    using assms(2) u
  proof (cases rule: cancel_cases)
    case absent
    then show ?thesis using assms(1) u by (intro that(1)) (simp_all add: cancel_resting_maker_on_level_def)
  next
    case (present od)
    then show ?thesis
      using assms(1) u
      by (intro that(2) [of od]) (auto simp: cancel_resting_maker_on_level_def Let_def intro!: untrack_user_cong)
  qed
qed

lemma cancel_own_level:
  assumes "cancel_own_makers A s u ods l b = (l', b')" "ok l"
  shows "ok l' \<and> level_price A l' = level_price A l \<and> conf_of b' = conf_of b \<and>
    snapshot_by_seq A l' = filter (\<lambda>x. oid x \<notin> oid ` {od \<in> set ods. ouser od = u}) (snapshot_by_seq A l)"
  using assms
proof (induction ods arbitrary: l b)
  case (Cons od ods)
  show ?case
  proof (cases "ouser od = u")
    case True
    obtain l1 b1 where c: "cancel_resting_maker_on_level A l s (oid od) SelfTradePrevention b = (l1, b1)" by fastforce
    then have rec: "cancel_own_makers A s u ods l1 b1 = (l', b')" using Cons.prems(1) True by simp
    have l1: "ok l1 \<and> level_price A l1 = level_price A l \<and> conf_of b1 = conf_of b \<and>
        snapshot_by_seq A l1 = filter (\<lambda>x. oid x \<noteq> oid od) (snapshot_by_seq A l)"
      using c Cons.prems(2)
    proof (cases rule: cancel_maker_cases)
      case absent
      then have "filter (\<lambda>x. oid x \<noteq> oid od) (snapshot_by_seq A l) = snapshot_by_seq A l"
        by (intro filter_True) (metis image_eqI)
      then show ?thesis using Cons.prems(2) absent by simp
    qed simp
    then show ?thesis
      using Cons.IH [OF rec] True by (auto simp: conj_commute intro!: filter_cong)
  next
    case False
    then show ?thesis using Cons.IH [of l b] Cons.prems by (auto intro!: filter_cong)
  qed
qed simp

lemma cancel_own_all:
  assumes "cancel_own_makers A s u (snapshot_by_seq A l) l b = (l', b')" "ok l"
  shows "ok l'" "level_price A l' = level_price A l" "conf_of b' = conf_of b"
    "snapshot_by_seq A l' = filter (\<lambda>x. ouser x \<noteq> u) (snapshot_by_seq A l)"
proof -
  have "oid x \<in> oid ` {od \<in> set (snapshot_by_seq A l). ouser od = u} \<longleftrightarrow> ouser x = u"
    if "x \<in> set (snapshot_by_seq A l)" for x
    using that ids_distinct [OF assms(2)] by (auto simp: distinct_map inj_on_def)
  then show "ok l'" "level_price A l' = level_price A l" "conf_of b' = conf_of b"
    "snapshot_by_seq A l' = filter (\<lambda>x. ouser x \<noteq> u) (snapshot_by_seq A l)"
    using cancel_own_level [OF assms] by (auto intro!: filter_cong)
qed

section \<open>One iteration\<close>

text \<open>The five ways an iteration ends, for a taker that is not post-only.\<close>

lemma sweep_level_cases:
  assumes "sweep_level A i s limit lot u stp TakerStandard ts p l sw = (stop, sw')"
  obtains
    (halt) "beyond_limit s limit p \<or> level_qty_cap (sw_stop sw) p lot = 0" "stop" "sw' = sw"
  | (plain) l2 where "\<not> beyond_limit s limit p" "0 < level_qty_cap (sw_stop sw) p lot"
      "stp \<Longrightarrow> check_stp_at_level A (snapshot_by_seq A l) u (stp_mode_of (sw_book sw)) = NoConflict"
      "match_and_process A i s TakerStandard ts (level_qty_cap (sw_stop sw) p lot) p l sw = (l2, sw')"
      "stop = is_done (sw_stop sw')"
  | (own) l1 b1 l2 where "\<not> beyond_limit s limit p" "0 < level_qty_cap (sw_stop sw) p lot" "stp"
      "check_stp_at_level A (snapshot_by_seq A l) u (stp_mode_of (sw_book sw)) = CancelMaker"
      "cancel_own_makers A (opposite s) u (snapshot_by_seq A l) l (sw_book sw) = (l1, b1)"
      "match_and_process A i s TakerStandard ts (level_qty_cap (sw_stop sw) p lot) p l1
         (sw\<lparr>sw_book := put_level b1 (opposite s) p l1\<rparr>) = (l2, sw')"
      "stop = is_done (sw_stop sw')"
  | (own_empty) l1 b1 where "\<not> beyond_limit s limit p" "stp"
      "check_stp_at_level A (snapshot_by_seq A l) u (stp_mode_of (sw_book sw)) = CancelMaker"
      "cancel_own_makers A (opposite s) u (snapshot_by_seq A l) l (sw_book sw) = (l1, b1)"
      "order_count A l1 = 0"
      "sw' = sw\<lparr>sw_book := put_level b1 (opposite s) p l1, sw_empty := sw_empty sw @ [p]\<rparr>" "\<not> stop"
  | (taker) q l1 sw1 where "\<not> beyond_limit s limit p" "0 < level_qty_cap (sw_stop sw) p lot" "stp"
      "check_stp_at_level A (snapshot_by_seq A l) u (stp_mode_of (sw_book sw)) = CancelTaker q"
      "(if 0 < min (level_qty_cap (sw_stop sw) p lot) q
        then match_and_process A i s TakerStandard ts (min (level_qty_cap (sw_stop sw) p lot) q) p l sw
        else (l, sw)) = (l1, sw1)"
      "sw' = sw1\<lparr>sw_stp_cancelled := True\<rparr>" "stop"
  | (both) q j l1 sw1 l2 b2 where "\<not> beyond_limit s limit p" "0 < level_qty_cap (sw_stop sw) p lot" "stp"
      "check_stp_at_level A (snapshot_by_seq A l) u (stp_mode_of (sw_book sw)) = CancelBoth q j"
      "(if 0 < min (level_qty_cap (sw_stop sw) p lot) q
        then match_and_process A i s TakerStandard ts (min (level_qty_cap (sw_stop sw) p lot) q) p l sw
        else (l, sw)) = (l1, sw1)"
      "cancel_resting_maker_on_level A l1 (opposite s) j SelfTradePrevention (sw_book sw1) = (l2, b2)"
      "sw' = sw1\<lparr>sw_book := put_level b2 (opposite s) p l2,
         sw_empty := (if order_count A l2 = 0 then sw_empty sw1 @ [p] else sw_empty sw1),
         sw_stp_cancelled := True\<rparr>" "stop"
proof (cases "beyond_limit s limit p \<or> level_qty_cap (sw_stop sw) p lot = 0")
  case True
  then show ?thesis using assms by (intro that(1)) (auto simp: sweep_level_def Let_def split: if_splits)
next
  case False
  let ?cap = "level_qty_cap (sw_stop sw) p lot"
  have f: "\<not> beyond_limit s limit p" "0 < ?cap" using False by auto
  have eq: "(let (step, l1, sw1) = (if stp then stp_block A i s u TakerStandard ts ?cap p l sw else (FallThrough, l, sw))
      in case step of Break \<Rightarrow> (True, sw1) | Continue \<Rightarrow> (False, sw1)
         | FallThrough \<Rightarrow> (let (l2, sw2) = match_and_process A i s TakerStandard ts ?cap p l1 sw1
                            in (is_done (sw_stop sw2), sw2))) = (stop, sw')"
    using assms f by (simp add: sweep_level_def Let_def)
  show ?thesis
  proof (cases "stp \<and> check_stp_at_level A (snapshot_by_seq A l) u (stp_mode_of (sw_book sw)) \<noteq> NoConflict")
    case False
    obtain l2 sw2 where m: "match_and_process A i s TakerStandard ts ?cap p l sw = (l2, sw2)" by fastforce
    from False show ?thesis using eq m
      by (intro that(2) [OF f, of l2]) (auto simp: stp_block_def Let_def split: if_splits)
  next
    case True
    then have stp: "stp" by simp
    show ?thesis
    proof (cases "check_stp_at_level A (snapshot_by_seq A l) u (stp_mode_of (sw_book sw))")
      case NoConflict
      then show ?thesis using True by simp
    next
      case (CancelTaker q)
      obtain l1 sw1 where m: "(if 0 < min ?cap q then match_and_process A i s TakerStandard ts (min ?cap q) p l sw
          else (l, sw)) = (l1, sw1)" by fastforce
      show ?thesis using eq CancelTaker m
        by (intro that(5) [OF f stp CancelTaker m]) (auto simp: stp_block_def Let_def stp split: if_splits)
    next
      case CancelMaker
      obtain l1 b1 where c: "cancel_own_makers A (opposite s) u (snapshot_by_seq A l) l (sw_book sw) = (l1, b1)"
        by fastforce
      show ?thesis
      proof (cases "order_count A l1 = 0")
        case True
        show ?thesis using eq CancelMaker c True
          by (intro that(4) [OF f(1) stp CancelMaker c True]) (auto simp: stp_block_def Let_def stp)
      next
        case False
        obtain l2 sw2 where m: "match_and_process A i s TakerStandard ts ?cap p l1
            (sw\<lparr>sw_book := put_level b1 (opposite s) p l1\<rparr>) = (l2, sw2)" by fastforce
        show ?thesis using eq CancelMaker c False m
          by (intro that(3) [OF f stp CancelMaker c, of l2]) (auto simp: stp_block_def Let_def stp)
      qed
    next
      case (CancelBoth q j)
      obtain l1 sw1 where m: "(if 0 < min ?cap q then match_and_process A i s TakerStandard ts (min ?cap q) p l sw
          else (l, sw)) = (l1, sw1)" by fastforce
      obtain l2 b2 where c: "cancel_resting_maker_on_level A l1 (opposite s) j SelfTradePrevention (sw_book sw1) = (l2, b2)"
        by fastforce
      show ?thesis using eq CancelBoth m c
        by (intro that(6) [OF f stp CancelBoth m c]) (auto simp: stp_block_def Let_def stp split: if_splits)
    qed
  qed
qed

text \<open>Every trade of an iteration is made by one call of \<open>match_and_process\<close>, with a quantity
  within the cap, on a level at the visited price; with self-trade prevention no maker of the
  taker's user takes part.\<close>

lemma sweep_level_result:
  assumes "sweep_level A i s limit lot u stp TakerStandard ts p l sw = (stop, sw')" "ok l"
    and stp: "stp \<longrightarrow> is_enabled (stp_mode_of (sw_book sw)) \<and> u \<noteq> 0"
  obtains
    (same) "sw_result sw' = sw_result sw" "sw_stop sw' = sw_stop sw"
  | (traded) q l1 sw1 l2 sw2 where "\<not> beyond_limit s limit p" "0 < q" "q \<le> level_qty_cap (sw_stop sw) p lot"
      "ok l1" "level_price A l1 = level_price A l" "ids (snapshot_by_seq A l1) \<subseteq> ids (snapshot_by_seq A l)"
      "sw_result sw1 = sw_result sw" "sw_stop sw1 = sw_stop sw"
      "match_and_process A i s TakerStandard ts q p l1 sw1 = (l2, sw2)"
      "sw_result sw' = sw_result sw2" "sw_stop sw' = sw_stop sw2"
      "\<And>m l' g g'. stp \<Longrightarrow> i \<notin> ids (snapshot_by_seq A l) \<Longrightarrow>
         level_match A l1 q i Gtc TakerStandard ts g = (m, l', g') \<Longrightarrow> no_self u (snapshot_by_seq A l) (mr_trades m)"
proof -
  let ?S = "snapshot_by_seq A l"
  have in_level: "maker_order_id t \<in> ids (snapshot_by_seq A k)"
    if "ok k" "level_match A k q i Gtc TakerStandard ts g = (m, l', g')" "t \<in> set (mr_trades m)" for k q g m l' g' t
    using match_trade [OF that] by simp
  have prefix: "no_self u ?S (mr_trades m)"
    if m: "level_match A l q i Gtc TakerStandard ts g = (m, l', g')" and i: "i \<notin> ids ?S"
      and xs: "?S = xs @ ys" "\<forall>x \<in> set xs. ouser x \<noteq> u" and q: "q \<le> sum_of (visible_of A) xs"
    for q m l' g g' xs ys
  proof -
    have "maker_order_id t \<in> ids xs" if "t \<in> set (mr_trades m)" for t
      by (rule match_fifo [OF assms(2) m xs(1) q _ that]) (use i xs(1) in auto)
    then show ?thesis using xs unfolding no_self_def by force
  qed
  from assms(1) show thesis
  proof (cases rule: sweep_level_cases)
    case halt
    then show ?thesis by (intro same) simp_all
  next
    case (plain l2)
    have "no_self u ?S (mr_trades m)" if "stp" "level_match A l (level_qty_cap (sw_stop sw) p lot) i Gtc TakerStandard ts g = (m, l', g')" for m l' g g'
      using in_level [OF assms(2) that(2)] plain(3) [OF that(1)] stp that(1)
        check_stp_NoConflict_iff [of "stp_mode_of (sw_book sw)" u A ?S]
      by (fastforce simp: no_self_def is_enabled_def)
    then show ?thesis using plain assms(2) by (intro traded [of _ l sw l2 sw']) simp_all
  next
    case (own l1 b1 l2)
    note l1 = cancel_own_all [OF own(5) assms(2)]
    have "no_self u ?S (mr_trades m)" if "level_match A l1 (level_qty_cap (sw_stop sw) p lot) i Gtc TakerStandard ts g = (m, l', g')" for m l' g g'
      using in_level [OF l1(1) that] l1(4) by (fastforce simp: no_self_def)
    then show ?thesis using own l1
      by (intro traded [of "level_qty_cap (sw_stop sw) p lot" l1 "sw\<lparr>sw_book := put_level b1 (opposite s) p l1\<rparr>" l2 sw'])
        auto
  next
    case (own_empty l1 b1)
    then show ?thesis by (intro same) simp_all
  next
    case (taker q l1 sw1)
    show ?thesis
    proof (cases "0 < min (level_qty_cap (sw_stop sw) p lot) q")
      case True
      from taker(4) obtain od xs ys where xs: "?S = xs @ od # ys" "\<forall>x \<in> set xs. ouser x \<noteq> u"
        "q = min (sum_of (visible_of A) xs) u64_max" by (rule check_stp_CancelTakerE)
      have "no_self u ?S (mr_trades m)" if "i \<notin> ids ?S"
        "level_match A l (min (level_qty_cap (sw_stop sw) p lot) q) i Gtc TakerStandard ts g = (m, l', g')" for m l' g g'
        using xs(3) by (intro prefix [OF that(2,1) xs(1,2)]) simp
      then show ?thesis using taker True assms(2)
        by (intro traded [of "min (level_qty_cap (sw_stop sw) p lot) q" l sw l1 sw1]) simp_all
    next
      case False
      then show ?thesis using taker by (intro same) auto
    qed
  next
    case (both q j l1 sw1 l2 b2)
    show ?thesis
    proof (cases "0 < min (level_qty_cap (sw_stop sw) p lot) q")
      case True
      from both(4) obtain od xs ys where xs: "?S = xs @ od # ys" "\<forall>x \<in> set xs. ouser x \<noteq> u"
        "q = min (sum_of (visible_of A) xs) u64_max" by (rule check_stp_CancelBothE)
      have "no_self u ?S (mr_trades m)" if "i \<notin> ids ?S"
        "level_match A l (min (level_qty_cap (sw_stop sw) p lot) q) i Gtc TakerStandard ts g = (m, l', g')" for m l' g g'
        using xs(3) by (intro prefix [OF that(2,1) xs(1,2)]) simp
      then show ?thesis using both True assms(2)
        by (intro traded [of "min (level_qty_cap (sw_stop sw) p lot) q" l sw l1 sw1]) simp_all
    next
      case False
      then show ?thesis using both by (intro same) auto
    qed
  qed
qed

end

section \<open>The loop\<close>

lemma sweep_levels_induct:
  assumes "I ls sw"
    and "\<And>sw. I [] sw \<Longrightarrow> Q sw"
    and "\<And>p l rest sw stop sw'. I ((p, l) # rest) sw \<Longrightarrow>
       sweep_level A i s limit lot u stp kind ts p l sw = (stop, sw') \<Longrightarrow> (if stop then Q sw' else I rest sw')"
  shows "Q (sweep_levels A i s limit lot u stp kind ts ls sw)"
  using assms(1)
proof (induction ls arbitrary: sw)
  case (Cons e ls)
  obtain p l where e: "e = (p, l)" by fastforce
  obtain stop sw' where st: "sweep_level A i s limit lot u stp kind ts p l sw = (stop, sw')" by fastforce
  from assms(3) [OF Cons.prems [unfolded e] st] show ?case
    using Cons.IH by (simp add: e st)
qed (simp add: assms(2))

end
