(* ===== verification/Demo_Book.thy ===== *)
theory Demo_Book
  imports Sweep "HOL-Library.Code_Target_Nat"
begin

text \<open>
  A small concrete book on the reference level, on which the witnesses run the operations.
  Two ask levels, one with two orders of different users, and one bid level; indices filled in.
\<close>

definition ask_100 :: fifo_level where
  "ask_100 = \<lparr>fl_price = 100, fl_orders =
     [Standard 1 100 5 Sell 7 0 Gtc (), Standard 2 100 4 Sell 8 0 Gtc ()]\<rparr>"

definition ask_101 :: fifo_level where
  "ask_101 = \<lparr>fl_price = 101, fl_orders = [Standard 3 101 6 Sell 7 0 Gtc ()]\<rparr>"

definition bid_98 :: fifo_level where
  "bid_98 = \<lparr>fl_price = 98, fl_orders = [Standard 4 98 3 Buy 9 0 (Gtd 50) ()]\<rparr>"

definition demo_book :: "(fifo_level, nat) book" where
  "demo_book = (with_clock ''DEMO'' stub_new 0)
     \<lparr>asks := [(100, ask_100), (101, ask_101)], bids := [(98, bid_98)],
      order_locations := [1 \<mapsto> (100, Sell), 2 \<mapsto> (100, Sell), 3 \<mapsto> (101, Sell), 4 \<mapsto> (98, Buy)],
      user_orders := [(7, [1, 3]), (8, [2]), (9, [4])]\<rparr>"

lemmas demo_defs = demo_book_def ask_100_def ask_101_def bid_98_def with_clock_def stub_new_def
  risk_state_new_def cache_new_def

lemma demo_sm_get:
  "sm_get (levels demo_book Sell) p = (if p = 100 then Some ask_100 else if p = 101 then Some ask_101 else None)"
  "sm_get (levels demo_book Buy) p = (if p = 98 then Some bid_98 else None)"
  by (auto simp: demo_book_def sm_get_def)

lemma demo_levels_wf: "levels_wf fifo fifo_ok demo_book"
proof -
  have "sm_invar (levels demo_book s)" for s
    by (cases s) (simp_all add: demo_book_def sm_invar_def)
  moreover have "fifo_ok l \<and> level_price fifo l = p" if "sm_get (levels demo_book s) p = Some l" for s p l
    using that by (cases s) (auto simp: demo_sm_get fifo_ok_def ask_100_def ask_101_def bid_98_def simp del: levels_simps split: if_splits)
  ultimately show ?thesis by (simp add: levels_wf_def)
qed

lemma demo_resting:
  "resting fifo demo_book = {(1, 7, 100, Sell), (2, 8, 100, Sell), (3, 7, 101, Sell), (4, 9, 98, Buy)}"
proof -
  have "(i, u, p, s) \<in> resting fifo demo_book \<longleftrightarrow>
      (i, u, p, s) \<in> {(1, 7, 100, Sell), (2, 8, 100, Sell), (3, 7, 101, Sell), (4, 9, 98, Buy)}" for i u p s
    unfolding resting_iff
    by (cases s) (auto simp: demo_sm_get ask_100_def ask_101_def bid_98_def simp del: levels_simps split: if_splits)
  then show ?thesis by auto
qed

lemma demo_book_inv: "book_inv fifo fifo_ok demo_book"
proof -
  have "no_empty fifo demo_book"
    unfolding no_empty_def
  proof (intro allI impI)
    show "snapshot_by_seq fifo l \<noteq> []" if "sm_get (levels demo_book s) p = Some l" for s p l
      using that by (cases s) (auto simp: demo_sm_get ask_100_def ask_101_def bid_98_def simp del: levels_simps split: if_splits)
  qed
  moreover have "loc_idx (order_locations demo_book) (resting fifo demo_book)"
    unfolding demo_resting loc_idx_def by (auto simp: demo_book_def split: if_splits)
  moreover have "usr_idx (user_orders demo_book) (resting fifo demo_book)"
    unfolding demo_resting usr_idx_def by (auto simp: owned_def demo_book_def split: if_splits)
  moreover have "cache_ok demo_book" by (simp add: cache_ok_def demo_defs get_cached_best_bid_def get_cached_best_ask_def)
  ultimately show ?thesis using demo_levels_wf by (simp add: book_inv_def)
qed

lemma returns_okE:
  assumes "\<not> isl (fst x)" obtains r b where "x = (Inr r, b)"
  using assms by (cases x; cases "fst x") auto

end
