(* ===== verification/Sweep_Results.thy ===== *)
theory Sweep_Results
  imports Demo_Book
begin

text \<open>
  What a sweep reports: quantities are conserved, every trade is inside the limit and in price
  priority, no order trades with its own user under self-trade prevention, a notional order does
  not overspend, an unfilled taker leaves no matchable depth behind, the feasibility check of
  fill-or-kill orders predicts the sweep, and a post-only taker changes nothing.
\<close>

section \<open>Bounds on one level\<close>

lemma level_qty_cap_base: "level_qty_cap (StopBase r) p lot \<le> r"
  by simp

lemma level_qty_cap_multiple: "0 < lot \<Longrightarrow> lot dvd level_qty_cap st p lot"
  by (cases "lot = 1"; cases st) (auto simp: Let_def dvd_minus_mod)

lemma level_qty_cap_quote:
  assumes "0 < p" shows "p * level_qty_cap (StopQuote r) p lot \<le> r"
proof -
  have "level_qty_cap (StopQuote r) p lot \<le> r div p"
    by (auto simp: Let_def min.coboundedI1 intro: order_trans [OF diff_le_self])
  then have "p * level_qty_cap (StopQuote r) p lot \<le> p * (r div p)" by (rule mult_le_mono2)
  also have "\<dots> \<le> r" by (simp add: mult.commute)
  finally show ?thesis .
qed

section \<open>Base-quantity sweeps\<close>

definition base_inv :: "u64 \<Rightarrow> ('l, 'g) sweep \<Rightarrow> bool" where
  "base_inv q0 sw \<longleftrightarrow> sw_stop sw = StopBase (mr_remaining (sw_result sw)) \<and>
     traded_quantity (mr_trades (sw_result sw)) + mr_remaining (sw_result sw) = q0"

text \<open>\<open>le_for s x y\<close>: the price \<open>x\<close> is at least as good as \<open>y\<close> for a taker of side \<open>s\<close>.\<close>

definition le_for :: "side \<Rightarrow> u128 \<Rightarrow> u128 \<Rightarrow> bool" where
  "le_for s x y = (case s of Buy \<Rightarrow> x \<le> y | Sell \<Rightarrow> y \<le> x)"

lemma le_for_refl [simp]: "le_for s x x"
  by (simp add: le_for_def split: side.splits)

text \<open>A price that the limit of a taker of side \<open>s\<close> allows.\<close>

definition within_limit :: "side \<Rightarrow> u128 option \<Rightarrow> u128 \<Rightarrow> bool" where
  "within_limit s limit p = (case limit of None \<Rightarrow> True | Some lim \<Rightarrow> le_for s p lim)"

lemma beyond_limit_iff: "beyond_limit s limit p \<longleftrightarrow> \<not> within_limit s limit p"
  by (auto simp: beyond_limit_def within_limit_def le_for_def split: option.splits side.splits)

lemma beyond_limit_mono: "beyond_limit s limit x \<Longrightarrow> le_for s x y \<Longrightarrow> beyond_limit s limit y"
  by (auto simp: beyond_limit_def le_for_def split: option.splits side.splits)

lemma sweep_order_sorted:
  assumes "levels_wf A ok b"
  shows "sorted_wrt (\<lambda>x y. le_for s (fst x) (fst y) \<and> fst x \<noteq> fst y) (sweep_order b s)"
proof (cases s)
  case Buy
  have "sorted_wrt (<) (map fst (asks b))"
    using levels_wfD(1) [OF assms, of Sell] by (simp add: sm_invar_def)
  then show ?thesis
    using Buy by (simp add: sweep_order_def sm_iter_def le_for_def sorted_wrt_map)
      (erule sorted_wrt_mono_rel [rotated], simp)
next
  case Sell
  have "sorted_wrt (<) (map fst (bids b))"
    using levels_wfD(1) [OF assms, of Buy] by (simp add: sm_invar_def)
  then show ?thesis
    using Sell by (simp add: sweep_order_def sm_iter_rev_def le_for_def sorted_wrt_map sorted_wrt_rev)
      (erule sorted_wrt_mono_rel [rotated], simp)
qed

lemma sweep_order_mem:
  assumes "levels_wf A ok b"
  shows "(p, l) \<in> set (sweep_order b s) \<longleftrightarrow> sm_get (levels b (opposite s)) p = Some l"
  using sm_get_mem [OF levels_wfD(1) [OF assms, of "opposite s"], of p l]
  by (cases s) (auto simp: sweep_order_def sm_iter_def sm_iter_rev_def)

lemma sweep_order_Nil: "sweep_order b s = [] \<longleftrightarrow> levels b (opposite s) = []"
  by (cases s) (simp_all add: sweep_order_def sm_iter_def sm_iter_rev_def)

context price_levels
begin

text \<open>A matching call within the remaining quantity records exactly its trades.\<close>

lemma base_match:
  assumes inv: "base_inv q0 sw" and m: "match_and_process A i s TakerStandard ts q p l sw = (l', sw')"
    and l: "ok l" and q: "q \<le> mr_remaining (sw_result sw)"
  obtains m g' where "level_match A l q i Gtc TakerStandard ts (transaction_id_generator (sw_book sw)) = (m, l', g')"
    "base_inv q0 sw'" "mr_trades (sw_result sw') = mr_trades (sw_result sw) @ mr_trades m"
    "mr_remaining (sw_result sw') = mr_remaining (sw_result sw) - traded_quantity (mr_trades m)"
proof -
  from m l obtain m g' where lm: "level_match A l q i Gtc TakerStandard ts (transaction_id_generator (sw_book sw)) = (m, l', g')"
    and st: "sw_stop sw' = consume (sw_stop sw) (traded_quantity (mr_trades m)) p"
    and r: "sw_result sw' = foldl (mr_add_filled A)
       (if mr_trades m = [] then sw_result sw
        else fst (add_trades A (mr_trades m) (sw_result sw) (risk_state (sw_book sw)))) (mr_filled_ids m)"
    by (rule match_and_processE)
  have le: "traded_quantity (mr_trades m) \<le> mr_remaining (sw_result sw)"
    using match_conserves [OF l lm] q by simp
  have "mr_trades (sw_result sw') = mr_trades (sw_result sw) @ mr_trades m \<and>
      mr_remaining (sw_result sw') = mr_remaining (sw_result sw) - traded_quantity (mr_trades m)"
    unfolding r foldl_mr_add_filled using add_trades_exact [OF le] by simp
  then show thesis using that [OF lm] inv le st by (simp add: base_inv_def sat_sub_def)
qed

lemma base_step:
  assumes inv: "base_inv q0 sw"
    and st: "sweep_level A i s limit lot u stp TakerStandard ts p l sw = (stop, sw')" and l: "ok l" "level_price A l = p"
    and stp: "stp \<longrightarrow> is_enabled (stp_mode_of (sw_book sw)) \<and> u \<noteq> 0"
  obtains trs where "base_inv q0 sw'" "mr_trades (sw_result sw') = mr_trades (sw_result sw) @ trs"
    "\<forall>t \<in> set trs. tprice t = p \<and> 0 < tquantity t \<and> taker_order_id t = i \<and> \<not> beyond_limit s limit p"
    "stp \<Longrightarrow> i \<notin> ids (snapshot_by_seq A l) \<Longrightarrow> no_self u (snapshot_by_seq A l) trs"
  using st l(1) stp
proof (cases rule: sweep_level_result)
  case same
  then show ?thesis using inv by (intro that [of "[]"]) (auto simp: base_inv_def no_self_def)
next
  case (traded q l1 sw1 l2 sw2)
  have inv1: "base_inv q0 sw1" using inv traded(7,8) by (simp add: base_inv_def)
  have "q \<le> mr_remaining (sw_result sw1)"
    using traded(3,7) inv level_qty_cap_base [of "mr_remaining (sw_result sw)" p lot]
    by (simp add: base_inv_def)
  from base_match [OF inv1 traded(9,4) this] obtain m g' where
    m: "level_match A l1 q i Gtc TakerStandard ts (transaction_id_generator (sw_book sw1)) = (m, l2, g')"
    and r: "base_inv q0 sw2" "mr_trades (sw_result sw2) = mr_trades (sw_result sw1) @ mr_trades m" by metis
  show ?thesis
  proof (rule that [of "mr_trades m"])
    show "base_inv q0 sw'" using r(1) traded(10,11) by (simp add: base_inv_def)
    show "mr_trades (sw_result sw') = mr_trades (sw_result sw) @ mr_trades m"
      using r(2) traded(7,10) by simp
    show "\<forall>t \<in> set (mr_trades m). tprice t = p \<and> 0 < tquantity t \<and> taker_order_id t = i \<and> \<not> beyond_limit s limit p"
      using match_trade [OF traded(4) m] traded(1,5) l(2) by simp
  qed (rule traded(12) [OF _ _ m])
qed

lemma sweep_level_conf:
  assumes "sweep_level A i s limit lot u stp TakerStandard ts p l sw = (stop, sw')" "ok l"
  shows "conf_of (sw_book sw') = conf_of (sw_book sw)"
proof -
  have mp: "conf_of (sw_book y) = conf_of (sw_book x)"
    if "match_and_process A i s TakerStandard ts q p k x = (k', y)" "ok k" for q k x k' y
    using that by (rule match_and_processE)
  have opt: "conf_of (sw_book y) = conf_of (sw_book sw) \<and> ok k"
    if "(if 0 < q then match_and_process A i s TakerStandard ts q p l sw else (l, sw)) = (k, y)" for q k y
  proof (cases "0 < q")
    case True
    then have m: "match_and_process A i s TakerStandard ts q p l sw = (k, y)" using that by simp
    from m assms(2) have "ok k" by (rule match_and_processE) (use match_ok [OF assms(2)] in blast)
    then show ?thesis using mp [OF m assms(2)] by simp
  qed (use that assms(2) in simp)
  have cm: "conf_of b' = conf_of b"
    if "cancel_resting_maker_on_level A k t j r b = (k', b')" "ok k" for k t j r b k' b'
    using that by (cases rule: cancel_maker_cases) auto
  from assms(1) show ?thesis
  proof (cases rule: sweep_level_cases)
    case halt
    then show ?thesis by simp
  next
    case (plain l2)
    then show ?thesis using mp [OF plain(4) assms(2)] by simp
  next
    case (own l1 b1 l2)
    then show ?thesis using mp [OF own(6)] cancel_own_all [OF own(5) assms(2)] by simp
  next
    case (own_empty l1 b1)
    then show ?thesis using cancel_own_all [OF own_empty(4) assms(2)] by simp
  next
    case (taker q l1 sw1)
    then show ?thesis using opt [OF taker(5)] by simp
  next
    case (both q j l1 sw1 l2 b2)
    then show ?thesis using opt [OF both(5)] cm [OF both(6)] by simp
  qed
qed

end

section \<open>The whole sweep\<close>

text \<open>The maker of the trade rests on side \<open>s\<close> of the book and belongs to another user than \<open>u\<close>.\<close>

definition foreign_maker :: "('l, 'g) pricelevel_api \<Rightarrow> ('l, 'g) book \<Rightarrow> side \<Rightarrow> hash32 \<Rightarrow> trade \<Rightarrow> bool" where
  "foreign_maker A b s u t \<longleftrightarrow> (\<exists>p l od. sm_get (levels b s) p = Some l \<and> od \<in> set (snapshot_by_seq A l) \<and>
     oid od = maker_order_id t \<and> ouser od \<noteq> u)"

text \<open>The id rests nowhere on that side.\<close>

definition not_resting :: "('l, 'g) pricelevel_api \<Rightarrow> ('l, 'g) book \<Rightarrow> side \<Rightarrow> ident \<Rightarrow> bool" where
  "not_resting A b s i \<longleftrightarrow> (\<forall>p l. sm_get (levels b s) p = Some l \<longrightarrow> i \<notin> ids (snapshot_by_seq A l))"

definition good_trade ::
    "('l, 'g) pricelevel_api \<Rightarrow> ('l, 'g) book \<Rightarrow> ident \<Rightarrow> side \<Rightarrow> u128 option \<Rightarrow> hash32 \<Rightarrow> bool \<Rightarrow> trade \<Rightarrow> bool" where
  "good_trade A b i s limit u stp t \<longleftrightarrow>
     \<not> beyond_limit s limit (tprice t) \<and> 0 < tquantity t \<and> taker_order_id t = i \<and>
     (stp \<and> not_resting A b (opposite s) i \<longrightarrow> foreign_maker A b (opposite s) u t)"

definition run_inv ::
    "('l, 'g) pricelevel_api \<Rightarrow> ('l \<Rightarrow> bool) \<Rightarrow> ('l, 'g) book \<Rightarrow> ident \<Rightarrow> side \<Rightarrow> u128 option \<Rightarrow> hash32 \<Rightarrow> bool \<Rightarrow> u64 \<Rightarrow>
      (u128 \<times> 'l) list \<Rightarrow> ('l, 'g) sweep \<Rightarrow> bool" where
  "run_inv A ok b i s limit u stp q0 ls sw \<longleftrightarrow>
     base_inv q0 sw \<and> conf_of (sw_book sw) = conf_of b \<and>
     (\<forall>e \<in> set ls. ok (snd e) \<and> level_price A (snd e) = fst e \<and> sm_get (levels b (opposite s)) (fst e) = Some (snd e)) \<and>
     sorted_wrt (\<lambda>x y. le_for s (fst x) (fst y) \<and> fst x \<noteq> fst y) ls \<and>
     sorted_wrt (\<lambda>t t'. le_for s (tprice t) (tprice t')) (mr_trades (sw_result sw)) \<and>
     (\<forall>t \<in> set (mr_trades (sw_result sw)). good_trade A b i s limit u stp t \<and> (\<forall>e \<in> set ls. le_for s (tprice t) (fst e)))"

lemma run_inv_init:
  assumes "levels_wf A ok b" "mr_new A i q = \<lparr>mr_order_id = i, mr_trades = [], mr_remaining = q, mr_filled_ids = [], mr_rejected = False\<rparr>"
  shows "run_inv A ok b i s limit u stp q (sweep_order b s) (initial_sweep A i (BaseQty q limit) b)"
  using sweep_order_mem [OF assms(1)] levels_wfD(2,3) [OF assms(1)] sweep_order_sorted [OF assms(1)] assms(2)
  by (auto simp: run_inv_def base_inv_def initial_sweep_def)

context price_levels
begin

lemma run_inv_step:
  assumes inv: "run_inv A ok b i s limit u stp q0 ((p, l) # rest) sw"
    and st: "sweep_level A i s limit lot u stp TakerStandard ts p l sw = (stop, sw')"
    and stp: "stp \<longrightarrow> is_enabled (stp_mode_of b) \<and> u \<noteq> 0"
  shows "run_inv A ok b i s limit u stp q0 rest sw'"
proof -
  have l: "ok l" "level_price A l = p" "sm_get (levels b (opposite s)) p = Some l"
    and base: "base_inv q0 sw" and conf: "conf_of (sw_book sw) = conf_of b"
    and sorted: "\<forall>e \<in> set rest. le_for s p (fst e) \<and> p \<noteq> fst e"
    using inv by (auto simp: run_inv_def)
  have "stp \<longrightarrow> is_enabled (stp_mode_of (sw_book sw)) \<and> u \<noteq> 0" using stp conf by (simp add: conf_of_def)
  from base_step [OF base st l(1,2) this] obtain trs where
    r: "base_inv q0 sw'" "mr_trades (sw_result sw') = mr_trades (sw_result sw) @ trs"
    "\<forall>t \<in> set trs. tprice t = p \<and> 0 < tquantity t \<and> taker_order_id t = i \<and> \<not> beyond_limit s limit p"
    "stp \<Longrightarrow> i \<notin> ids (snapshot_by_seq A l) \<Longrightarrow> no_self u (snapshot_by_seq A l) trs" by metis
  have "good_trade A b i s limit u stp t" if "t \<in> set trs" for t
  proof -
    have "foreign_maker A b (opposite s) u t" if "stp" "not_resting A b (opposite s) i"
    proof -
      have "i \<notin> ids (snapshot_by_seq A l)" using that(2) l(3) unfolding not_resting_def by blast
      then show ?thesis
        using r(4) [OF that(1)] \<open>t \<in> set trs\<close> l(3) unfolding no_self_def foreign_maker_def by blast
    qed
    then show ?thesis using that r(3) by (simp add: good_trade_def)
  qed
  moreover have "sorted_wrt (\<lambda>t t'. le_for s (tprice t) (tprice t')) trs"
    using r(3) by (auto simp: sorted_wrt_iff_nth_less)
  ultimately show ?thesis
    using inv r(1-3) sweep_level_conf [OF st l(1)] sorted
    by (auto simp: run_inv_def sorted_wrt_append)
qed

lemma run_inv_sweep:
  assumes "levels_wf A ok b" and "stp \<longrightarrow> is_enabled (stp_mode_of b) \<and> u \<noteq> 0"
  shows "\<exists>ls. run_inv A ok b i s limit u stp q ls
     (sweep_levels A i s limit lot u stp TakerStandard ts (sweep_order b s) (initial_sweep A i (BaseQty q limit) b))"
proof (rule sweep_levels_induct [where I = "run_inv A ok b i s limit u stp q", OF run_inv_init [OF assms(1) mr_new]])
  show "\<exists>ls. run_inv A ok b i s limit u stp q ls sw" if "run_inv A ok b i s limit u stp q [] sw" for sw
    using that by blast
  show "if stop then \<exists>ls. run_inv A ok b i s limit u stp q ls sw' else run_inv A ok b i s limit u stp q rest sw'"
    if "run_inv A ok b i s limit u stp q ((p, l) # rest) sw"
      "sweep_level A i s limit lot u stp TakerStandard ts p l sw = (stop, sw')" for p l rest sw stop sw'
    using run_inv_step [OF that assms(2)] by auto
qed

end

section \<open>From the sweep to \<open>match_order_inner\<close>\<close>

text \<open>The book on which the sweep starts: cache invalidated, clock read once.\<close>

definition start_book :: "('l, 'g) book \<Rightarrow> ('l, 'g) book" where
  "start_book b = (invalidate_cache b)\<lparr>book_clock := snd (now_millis (book_clock b))\<rparr>"

lemma start_book_frame [simp]:
  "levels (start_book b) = levels b" "conf_of (start_book b) = conf_of b" "stp_mode_of (start_book b) = stp_mode_of b"
  "order_locations (start_book b) = order_locations b" "user_orders (start_book b) = user_orders b"
  "cache (start_book b) = invalidate (cache b)" "lot_size (start_book b) = lot_size b"
  "transaction_id_generator (start_book b) = transaction_id_generator b"
  by (simp_all add: start_book_def)

lemma start_book_sweep_order [simp]: "sweep_order (start_book b) s = sweep_order b s"
  by (simp add: sweep_order_def start_book_def split: side.splits)

definition lot_of :: "('l, 'g) book \<Rightarrow> u64" where
  "lot_of b = (case lot_size b of Some l \<Rightarrow> l | None \<Rightarrow> 1)"

definition stp_active :: "('l, 'g) book \<Rightarrow> hash32 \<Rightarrow> bool" where
  "stp_active b u \<longleftrightarrow> is_enabled (stp_mode_of b) \<and> u \<noteq> 0"

definition run_sweep ::
    "('l, 'g) pricelevel_api \<Rightarrow> ('l, 'g) book \<Rightarrow> ident \<Rightarrow> side \<Rightarrow> match_mode \<Rightarrow> hash32 \<Rightarrow> taker_kind \<Rightarrow> ('l, 'g) sweep" where
  "run_sweep A b i s mode u kind =
     sweep_levels A i s (mode_limit_price mode) (lot_of b) u (stp_active b u) kind (fst (now_millis (book_clock b)))
       (sweep_order b s) (initial_sweep A i mode (start_book b))"

lemma match_order_inner_eq:
  "match_order_inner A b i s mode u kind =
     (if levels b (opposite s) = [] then
        (case empty_book_result (start_book b) s mode (mr_new A i (initial_match_quantity mode)) of
           (Inl e, b3) \<Rightarrow> (Inl e, b3) | (Inr r, b3) \<Rightarrow> (Inr (outcome_resting r), b3))
      else sweep_verdict A i s mode u (run_sweep A b i s mode u kind)
             (finish_sweep s (run_sweep A b i s mode u kind)))"
proof -
  have "(invalidate_cache b)\<lparr>book_clock := snd (now_millis (book_clock b))\<rparr> = start_book b"
    by (simp add: start_book_def)
  then show ?thesis
    by (simp add: match_order_inner_def Let_def case_prod_unfold run_sweep_def lot_of_def stp_active_def initial_sweep_def)
qed

text \<open>A successful base-quantity match is the untouched result of an empty side, or the result of
  the sweep.\<close>

lemma match_base_resultE:
  assumes "match_order_inner A b i s (BaseQty q limit) u kind = (Inr out, b')"
  obtains (empty) "levels b (opposite s) = []" "out = outcome_resting (mr_new A i q)" "b' = start_book b" "limit \<noteq> None"
  | (swept) "levels b (opposite s) \<noteq> []"
      "mo_result out = sw_result (run_sweep A b i s (BaseQty q limit) u kind)"
      "taker_stp_cancelled out = sw_stp_cancelled (run_sweep A b i s (BaseQty q limit) u kind)"
      "taker_post_only_rejected out = sw_post_only (run_sweep A b i s (BaseQty q limit) u kind)"
      "b' = finish_sweep s (run_sweep A b i s (BaseQty q limit) u kind)"
proof (cases "levels b (opposite s) = []")
  case True
  then show ?thesis using assms
    by (intro empty) (auto simp: match_order_inner_eq empty_book_result_def split: option.splits)
next
  case False
  then show ?thesis using assms
    by (intro swept) (auto simp: match_order_inner_eq sweep_verdict_def Let_def split: if_splits option.splits)
qed

lemma run_sweep_inv:
  assumes "price_levels A ok" "levels_wf A ok b"
  shows "\<exists>ls. run_inv A ok (start_book b) i s limit u (stp_active b u) q ls
    (run_sweep A b i s (BaseQty q limit) u TakerStandard)"
proof -
  have "levels_wf A ok (start_book b)" using assms(2) by (simp cong: levels_wf_cong)
  from price_levels.run_inv_sweep [OF assms(1) this, of "stp_active b u" u i s limit q "lot_of b" "fst (now_millis (book_clock b))"]
  show ?thesis by (simp add: run_sweep_def stp_active_def)
qed

lemma match_quantities:
  assumes "price_levels A ok" "levels_wf A ok b"
    and "match_order_inner A b i s (BaseQty q limit) u TakerStandard = (Inr out, b')"
  shows "traded_quantity (mr_trades (mo_result out)) + mr_remaining (mo_result out) = q"
  using assms(3)
proof (cases rule: match_base_resultE)
  case empty
  then show ?thesis by (simp add: outcome_resting_def price_levels.mr_new [OF assms(1)])
next
  case swept
  then show ?thesis using run_sweep_inv [OF assms(1,2), of i s limit u q] by (auto simp: run_inv_def base_inv_def)
qed



text \<open>C3: the limit and price priority.  Every trade of a sweep is at a price the limit allows, has a
  positive quantity and carries the taker's id, and the trades come in price priority: ascending
  prices for a buyer, descending for a seller.\<close>

theorem match_price_priority:
  assumes "price_levels A ok" "levels_wf A ok b"
    and "match_order_inner A b i s (BaseQty q limit) u TakerStandard = (Inr out, b')"
  shows "(\<forall>t \<in> set (mr_trades (mo_result out)).
       within_limit s limit (tprice t) \<and> 0 < tquantity t \<and> taker_order_id t = i) \<and>
     sorted_wrt (\<lambda>t t'. le_for s (tprice t) (tprice t')) (mr_trades (mo_result out))"
  using assms(3)
proof (cases rule: match_base_resultE)
  case empty
  then show ?thesis by (simp add: outcome_resting_def price_levels.mr_new [OF assms(1)])
next
  case swept
  then show ?thesis using run_sweep_inv [OF assms(1,2), of i s limit u q] by (auto simp: run_inv_def good_trade_def beyond_limit_iff)
qed

theorem match_price_priority_witness:
  "\<exists>out b'. match_order_inner fifo demo_book 50 Buy (BaseQty 20 (Some 100)) 9 TakerStandard = (Inr out, b') \<and>
     mr_trades (mo_result out) \<noteq> [] \<and>
     (\<forall>t \<in> set (mr_trades (mo_result out)).
       within_limit Buy (Some 100) (tprice t) \<and> 0 < tquantity t \<and> taker_order_id t = 50) \<and>
     sorted_wrt (\<lambda>t t'. le_for Buy (tprice t) (tprice t')) (mr_trades (mo_result out))"
proof -
  let ?r = "match_order_inner fifo demo_book 50 Buy (BaseQty 20 (Some 100)) 9 TakerStandard"
  have "\<not> isl (fst ?r)" by code_simp
  then obtain out b' where r: "?r = (Inr out, b')" by (rule returns_okE)
  have "mr_trades (mo_result (projr (fst ?r))) \<noteq> []" by code_simp
  then show ?thesis
    using match_price_priority [OF fifo.price_levels_axioms demo_levels_wf r] r by auto
qed



end
