(* ===== verification/Sweep_Modes.thy ===== *)
theory Sweep_Modes
  imports Sweep_Results
begin

text \<open>
  The other modes of a sweep: notional orders, fill-or-kill feasibility, post-only takers, and what
  an unfilled taker leaves behind.
\<close>

section \<open>Notional orders\<close>

definition quote_inv :: "u128 \<Rightarrow> ('l, 'g) sweep \<Rightarrow> bool" where
  "quote_inv amount sw \<longleftrightarrow> (\<exists>r. sw_stop sw = StopQuote r \<and>
     traded_value (mr_trades (sw_result sw)) + r \<le> amount \<and>
     traded_quantity (mr_trades (sw_result sw)) + mr_remaining (sw_result sw) = u64_max)"

lemma traded_value_at: "\<forall>t \<in> set trs. tprice t = p \<Longrightarrow> traded_value trs = p * traded_quantity trs"
  by (induction trs) (auto simp: algebra_simps)

lemma cap_price_pos: "0 < level_qty_cap (StopQuote r) p lot \<Longrightarrow> 0 < p"
  by (auto split: if_splits)

context price_levels
begin

lemma quote_match:
  assumes inv: "quote_inv amount sw" and amount: "amount \<le> u128_max"
    and m: "match_and_process A i s TakerStandard ts q p l sw = (l', sw')"
    and l: "ok l" "level_price A l = p" and q: "0 < q" "q \<le> level_qty_cap (sw_stop sw) p lot"
  shows "quote_inv amount sw'"
proof -
  obtain r where r: "sw_stop sw = StopQuote r" "traded_value (mr_trades (sw_result sw)) + r \<le> amount"
    "traded_quantity (mr_trades (sw_result sw)) + mr_remaining (sw_result sw) = u64_max"
    using inv unfolding quote_inv_def by blast
  from m l(1) obtain m g' where lm: "level_match A l q i Gtc TakerStandard ts (transaction_id_generator (sw_book sw)) = (m, l', g')"
    and st: "sw_stop sw' = consume (sw_stop sw) (traded_quantity (mr_trades m)) p"
    and res: "sw_result sw' = foldl (mr_add_filled A)
       (if mr_trades m = [] then sw_result sw
        else fst (add_trades A (mr_trades m) (sw_result sw) (risk_state (sw_book sw)))) (mr_filled_ids m)"
    by (rule match_and_processE)
  have val: "traded_value (mr_trades m) = p * traded_quantity (mr_trades m)"
    using match_trade [OF l(1) lm] l(2) by (intro traded_value_at) simp
  have "p * traded_quantity (mr_trades m) \<le> p * q"
    using match_conserves [OF l(1) lm] by (intro mult_le_mono2) simp
  also have "\<dots> \<le> p * level_qty_cap (StopQuote r) p lot" using q(2) r(1) by (intro mult_le_mono2) simp
  also have "\<dots> \<le> r" using q r(1) cap_price_pos [of r p lot] by (intro level_qty_cap_quote) simp
  finally have le: "p * traded_quantity (mr_trades m) \<le> r" .
  then have "sat_mul128 p (traded_quantity (mr_trades m)) = p * traded_quantity (mr_trades m)"
    using r(2) amount by (intro sat_mul128_exact) linarith
  then have stop: "sw_stop sw' = StopQuote (r - p * traded_quantity (mr_trades m))"
    using st r(1) by (simp add: sat_sub_def)
  obtain us where us: "mr_trades (sw_result sw') = mr_trades (sw_result sw) @ us"
    "traded_value us \<le> traded_value (mr_trades m)"
    "traded_quantity us + mr_remaining (sw_result sw') = mr_remaining (sw_result sw)"
    using add_trades_some [of "mr_trades m" "sw_result sw" "risk_state (sw_book sw)"]
    unfolding res foldl_mr_add_filled by (cases "mr_trades m = []") auto
  show ?thesis using stop us r(2,3) le val unfolding quote_inv_def by auto
qed

lemma quote_sweep:
  assumes "levels_wf A ok b" "amount \<le> u128_max" "stp \<longrightarrow> is_enabled (stp_mode_of b) \<and> u \<noteq> 0"
  shows "quote_inv amount (sweep_levels A i s limit lot u stp TakerStandard ts (sweep_order b s)
      (initial_sweep A i (QuoteAmount amount) b))"
proof (rule sweep_levels_induct [where I = "\<lambda>ls sw. quote_inv amount sw \<and> conf_of (sw_book sw) = conf_of b \<and>
      (\<forall>e \<in> set ls. ok (snd e) \<and> level_price A (snd e) = fst e)"])
  show "quote_inv amount (initial_sweep A i (QuoteAmount amount) b) \<and>
     conf_of (sw_book (initial_sweep A i (QuoteAmount amount) b)) = conf_of b \<and>
     (\<forall>e \<in> set (sweep_order b s). ok (snd e) \<and> level_price A (snd e) = fst e)"
    using sweep_order_mem [OF assms(1)] levels_wfD(2,3) [OF assms(1)]
    by (auto simp: quote_inv_def initial_sweep_def mr_new)
  show "if stop then quote_inv amount sw' else quote_inv amount sw' \<and> conf_of (sw_book sw') = conf_of b \<and>
      (\<forall>e \<in> set rest. ok (snd e) \<and> level_price A (snd e) = fst e)"
    if I: "quote_inv amount sw \<and> conf_of (sw_book sw) = conf_of b \<and>
        (\<forall>e \<in> set ((p, l) # rest). ok (snd e) \<and> level_price A (snd e) = fst e)"
      and st: "sweep_level A i s limit lot u stp TakerStandard ts p l sw = (stop, sw')" for p l rest sw stop sw'
  proof -
    have l: "ok l" "level_price A l = p" and stp: "stp \<longrightarrow> is_enabled (stp_mode_of (sw_book sw)) \<and> u \<noteq> 0"
      using I assms(3) by (auto simp: conf_of_def)
    have "quote_inv amount sw'"
      using st l(1) stp
    proof (cases rule: sweep_level_result)
      case same
      then show ?thesis using I by (simp add: quote_inv_def)
    next
      case (traded q l1 sw1 l2 sw2)
      have "quote_inv amount sw1" using I traded(7,8) by (simp add: quote_inv_def)
      from quote_match [OF this assms(2) traded(9,4) _ traded(2)] traded l
      show ?thesis by (simp add: quote_inv_def)
    qed
    then show ?thesis using I sweep_level_conf [OF st l(1)] by simp
  qed
qed simp

lemma rebuild_trades_exact:
  "traded_quantity ts \<le> mr_remaining r \<Longrightarrow> rebuild_trades A ts r =
     Some (r\<lparr>mr_trades := mr_trades r @ ts, mr_remaining := mr_remaining r - traded_quantity ts\<rparr>)"
  by (induction ts arbitrary: r) (auto simp: mr_add_trade)

lemma foldl_sat_add64: "n + traded_quantity ts \<le> u64_max \<Longrightarrow> foldl sat_add64 n (map tquantity ts) = n + traded_quantity ts"
  by (induction ts arbitrary: n) (auto simp: sat_add64_def)

lemma normalize_exact:
  "traded_quantity (mr_trades src) \<le> u64_max \<Longrightarrow>
   mr_trades (normalize_notional_match_result A i src) = mr_trades src \<and>
   mr_remaining (normalize_notional_match_result A i src) = 0"
  using foldl_sat_add64 [of 0 "mr_trades src"]
    rebuild_trades_exact [of "mr_trades src" "mr_new A i (traded_quantity (mr_trades src))"]
  by (simp add: normalize_notional_match_result_def Let_def mr_new foldl_mr_add_filled)

end

text \<open>C12: a notional order never overspends.  A market order for a quote amount spends at most that
  amount over all its trades, whatever the lot size and the self-trade mode, and its result
  reports no remaining base quantity.\<close>

theorem notional_never_overspends:
  assumes "price_levels A ok" "levels_wf A ok b" "amount \<le> u128_max"
    and "match_order_by_amount_with_user A b i s amount u = (Inr result, b')"
  shows "traded_value (mr_trades result) \<le> amount \<and> mr_remaining result = 0"
proof -
  let ?sw = "run_sweep A b i s (QuoteAmount amount) u TakerStandard"
  have wf: "levels_wf A ok (start_book b)" using assms(2) by (simp cong: levels_wf_cong)
  have inv: "quote_inv amount ?sw"
    using price_levels.quote_sweep [OF assms(1) wf assms(3), of "stp_active b u" u i s None "lot_of b"
        "fst (now_millis (book_clock b))"]
    by (simp add: run_sweep_def stp_active_def)
  have "result = normalize_notional_match_result A i (sw_result ?sw)"
    using assms(4)
    by (auto simp: match_order_by_amount_with_user_def outcome_result_def match_order_inner_eq empty_book_result_def
        sweep_verdict_def Let_def split: if_splits sum.splits prod.splits)
  moreover have "traded_quantity (mr_trades (sw_result ?sw)) \<le> u64_max"
    and "traded_value (mr_trades (sw_result ?sw)) \<le> amount"
    using inv by (auto simp: quote_inv_def)
  ultimately show ?thesis using price_levels.normalize_exact [OF assms(1)] by metis
qed

theorem notional_never_overspends_witness:
  "\<exists>result b'. match_order_by_amount_with_user fifo demo_book 50 Buy 1050 9 = (Inr result, b') \<and>
     traded_value (mr_trades result) = 1001 \<and> traded_value (mr_trades result) \<le> 1050 \<and> mr_remaining result = 0"
proof -
  let ?r = "match_order_by_amount_with_user fifo demo_book 50 Buy 1050 9"
  have "\<not> isl (fst ?r)" by code_simp
  then obtain result b' where r: "?r = (Inr result, b')" by (rule returns_okE)
  have "traded_value (mr_trades (projr (fst ?r))) = 1001" by code_simp
  then show ?thesis
    using notional_never_overspends [OF fifo.price_levels_axioms demo_levels_wf _ r] r by (auto simp: u128_max_def)
qed

section \<open>Fill-or-kill feasibility\<close>

context price_levels
begin

lemma sweep_level_no_stp:
  assumes "sweep_level A i s limit lot u False TakerStandard ts p l sw = (stop, sw')" "ok l" "base_inv q0 sw"
  obtains (halt) "beyond_limit s limit p \<or> level_qty_cap (sw_stop sw) p lot = 0" "stop" "sw' = sw"
  | (matched) m l2 g' where "\<not> beyond_limit s limit p" "0 < level_qty_cap (sw_stop sw) p lot"
      "level_match A l (level_qty_cap (sw_stop sw) p lot) i Gtc TakerStandard ts
         (transaction_id_generator (sw_book sw)) = (m, l2, g')"
      "base_inv q0 sw'" "mr_trades (sw_result sw') = mr_trades (sw_result sw) @ mr_trades m"
      "mr_remaining (sw_result sw') = mr_remaining (sw_result sw) - traded_quantity (mr_trades m)"
      "levels (sw_book sw') = levels (put_level (sw_book sw) (opposite s) p l2)"
      "stop \<longleftrightarrow> mr_remaining (sw_result sw') = 0"
  using assms(1)
proof (cases rule: sweep_level_cases)
  case halt
  then show ?thesis by (rule that(1))
next
  case (plain l2)
  have "level_qty_cap (sw_stop sw) p lot \<le> mr_remaining (sw_result sw)"
    using assms(3) level_qty_cap_base [of _ p lot] by (simp add: base_inv_def)
  from base_match [OF assms(3) plain(4) assms(2) this] obtain m g' where
    m: "level_match A l (level_qty_cap (sw_stop sw) p lot) i Gtc TakerStandard ts
         (transaction_id_generator (sw_book sw)) = (m, l2, g')" "base_inv q0 sw'"
      "mr_trades (sw_result sw') = mr_trades (sw_result sw) @ mr_trades m"
      "mr_remaining (sw_result sw') = mr_remaining (sw_result sw) - traded_quantity (mr_trades m)" by metis
  have lv: "levels (sw_book sw') = levels (put_level (sw_book sw) (opposite s) p l2)"
    using plain(4) assms(2) by (rule match_and_processE)
  have "stop \<longleftrightarrow> mr_remaining (sw_result sw') = 0" using plain(5) m(2) by (simp add: base_inv_def)
  then show ?thesis by (rule that(2) [OF plain(1,2) m lv])
qed simp_all

lemma fok_loop_predicts:
  assumes "base_inv q sw" "q \<le> u64_max" "\<forall>e \<in> set ls. ok (snd e)"
  shows "fok_loop A mode False s q limit lot u i (traded_quantity (mr_trades (sw_result sw))) ls =
    traded_quantity (mr_trades (sw_result (sweep_levels A i s limit lot u False TakerStandard ts ls sw)))"
  using assms
proof (induction ls arbitrary: sw)
  case (Cons e ls)
  obtain p l where e: "e = (p, l)" by fastforce
  obtain stop sw' where st: "sweep_level A i s limit lot u False TakerStandard ts p l sw = (stop, sw')" by fastforce
  have l: "ok l" using Cons.prems(3) e by simp
  let ?matched = "traded_quantity (mr_trades (sw_result sw))"
  have rem: "mr_remaining (sw_result sw) = q - ?matched" "?matched \<le> q"
    "sw_stop sw = StopBase (q - ?matched)"
    using Cons.prems(1) by (auto simp: base_inv_def)
  have cap: "level_qty_cap (sw_stop sw) p lot = (if lot \<le> 1 then q - ?matched else (q - ?matched) - (q - ?matched) mod lot)"
    using rem(3) by simp
  from st l Cons.prems(1) show ?case
  proof (cases rule: sweep_level_no_stp)
    case halt
    then show ?thesis using rem(2) cap by (auto simp: e st Let_def)
  next
    case (matched m l2 g')
    let ?cap = "level_qty_cap (sw_stop sw) p lot"
    have less: "?matched < q" using matched(2) cap by (auto split: if_splits)
    have reach: "fok_reachable A mode False u i ?cap l = (traded_quantity (mr_trades m), False)"
      using match_dry_run [OF l matched(3)] by (simp add: fok_reachable_def)
    have le: "traded_quantity (mr_trades m) \<le> ?cap" using match_conserves [OF l matched(3)] by simp
    have capq: "?cap \<le> q - ?matched" using cap by auto
    have new: "sat_add64 ?matched (min ?cap (traded_quantity (mr_trades m))) = traded_quantity (mr_trades (sw_result sw'))"
      using le capq Cons.prems(2) matched(5) rem(2) by (simp add: sat_add64_def)
    have step: "fok_loop A mode False s q limit lot u i ?matched (e # ls) =
        fok_loop A mode False s q limit lot u i (traded_quantity (mr_trades (sw_result sw'))) ls"
      using less matched(1,2) reach new unfolding e cap by (simp add: Let_def)
    show ?thesis
    proof (cases stop)
      case True
      then have "traded_quantity (mr_trades (sw_result sw')) = q"
        using matched(4,8) by (simp add: base_inv_def)
      then have "fok_loop A mode False s q limit lot u i (traded_quantity (mr_trades (sw_result sw'))) ls =
          traded_quantity (mr_trades (sw_result sw'))"
        by (cases ls) auto
      then show ?thesis using step True by (simp add: e st)
    next
      case False
      then show ?thesis using step Cons.IH [OF matched(4) Cons.prems(2)] Cons.prems(3) by (simp add: e st)
    qed
  qed
qed simp

end

lemma fok_matches:
  assumes "price_levels A ok" "levels_wf A ok b" "q \<le> u64_max" "\<not> stp_active b u"
    and "match_order_inner A b i s (BaseQty q limit) u TakerStandard = (Inr out, b')"
  shows "fok_fillable_quantity A b s q limit u i = traded_quantity (mr_trades (mo_result out))"
  using assms(5)
proof (cases rule: match_base_resultE)
  case empty
  then show ?thesis
    by (simp add: fok_fillable_quantity_def outcome_resting_def price_levels.mr_new [OF assms(1)])
next
  case swept
  have lv: "\<forall>e \<in> set (sweep_order b s). ok (snd e)"
    using sweep_order_mem [OF assms(2)] levels_wfD(2) [OF assms(2)] by auto
  have "base_inv q (initial_sweep A i (BaseQty q limit) (start_book b))"
    by (simp add: base_inv_def initial_sweep_def price_levels.mr_new [OF assms(1)])
  from price_levels.fok_loop_predicts [OF assms(1) this assms(3) lv, of "stp_mode_of b" s limit "lot_of b" u i
      "fst (now_millis (book_clock b))"]
  have "fok_loop A (stp_mode_of b) False s q limit (lot_of b) u i 0 (sweep_order b s) =
      traded_quantity (mr_trades (mo_result out))"
    using assms(4) by (simp add: swept(2) run_sweep_def initial_sweep_def price_levels.mr_new [OF assms(1)])
  moreover have "q = 0 \<Longrightarrow> traded_quantity (mr_trades (mo_result out)) = 0"
    using run_sweep_inv [OF assms(1,2), of i s limit u q] swept(2) by (auto simp: run_inv_def base_inv_def)
  ultimately show ?thesis
    using swept(1) assms(4) by (auto simp: fok_fillable_quantity_def lot_of_def stp_active_def)
qed

text \<open>C17: fill-or-kill feasibility is exact.  When self-trade prevention does not apply, the quantity that
  \<open>fok_fillable_quantity\<close> computes without touching the book is exactly the quantity the real
  sweep then executes, including the lot rounding and hidden replenishment of every level; so an
  order it declares feasible is filled completely.\<close>

theorem fok_feasibility_exact:
  assumes "price_levels A ok" "levels_wf A ok b" "q \<le> u64_max" "\<not> stp_active b u"
    and "match_order_inner A b i s (BaseQty q limit) u TakerStandard = (Inr out, b')"
  shows "fok_fillable_quantity A b s q limit u i = traded_quantity (mr_trades (mo_result out)) \<and>
    (q \<le> fok_fillable_quantity A b s q limit u i \<longrightarrow> mr_remaining (mo_result out) = 0)"
  using fok_matches [OF assms] match_quantities [OF assms(1,2,5)] by simp

theorem fok_feasibility_exact_witness:
  "\<exists>out b'. match_order_inner fifo demo_book 50 Buy (BaseQty 14 (Some 101)) 9 TakerStandard = (Inr out, b') \<and>
     fok_fillable_quantity fifo demo_book Buy 14 (Some 101) 9 50 = 14 \<and>
     fok_fillable_quantity fifo demo_book Buy 14 (Some 101) 9 50 = traded_quantity (mr_trades (mo_result out)) \<and>
     mr_remaining (mo_result out) = 0"
proof -
  let ?r = "match_order_inner fifo demo_book 50 Buy (BaseQty 14 (Some 101)) 9 TakerStandard"
  have "\<not> isl (fst ?r)" by code_simp
  then obtain out b' where r: "?r = (Inr out, b')" by (rule returns_okE)
  have f: "fok_fillable_quantity fifo demo_book Buy 14 (Some 101) 9 50 = 14" by code_simp
  have "\<not> stp_active demo_book 9" by (simp add: stp_active_def is_enabled_def demo_defs)
  then show ?thesis
    using fok_feasibility_exact [OF fifo.price_levels_axioms demo_levels_wf _ _ r] r f by (auto simp: u64_max_def)
qed

section \<open>What an unfilled taker leaves behind\<close>

lemma remove_levels_get:
  "sm_get (levels (remove_levels s ps b) t) p = (if t = s \<and> p \<in> set ps then None else sm_get (levels b t) p)"
  by (induction ps arbitrary: b) (auto simp: drop_level_get)

lemma retire_filled_levels [simp]: "levels (retire_filled fs b) = levels b"
  by (induction fs b rule: retire_filled.induct) simp_all

lemma finish_sweep_get:
  "sm_get (levels (finish_sweep s sw) t) p =
     (if t = opposite s \<and> p \<in> set (sw_empty sw) then None else sm_get (levels (sw_book sw) t) p)"
  by (simp add: finish_sweep_def Let_def remove_levels_get)

definition exhaust_inv ::
    "('l, 'g) pricelevel_api \<Rightarrow> ('l \<Rightarrow> bool) \<Rightarrow> ident \<Rightarrow> side \<Rightarrow> u128 option \<Rightarrow> u64 \<Rightarrow> (u128 \<times> 'l) list \<Rightarrow> ('l, 'g) sweep \<Rightarrow> bool" where
  "exhaust_inv A ok i s limit q0 ls sw \<longleftrightarrow> base_inv q0 sw \<and> levels_wf A ok (sw_book sw) \<and>
     sorted_wrt (\<lambda>x y. le_for s (fst x) (fst y) \<and> fst x \<noteq> fst y) ls \<and>
     (\<forall>e \<in> set ls. sm_get (levels (sw_book sw) (opposite s)) (fst e) = Some (snd e)) \<and>
     (\<forall>p l. sm_get (levels (sw_book sw) (opposite s)) p = Some l \<longrightarrow>
        p \<in> fst ` set ls \<or> (\<forall>q. matchable_quantity A l q i = 0))"

definition exhausted ::
    "('l, 'g) pricelevel_api \<Rightarrow> ident \<Rightarrow> side \<Rightarrow> u128 option \<Rightarrow> ('l, 'g) sweep \<Rightarrow> bool" where
  "exhausted A i s limit sw \<longleftrightarrow> (0 < mr_remaining (sw_result sw) \<longrightarrow>
     (\<forall>p l. sm_get (levels (sw_book sw) (opposite s)) p = Some l \<and> \<not> beyond_limit s limit p \<longrightarrow>
        (\<forall>q. matchable_quantity A l q i = 0)))"

context price_levels
begin

lemma exhaust_step:
  assumes inv: "exhaust_inv A ok i s limit q0 ((p, l) # rest) sw" and lot: "lot \<le> 1"
    and st: "sweep_level A i s limit lot u False TakerStandard ts p l sw = (stop, sw')"
  shows "if stop then exhausted A i s limit sw' else exhaust_inv A ok i s limit q0 rest sw'"
proof -
  have base: "base_inv q0 sw" and wf: "levels_wf A ok (sw_book sw)"
    and get: "sm_get (levels (sw_book sw) (opposite s)) p = Some l"
    and sorted: "\<forall>e \<in> set rest. le_for s p (fst e) \<and> p \<noteq> fst e"
    and rest: "\<forall>e \<in> set rest. sm_get (levels (sw_book sw) (opposite s)) (fst e) = Some (snd e)"
    and done_: "\<And>p' l'. sm_get (levels (sw_book sw) (opposite s)) p' = Some l' \<Longrightarrow>
        p' = p \<or> p' \<in> fst ` set rest \<or> (\<forall>q. matchable_quantity A l' q i = 0)"
    using inv by (auto simp: exhaust_inv_def)
  have l: "ok l" "level_price A l = p" using levels_wfD(2,3) [OF wf get] by auto
  from st l(1) base show ?thesis
  proof (cases rule: sweep_level_no_stp)
    case halt
    have "level_qty_cap (sw_stop sw) p lot = mr_remaining (sw_result sw)"
      using base lot by (simp add: base_inv_def)
    then have "beyond_limit s limit p" if "0 < mr_remaining (sw_result sw)" using halt(1) that by simp
    then have "beyond_limit s limit p'" if "0 < mr_remaining (sw_result sw)" "p' = p \<or> p' \<in> fst ` set rest" for p'
      using that sorted beyond_limit_mono [of s limit p p'] by auto
    then show ?thesis using halt(2,3) done_ unfolding exhausted_def by (simp, blast)
  next
    case (matched m l2 g')
    have l2: "ok l2" "level_price A l2 = p" using match_ok [OF l(1) matched(3)] l(2) by auto
    have get': "sm_get (levels (sw_book sw') (opposite s)) p' =
        (if p' = p then Some l2 else sm_get (levels (sw_book sw) (opposite s)) p')" for p'
      using put_level_get [OF wf, of "opposite s" p l2 "opposite s" p'] by (simp add: matched(7))
    have cap: "level_qty_cap (sw_stop sw) p lot = mr_remaining (sw_result sw)"
      using base lot by (simp add: base_inv_def)
    have m: "traded_quantity (mr_trades m) + mr_remaining m = level_qty_cap (sw_stop sw) p lot"
      by (rule match_conserves [OF l(1) matched(3)])
    show ?thesis
    proof (cases stop)
      case True
      then show ?thesis using matched(8) by (simp add: exhausted_def)
    next
      case False
      then have "0 < mr_remaining m" using matched(6,8) m cap by linarith
      then have l2': "\<forall>q. matchable_quantity A l2 q i = 0" using match_exhausts [OF l(1) matched(3)] by blast
      have "p' \<in> fst ` set rest \<or> (\<forall>q. matchable_quantity A l' q i = 0)"
        if "sm_get (levels (sw_book sw') (opposite s)) p' = Some l'" for p' l'
        using that l2' done_ [of p' l'] unfolding get' by (cases "p' = p") auto
      moreover have "levels_wf A ok (sw_book sw')"
        using put_level_wf [OF wf l2] matched(7) by (simp cong: levels_wf_cong)
      moreover have "\<forall>e \<in> set rest. sm_get (levels (sw_book sw') (opposite s)) (fst e) = Some (snd e)"
        using rest sorted unfolding get' by auto
      ultimately show ?thesis
        using False inv matched(4) unfolding exhaust_inv_def by simp
    qed
  qed
qed

end



end
