(* ===== verification/Sweep_Book.thy ===== *)
theory Sweep_Book
  imports Sweep_Modes
begin

text \<open>
  A sweep takes a consistent book to a consistent book.  While the loop runs, filled makers have
  left their levels but are still indexed; \<open>pend\<close> says that the indices describe the resting
  orders together with a set of such placements.  Levels that ran empty are still in the map and
  listed for removal.  The steps after the loop restore the invariant.
\<close>

section \<open>Indices with pending removals\<close>

definition pend :: "('l, 'g) pricelevel_api \<Rightarrow> ('l, 'g) book \<Rightarrow> placement set \<Rightarrow> bool" where
  "pend A b F \<longleftrightarrow> loc_idx (order_locations b) (resting A b \<union> F) \<and> usr_idx (user_orders b) (resting A b \<union> F) \<and>
     fst ` F \<inter> fst ` resting A b = {}"

text \<open>The same for a book on which the level \<open>l\<close> is held, to be written back at \<open>p\<close>.\<close>

definition held ::
    "('l, 'g) pricelevel_api \<Rightarrow> ('l \<Rightarrow> bool) \<Rightarrow> side \<Rightarrow> u128 \<Rightarrow> 'l \<Rightarrow> ('l, 'g) book \<Rightarrow> placement set \<Rightarrow> bool" where
  "held A ok t p l b F \<longleftrightarrow> levels_wf A ok b \<and> ok l \<and> level_price A l = p \<and> pend A (put_level b t p l) F"

lemma pend_cong:
  "levels b' = levels b \<Longrightarrow> order_locations b' = order_locations b \<Longrightarrow> user_orders b' = user_orders b \<Longrightarrow>
   pend A b' F = pend A b F"
  by (simp add: pend_def resting_cong [of b' b])

lemma held_cong:
  assumes "levels b' = levels b" "order_locations b' = order_locations b" "user_orders b' = user_orders b"
  shows "held A ok t p l b' F = held A ok t p l b F"
  using assms levels_put_cong [OF assms(1), of t p l]
  by (simp add: held_def levels_wf_cong [of b' b] pend_cong [of "put_level b' t p l" "put_level b t p l"])

lemma put_level_same:
  assumes "levels_wf A ok b" "sm_get (levels b t) p = Some l"
  shows "put_level b t p l = b"
  using sm_insert_same [OF levels_wfD(1) [OF assms(1)] assms(2)]
  by (cases t) (simp_all add: put_level_def set_levels_def)

lemma levels_put_put:
  assumes "levels_wf A ok b"
  shows "levels (put_level (put_level b t p l) t p l') = levels (put_level b t p l')"
proof
  fix s
  have "sm_insert p l' (sm_insert p l (levels b t)) = sm_insert p l' (levels b t)"
    by (rule sm_eqI) (use levels_wfD(1) [OF assms, of t] in \<open>auto simp: sm_invar_insert fun_eq_iff\<close>)
  then show "levels (put_level (put_level b t p l) t p l') s = levels (put_level b t p l') s"
    by (simp add: put_level_def)
qed

lemma held_get:
  "levels_wf A ok b \<Longrightarrow> sm_get (levels b t) p = Some l \<Longrightarrow> pend A b F \<Longrightarrow> held A ok t p l b F"
  using levels_wfD(2,3) [of A ok b t p l] by (simp add: held_def put_level_same)

lemma pend_without:
  assumes "pend A b F" "resting A b' = without i (resting A b)" "i \<in> fst ` resting A b \<or> i \<notin> fst ` F"
    and "order_locations b' = (order_locations b)(i := None)"
    and "usr_idx (user_orders b') (without i (resting A b \<union> F))"
  shows "pend A b' F"
proof -
  have "without i (resting A b \<union> F) = resting A b' \<union> F"
    using assms(1-3) by (auto simp: pend_def)
  then show ?thesis
    using assms loc_idx_remove [of "order_locations b" "resting A b \<union> F" i] by (auto simp: pend_def)
qed

text \<open>An id has one placement.\<close>

lemma idx_unique:
  assumes "loc_idx L R" "usr_idx U R" "(i, u, p, s) \<in> R" "(i, u', p', s') \<in> R"
  shows "u' = u \<and> p' = p \<and> s' = s"
  using loc_idx_mem [OF assms(1,3)] loc_idx_mem [OF assms(1,4)] usr_idxD(5) [OF assms(2,3,4)] by simp

lemma pend_unique:
  assumes "pend A b F" "x \<in> resting A b \<union> F" "y \<in> resting A b \<union> F" "fst x = fst y"
  shows "x = y"
proof -
  obtain i u p s where x: "x = (i, u, p, s)" by (cases x) auto
  moreover obtain j u' p' s' where y: "y = (j, u', p', s')" by (cases y) auto
  ultimately show ?thesis
    using assms idx_unique [of "order_locations b" "resting A b \<union> F" "user_orders b" i u p s u' p' s']
    by (simp add: pend_def)
qed

lemma invalidate_idem [simp]: "invalidate (invalidate c) = invalidate c"
  by (simp add: invalidate_def)

context price_levels
begin

lemma held_cancel:
  assumes H: "held A ok t p l b F" and c: "cancel_resting_maker_on_level A l t i r b = (l', b')"
  shows "held A ok t p l' b' F \<and> levels b' = levels b \<and>
    (cache b' = cache b \<or> cache b' = invalidate (cache b))"
proof -
  have wf: "levels_wf A ok b" and l: "ok l" "level_price A l = p" and P: "pend A (put_level b t p l) F"
    using H by (auto simp: held_def)
  from c l(1) show ?thesis
  proof (cases rule: cancel_maker_cases)
    case absent
    then show ?thesis using H by simp
  next
    case (present od)
    have lv: "levels (put_level b' t p l') = levels (put_level b t p l')"
      by (rule levels_put_cong) (rule present)
    have mem: "(i, ouser od, p, t) \<in> resting A (put_level b t p l)"
      using present(1,2) by (auto simp: resting_put [OF wf])
    have one: "x = (i, ouser od, p, t)" if "x \<in> resting A (put_level b t p l) \<union> F" "fst x = i" for x
      using pend_unique [OF P that(1)] mem that(2) by simp
    have rest: "resting A (put_level b' t p l') = without i (resting A (put_level b t p l))"
    proof -
      have "resting A (put_level b' t p l') = resting A (put_level b t p l')"
        by (rule resting_cong) (rule lv)
      also have "\<dots> = without i (resting A (put_level b t p l))"
      proof (rule set_eqI)
        fix x
        show "x \<in> resting A (put_level b t p l') \<longleftrightarrow> x \<in> without i (resting A (put_level b t p l))"
        proof (cases "snd (snd x) = (p, t)")
          case True
          then show ?thesis by (cases x) (auto simp: resting_put [OF wf] present(5))
        next
          case False
          then have "fst x \<noteq> i" if "x \<in> resting A (put_level b t p l)" using one [of x] that by (metis UnI1 snd_conv)
          then show ?thesis using False by (cases x) (auto simp: resting_put [OF wf])
        qed
      qed
      finally show ?thesis .
    qed
    have "usr_idx (user_orders (untrack_user_order (put_level b t p l) (ouser od) i))
        (without i (resting A (put_level b t p l) \<union> F))"
    proof (rule usr_idx_untrack_user)
      show "usr_idx (user_orders (put_level b t p l)) (resting A (put_level b t p l) \<union> F)"
        using P by (simp add: pend_def)
      show "v = ouser od" if "(i, v, p', s') \<in> resting A (put_level b t p l) \<union> F" for v p' s'
        using one [OF that] by simp
    qed
    then have "usr_idx (user_orders (put_level b' t p l')) (without i (resting A (put_level b t p l) \<union> F))"
      using present(8) untrack_user_cong [of "put_level b t p l" b "ouser od" i] by simp
    then have "pend A (put_level b' t p l') F"
      using pend_without [OF P rest] mem present(7) by force
    then show ?thesis
      using present wf l by (simp add: held_def levels_wf_cong [OF present(6)])
  qed
qed

lemma held_own:
  assumes "held A ok t p l b F" "cancel_own_makers A t u ods l b = (l', b')"
  shows "held A ok t p l' b' F \<and> levels b' = levels b \<and>
    (cache b' = cache b \<or> cache b' = invalidate (cache b))"
  using assms
proof (induction ods arbitrary: l b)
  case (Cons od ods)
  show ?case
  proof (cases "ouser od = u")
    case True
    obtain l1 b1 where c: "cancel_resting_maker_on_level A l t (oid od) SelfTradePrevention b = (l1, b1)" by fastforce
    then have "cancel_own_makers A t u ods l1 b1 = (l', b')" using Cons.prems(2) True by simp
    then show ?thesis using Cons.IH [of l1 b1] held_cancel [OF Cons.prems(1) c] by auto
  qed (use Cons in auto)
qed simp

lemma held_match:
  assumes H: "held A ok (opposite s) p l (sw_book sw) F"
    and m: "match_and_process A i s TakerStandard ts q p l sw = (l', sw')"
  obtains F' where "held A ok (opposite s) p l' (sw_book sw') F'"
    "fst ` F = fst ` set (sw_filled sw) \<Longrightarrow> fst ` F' = fst ` set (sw_filled sw')"
    "levels (sw_book sw') = levels (put_level (sw_book sw) (opposite s) p l')"
    "cache (sw_book sw') = cache (sw_book sw)"
    "set (sw_empty sw') = (if snapshot_by_seq A l' = [] then insert p (set (sw_empty sw)) else set (sw_empty sw))"
proof -
  let ?t = "opposite s" and ?b = "sw_book sw"
  have wf: "levels_wf A ok ?b" and l: "ok l" "level_price A l = p" and P: "pend A (put_level ?b ?t p l) F"
    using H by (auto simp: held_def)
  from m l(1) obtain m g' where lm: "level_match A l q i Gtc TakerStandard ts (transaction_id_generator ?b) = (m, l', g')"
    and fl: "map fst (sw_filled sw') = map fst (sw_filled sw) @ mr_filled_ids m"
    and em: "sw_empty sw' = (if order_count A l' = 0 then sw_empty sw @ [p] else sw_empty sw)"
    and lv: "levels (sw_book sw') = levels (put_level ?b ?t p l')"
    and ix: "order_locations (sw_book sw') = order_locations ?b" "user_orders (sw_book sw') = user_orders ?b"
      "cache (sw_book sw') = cache ?b"
    by (rule match_and_processE)
  have l': "ok l'" "level_price A l' = p" using match_ok [OF l(1) lm] l(2) by auto
  have tags: "tag ` set (snapshot_by_seq A l') = {e \<in> tag ` set (snapshot_by_seq A l). fst e \<notin> set (mr_filled_ids m)}"
    by (rule match_tags [OF l(1) lm])
  define E where "E = {e \<in> tag ` set (snapshot_by_seq A l). fst e \<in> set (mr_filled_ids m)}"
  let ?R = "resting A (put_level ?b ?t p l)" and ?R' = "resting A (put_level ?b ?t p l')"
  let ?F = "F \<union> at_level p ?t E"
  have un: "?R' \<union> ?F = ?R \<union> F"
    unfolding resting_put [OF wf] tags E_def by auto
  have sub: "?R' \<subseteq> ?R" unfolding resting_put [OF wf] tags by auto
  have E_in: "at_level p ?t E \<subseteq> ?R" unfolding resting_put [OF wf] E_def by auto
  have one: "x = y" if "x \<in> ?R" "y \<in> ?R" "fst x = fst y" for x y
    using pend_unique [OF P _ _ that(3)] that(1,2) by simp
  have "fst ` at_level p ?t E \<inter> fst ` ?R' = {}"
  proof (rule ccontr)
    assume "fst ` at_level p ?t E \<inter> fst ` ?R' \<noteq> {}"
    then obtain x y where xy: "x \<in> at_level p ?t E" "y \<in> ?R'" "fst x = fst y" by blast
    then have "x = y" using one sub E_in by blast
    then show False using xy(1,2) unfolding resting_put [OF wf] tags E_def by (cases y) auto
  qed
  then have disj: "fst ` ?F \<inter> fst ` ?R' = {}"
    using P sub unfolding pend_def image_Un by blast
  have wf': "levels_wf A ok (sw_book sw')"
    using put_level_wf [OF wf l'] lv by (simp cong: levels_wf_cong)
  have lv2: "levels (put_level (sw_book sw') ?t p l') = levels (put_level ?b ?t p l')"
    using levels_put_cong [OF lv, of ?t p l'] levels_put_put [OF wf, of ?t p l' l'] by simp
  have R2: "resting A (put_level (sw_book sw') ?t p l') = ?R'" by (rule resting_cong) (rule lv2)
  have "pend A (put_level (sw_book sw') ?t p l') ?F"
    using P disj un unfolding pend_def R2 by (simp add: ix)
  moreover have "fst ` ?F = fst ` set (sw_filled sw')" if "fst ` F = fst ` set (sw_filled sw)"
  proof -
    have "fst ` at_level p ?t E = set (mr_filled_ids m)"
      using match_filled_ids [OF l(1) lm] by (force simp: E_def at_level_def)
    then show ?thesis using that arg_cong [OF fl, of set] by (simp add: image_Un)
  qed
  ultimately show thesis
    using that [of ?F] wf' l' lv ix em count [OF l'(1)] by (simp add: held_def)
qed

text \<open>Cancelling one maker, then writing the level back.\<close>

lemma held_put:
  assumes "held A ok t p l b F"
  shows "held A ok t p l (put_level b t p l) F" "levels_wf A ok (put_level b t p l)"
    "pend A (put_level b t p l) F" "sm_get (levels (put_level b t p l) t) p = Some l"
proof -
  have H: "levels_wf A ok b" "ok l" "level_price A l = p" and P: "pend A (put_level b t p l) F"
    using assms by (auto simp: held_def)
  show wf: "levels_wf A ok (put_level b t p l)" by (rule put_level_wf [OF H])
  show g: "sm_get (levels (put_level b t p l) t) p = Some l" by (simp add: put_level_get [OF H(1)])
  show "pend A (put_level b t p l) F" by (rule P)
  show "held A ok t p l (put_level b t p l) F" by (rule held_get [OF wf g P])
qed

end

section \<open>The loop\<close>

definition sweep_inv ::
    "('l, 'g) pricelevel_api \<Rightarrow> ('l \<Rightarrow> bool) \<Rightarrow> side \<Rightarrow> (u128 \<times> 'l) list \<Rightarrow> ('l, 'g) sweep \<Rightarrow> bool" where
  "sweep_inv A ok s ls sw \<longleftrightarrow> levels_wf A ok (sw_book sw) \<and>
     (\<exists>F. pend A (sw_book sw) F \<and> fst ` F = fst ` set (sw_filled sw)) \<and>
     (\<exists>c. cache (sw_book sw) = invalidate c) \<and> distinct (map fst ls) \<and>
     (\<forall>e \<in> set ls. sm_get (levels (sw_book sw) (opposite s)) (fst e) = Some (snd e) \<and> fst e \<notin> set (sw_empty sw)) \<and>
     (\<forall>t p l. sm_get (levels (sw_book sw) t) p = Some l \<longrightarrow>
        (snapshot_by_seq A l = [] \<longleftrightarrow> t = opposite s \<and> p \<in> set (sw_empty sw)))"

lemma sweep_inv_advance:
  assumes inv: "sweep_inv A ok s ((p, l) # rest) sw"
    and H: "held A ok (opposite s) p l' (sw_book sw') F"
    and lv: "levels (sw_book sw') = levels (put_level (sw_book sw) (opposite s) p l')"
    and fl: "fst ` F = fst ` set (sw_filled sw')" and ca: "cache (sw_book sw') = invalidate c"
    and em: "set (sw_empty sw') = (if snapshot_by_seq A l' = [] then insert p (set (sw_empty sw)) else set (sw_empty sw))"
  shows "sweep_inv A ok s rest sw'"
proof -
  have wf: "levels_wf A ok (sw_book sw)" and wf': "levels_wf A ok (sw_book sw')"
    using inv H by (auto simp: sweep_inv_def held_def)
  have get: "sm_get (levels (sw_book sw') t) q =
      (if t = opposite s \<and> q = p then Some l' else sm_get (levels (sw_book sw) t) q)" for t q
    using put_level_get [OF wf, of "opposite s" p l' t q] by (simp add: lv)
  have P: "pend A (sw_book sw') F"
    using H put_level_same [OF wf', of "opposite s" p l'] get [of "opposite s" p] by (simp add: held_def)
  have p: "p \<notin> set (sw_empty sw)" "p \<notin> fst ` set rest" using inv by (auto simp: sweep_inv_def)
  have "snapshot_by_seq A k = [] \<longleftrightarrow> t = opposite s \<and> q \<in> set (sw_empty sw')"
    if "sm_get (levels (sw_book sw') t) q = Some k" for t q k
  proof (cases "t = opposite s \<and> q = p")
    case True
    then show ?thesis using that p(1) em by (simp add: get)
  next
    case False
    then have "sm_get (levels (sw_book sw) t) q = Some k" using that get [of t q] by (simp split: if_splits)
    then have "snapshot_by_seq A k = [] \<longleftrightarrow> t = opposite s \<and> q \<in> set (sw_empty sw)"
      using inv unfolding sweep_inv_def by blast
    then show ?thesis using False em by auto
  qed
  moreover have "sm_get (levels (sw_book sw') (opposite s)) (fst e) = Some (snd e) \<and> fst e \<notin> set (sw_empty sw')"
    if "e \<in> set rest" for e
  proof -
    have "fst e \<noteq> p" using p(2) that by (metis image_eqI)
    moreover have "sm_get (levels (sw_book sw) (opposite s)) (fst e) = Some (snd e)" "fst e \<notin> set (sw_empty sw)"
      using inv that by (simp_all add: sweep_inv_def)
    ultimately show ?thesis by (simp add: get em)
  qed
  moreover have "distinct (map fst rest)" using inv by (simp add: sweep_inv_def)
  ultimately show ?thesis
    unfolding sweep_inv_def using wf' P fl ca by blast
qed

context price_levels
begin

lemma sweep_inv_step:
  assumes inv: "sweep_inv A ok s ((p, l) # rest) sw"
    and st: "sweep_level A i s limit lot u stp TakerStandard ts p l sw = (stop, sw')"
  shows "\<exists>ls. sweep_inv A ok s ls sw' \<and> (\<not> stop \<longrightarrow> ls = rest)"
proof -
  let ?t = "opposite s"
  have wf: "levels_wf A ok (sw_book sw)" and get: "sm_get (levels (sw_book sw) ?t) p = Some l"
    using inv by (auto simp: sweep_inv_def)
  obtain F c where P: "pend A (sw_book sw) F" "fst ` F = fst ` set (sw_filled sw)"
    and ca: "cache (sw_book sw) = invalidate c" using inv by (auto simp: sweep_inv_def)
  have H: "held A ok ?t p l (sw_book sw) F" by (rule held_get [OF wf get P(1)])
  have l: "snapshot_by_seq A l \<noteq> []" using inv get by (fastforce simp: sweep_inv_def)
  have put: "levels (put_level b ?t p k) = levels (put_level (sw_book sw) ?t p k)"
    if "levels b = levels (sw_book sw)" for b k using that by (rule levels_put_cong)
  have opt: "\<exists>F'. held A ok ?t p k (sw_book y) F' \<and> fst ` F' = fst ` set (sw_filled y) \<and>
      levels (sw_book y) = levels (put_level (sw_book sw) ?t p k) \<and> cache (sw_book y) = invalidate c \<and>
      set (sw_empty y) = (if snapshot_by_seq A k = [] then insert p (set (sw_empty sw)) else set (sw_empty sw))"
    if "(if 0 < q then match_and_process A i s TakerStandard ts q p l sw else (l, sw)) = (k, y)" for q k y
  proof (cases "0 < q")
    case True
    then have m: "match_and_process A i s TakerStandard ts q p l sw = (k, y)" using that by simp
    from H m show ?thesis by (rule held_match) (use P(2) ca in auto)
  next
    case False
    then show ?thesis using that H P(2) ca l put_level_same [OF wf get] by auto
  qed
  from st show ?thesis
  proof (cases rule: sweep_level_cases)
    case halt
    then show ?thesis using inv by blast
  next
    case (plain l2)
    from opt [of "level_qty_cap (sw_stop sw) p lot" l2 sw'] plain(2,4) obtain F' where
      "held A ok ?t p l2 (sw_book sw') F'" "levels (sw_book sw') = levels (put_level (sw_book sw) ?t p l2)"
      "fst ` F' = fst ` set (sw_filled sw')" "cache (sw_book sw') = invalidate c"
      "set (sw_empty sw') = (if snapshot_by_seq A l2 = [] then insert p (set (sw_empty sw)) else set (sw_empty sw))"
      by auto
    from sweep_inv_advance [OF inv this] show ?thesis by blast
  next
    case (own l1 b1 l2)
    have 1: "held A ok ?t p l1 b1 F" "levels b1 = levels (sw_book sw)" "cache b1 = invalidate c"
      using held_own [OF H own(5)] ca by auto
    let ?sw = "sw\<lparr>sw_book := put_level b1 ?t p l1\<rparr>"
    have H1: "held A ok ?t p l1 (sw_book ?sw) F" using held_put(1) [OF 1(1)] by simp
    from H1 own(6) obtain F' where F': "held A ok ?t p l2 (sw_book sw') F'"
      "fst ` F' = fst ` set (sw_filled sw')"
      "levels (sw_book sw') = levels (put_level (sw_book ?sw) ?t p l2)"
      "cache (sw_book sw') = cache (sw_book ?sw)"
      "set (sw_empty sw') = (if snapshot_by_seq A l2 = [] then insert p (set (sw_empty ?sw)) else set (sw_empty ?sw))"
      by (rule held_match) (use P(2) in auto)
    have "levels (sw_book sw') = levels (put_level (sw_book sw) ?t p l2)"
      using F'(3) levels_put_put [of A ok b1 ?t p l1 l2] 1(1) put [OF 1(2)] by (simp add: held_def)
    then have "sweep_inv A ok s rest sw'"
      using sweep_inv_advance [OF inv F'(1) _ F'(2), of c] F'(4,5) 1(3) by simp
    then show ?thesis by blast
  next
    case (own_empty l1 b1)
    have 1: "held A ok ?t p l1 b1 F" "levels b1 = levels (sw_book sw)" "cache b1 = invalidate c"
      using held_own [OF H own_empty(4)] ca by auto
    have l1: "snapshot_by_seq A l1 = []" using own_empty(5) count [of l1] 1(1) by (simp add: held_def)
    have "sweep_inv A ok s rest sw'"
      using sweep_inv_advance [OF inv, of l1 sw' F c] held_put(1) [OF 1(1)] put [OF 1(2)] P(2) 1(3) l1
      by (simp add: own_empty(6))
    then show ?thesis by blast
  next
    case (taker q l1 sw1)
    from opt [OF taker(5)] obtain F' where "held A ok ?t p l1 (sw_book sw1) F'" "fst ` F' = fst ` set (sw_filled sw1)"
      "levels (sw_book sw1) = levels (put_level (sw_book sw) ?t p l1)" "cache (sw_book sw1) = invalidate c"
      "set (sw_empty sw1) = (if snapshot_by_seq A l1 = [] then insert p (set (sw_empty sw)) else set (sw_empty sw))"
      by blast
    then have "sweep_inv A ok s rest sw'"
      using sweep_inv_advance [OF inv, of l1 sw' F' c] by (simp add: taker(6))
    then show ?thesis using taker(7) by blast
  next
    case (both q j l1 sw1 l2 b2)
    from opt [OF both(5)] obtain F' where F': "held A ok ?t p l1 (sw_book sw1) F'" "fst ` F' = fst ` set (sw_filled sw1)"
      "levels (sw_book sw1) = levels (put_level (sw_book sw) ?t p l1)" "cache (sw_book sw1) = invalidate c"
      "set (sw_empty sw1) = (if snapshot_by_seq A l1 = [] then insert p (set (sw_empty sw)) else set (sw_empty sw))"
      by blast
    have 2: "held A ok ?t p l2 b2 F'" "levels b2 = levels (sw_book sw1)" "cache b2 = invalidate c"
      using held_cancel [OF F'(1) both(6)] F'(4) by auto
    have l2: "ok l2" "order_count A l2 = 0 \<longleftrightarrow> snapshot_by_seq A l2 = []"
      using 2(1) count [of l2] by (auto simp: held_def)
    have l1: "snapshot_by_seq A l1 = [] \<Longrightarrow> snapshot_by_seq A l2 = []"
      using cancel_maker_cases [OF both(6)] F'(1) unfolding held_def by (metis filter.simps(1))
    have "levels (put_level b2 ?t p l2) = levels (put_level (sw_book sw) ?t p l2)"
      using levels_put_cong [OF trans [OF 2(2) F'(3)], of ?t p l2] levels_put_put [OF wf] by simp
    then have "sweep_inv A ok s rest sw'"
      using sweep_inv_advance [OF inv, of l2 sw' F' c] held_put(1) [OF 2(1)] F'(2,5) 2(3) l2(2) l1
      by (auto simp: both(7))
    then show ?thesis using both(8) by blast
  qed
qed

lemma post_only_step:
  assumes "sweep_level A i s limit lot u stp TakerPostOnly ts p l sw = (stop, sw')"
    and wf: "levels_wf A ok (sw_book sw)" and get: "sm_get (levels (sw_book sw) (opposite s)) p = Some l"
  obtains (halt) "beyond_limit s limit p \<or> level_qty_cap (sw_stop sw) p lot = 0" "stop" "sw' = sw"
  | (probe) g where "\<not> beyond_limit s limit p" "0 < level_qty_cap (sw_stop sw) p lot"
      "stop \<longleftrightarrow> 0 < matchable_quantity A l (level_qty_cap (sw_stop sw) p lot) i"
      "sw' = sw\<lparr>sw_book := (sw_book sw)\<lparr>transaction_id_generator := g\<rparr>, sw_post_only := stop \<or> sw_post_only sw\<rparr>"
proof (cases "beyond_limit s limit p \<or> level_qty_cap (sw_stop sw) p lot = 0")
  case True
  then show ?thesis using assms(1) by (intro halt) (auto simp: sweep_level_def Let_def split: if_splits)
next
  case False
  let ?cap = "level_qty_cap (sw_stop sw) p lot"
  obtain m l' g where m: "level_match A l ?cap i Gtc TakerPostOnly ts (transaction_id_generator (sw_book sw)) = (m, l', g)"
    by (metis prod_cases3)
  have "l' = l" "mr_rejected m \<longleftrightarrow> 0 < matchable_quantity A l ?cap i"
    using match_post_only [OF levels_wfD(2) [OF wf get] m] by auto
  then show ?thesis
    using assms(1) m False put_level_same [OF wf get]
    by (intro probe [of g]) (auto simp: sweep_level_def Let_def split: if_splits)
qed

lemma sweep_inv_any_step:
  assumes inv: "sweep_inv A ok s ((p, l) # rest) sw"
    and st: "sweep_level A i s limit lot u stp kind ts p l sw = (stop, sw')"
  shows "\<exists>ls. sweep_inv A ok s ls sw' \<and> (\<not> stop \<longrightarrow> ls = rest)"
proof (cases kind)
  case TakerStandard
  then show ?thesis using sweep_inv_step [OF inv] st by simp
next
  case TakerPostOnly
  have wf: "levels_wf A ok (sw_book sw)" "sm_get (levels (sw_book sw) (opposite s)) p = Some l"
    using inv by (auto simp: sweep_inv_def)
  have tail: "sweep_inv A ok s rest sw" using inv by (auto simp: sweep_inv_def)
  from st [unfolded TakerPostOnly] wf show ?thesis
  proof (cases rule: post_only_step)
    case halt
    then show ?thesis using inv by blast
  next
    case (probe g)
    let ?b = "(sw_book sw)\<lparr>transaction_id_generator := g\<rparr>"
    have "sweep_inv A ok s rest sw'"
      using tail levels_wf_cong [of ?b "sw_book sw" A ok] pend_cong [of ?b "sw_book sw" A]
      by (simp add: sweep_inv_def probe(4))
    then show ?thesis by blast
  qed
qed

lemma sweep_inv_sweep:
  assumes "sweep_inv A ok s ls sw"
  shows "\<exists>ls'. sweep_inv A ok s ls' (sweep_levels A i s limit lot u stp kind ts ls sw)"
proof (rule sweep_levels_induct [where I = "sweep_inv A ok s", OF assms])
  show "if stop then \<exists>ls. sweep_inv A ok s ls sw' else sweep_inv A ok s rest sw'"
    if "sweep_inv A ok s ((p, l) # rest) sw" "sweep_level A i s limit lot u stp kind ts p l sw = (stop, sw')"
    for p l rest sw stop sw'
    using sweep_inv_any_step [OF that] by (cases stop) auto
qed blast

end

section \<open>After the loop\<close>

lemma book_inv_cong:
  assumes "levels b' = levels b" "order_locations b' = order_locations b" "user_orders b' = user_orders b"
    and "cache_ok b'"
  shows "book_inv A ok b \<Longrightarrow> book_inv A ok b'"
  using assms resting_cong [OF assms(1), of A] levels_wf_cong [OF assms(1), of A ok] no_empty_cong [OF assms(1), of A]
  by (simp add: book_inv_def)

lemma sweep_inv_init:
  assumes "book_inv A ok b"
  shows "sweep_inv A ok s (sweep_order b s) (initial_sweep A i mode (start_book b))"
proof -
  have wf: "levels_wf A ok b" using assms by (simp add: book_inv_def)
  have pend: "pend A (start_book b) {}"
    using assms resting_cong [of "start_book b" b A] by (simp add: pend_def book_inv_def)
  have "distinct (map fst (sweep_order b s))"
    using sm_invar_distinct [OF levels_wfD(1) [OF wf, of "opposite s"]]
    by (cases s) (simp_all add: sweep_order_def sm_iter_def sm_iter_rev_def flip: rev_map)
  then show ?thesis
    using assms pend wf sweep_order_mem [OF wf, of _ _ s] levels_wf_cong [of "start_book b" b A ok]
    by (auto simp: sweep_inv_def initial_sweep_def book_inv_def no_empty_def)
qed

lemma remove_levels_frame [simp]:
  "order_locations (remove_levels s ps b) = order_locations b" "user_orders (remove_levels s ps b) = user_orders b"
  "cache (remove_levels s ps b) = cache b"
  by (induction ps arbitrary: b) simp_all

lemma remove_levels_wf: "levels_wf A ok b \<Longrightarrow> levels_wf A ok (remove_levels s ps b)"
  by (induction ps arbitrary: b) (simp_all add: drop_level_wf)

lemma retire_filled_cache [simp]: "cache (retire_filled fs b) = cache b"
  by (induction fs b rule: retire_filled.induct) simp_all

lemma retire_filled_idx:
  assumes "loc_idx (order_locations b) R" "usr_idx (user_orders b) R"
  shows "loc_idx (order_locations (retire_filled fs b)) {r \<in> R. fst r \<notin> fst ` set fs} \<and>
    usr_idx (user_orders (retire_filled fs b)) {r \<in> R. fst r \<notin> fst ` set fs}"
  using assms
proof (induction fs b arbitrary: R rule: retire_filled.induct)
  case (2 i q fs b)
  let ?b = "untrack_order_by_id (remove_location (track_state b i (Filled q)) i) i"
  have loc: "loc_idx (order_locations ?b) (without i R)" using loc_idx_remove [OF 2(2), of i] by simp
  have usr: "usr_idx (user_orders ?b) (without i R)"
    using usr_idx_untrack_by_id [of "remove_location (track_state b i (Filled q)) i" R i] 2(3) by simp
  have "{r \<in> without i R. fst r \<notin> fst ` set fs} = {r \<in> R. fst r \<notin> fst ` set ((i, q) # fs)}" by auto
  then show ?case using 2(1) [OF loc usr] by simp
qed simp

lemma finish_sweep_inv:
  assumes "sweep_inv A ok s ls sw"
  shows "book_inv A ok (finish_sweep s sw) \<and> (\<exists>c. cache (finish_sweep s sw) = invalidate c)"
proof -
  let ?b = "finish_sweep s sw" and ?c = "sw_book sw"
  obtain F c where P: "pend A ?c F" "fst ` F = fst ` set (sw_filled sw)" and ca: "cache ?c = invalidate c"
    and wf: "levels_wf A ok ?c"
    and em: "\<And>t p l. sm_get (levels ?c t) p = Some l \<Longrightarrow>
        snapshot_by_seq A l = [] \<longleftrightarrow> t = opposite s \<and> p \<in> set (sw_empty sw)"
    using assms unfolding sweep_inv_def by blast
  define b1 where "b1 = (let b1 = remove_levels (opposite s) (sw_empty sw) ?c
      in if sw_empty sw \<noteq> [] then record_depth_metric b1 else b1)"
  have b: "?b = retire_filled (sw_filled sw) b1" by (simp add: finish_sweep_def b1_def Let_def)
  have b1: "order_locations b1 = order_locations ?c" "user_orders b1 = user_orders ?c" "cache b1 = cache ?c"
    by (simp_all add: b1_def Let_def)
  have "levels_wf A ok b1"
    using wf remove_levels_wf [OF wf, of "opposite s" "sw_empty sw"]
    by (simp add: b1_def Let_def levels_wf_cong [of "record_depth_metric b" b for b])
  then have wf': "levels_wf A ok ?b" unfolding b by (simp add: levels_wf_cong [of "retire_filled fs b" b for fs b])
  have ne: "no_empty A ?b"
    unfolding no_empty_def finish_sweep_get using em by (auto split: if_splits)
  have rest: "resting A ?b = resting A ?c"
  proof (rule set_eqI, safe)
    fix i u p t
    show "(i, u, p, t) \<in> resting A ?b \<Longrightarrow> (i, u, p, t) \<in> resting A ?c"
      unfolding resting_iff finish_sweep_get by (auto split: if_splits)
    show "(i, u, p, t) \<in> resting A ?c \<Longrightarrow> (i, u, p, t) \<in> resting A ?b"
      unfolding resting_iff finish_sweep_get using em [of t p] by fastforce
  qed
  have "{r \<in> resting A ?c \<union> F. fst r \<notin> fst ` set (sw_filled sw)} = resting A ?c"
    using P(1) unfolding P(2) [symmetric] pend_def by blast
  then have "loc_idx (order_locations ?b) (resting A ?b) \<and> usr_idx (user_orders ?b) (resting A ?b)"
    using retire_filled_idx [of b1 "resting A ?c \<union> F" "sw_filled sw"] P(1) b1(1,2) b rest
    by (simp add: pend_def)
  moreover have "cache ?b = invalidate c" using b b1(3) ca by simp
  ultimately show ?thesis using wf' ne by (auto simp: book_inv_def)
qed

text \<open>A sweep that returns, with a result or with an error, leaves a consistent book.\<close>

lemma cache_ok_frames [simp]:
  "cache_ok (record_reject b r) = cache_ok b" "cache_ok (track_state b i st) = cache_ok b"
  "cache_ok (record_trades b n) = cache_ok b" "cache_ok (record_depth_metric b) = cache_ok b"
  "cache_ok (notify_level b s p q) = cache_ok b"
  by (simp_all add: cache_ok_def)

lemma book_inv_cache_ok: "book_inv A ok b \<Longrightarrow> cache_ok b"
  by (simp add: book_inv_def)

lemma book_inv_frames [intro]:
  assumes "book_inv A ok b"
  shows "book_inv A ok (record_reject b r)" "book_inv A ok (track_state b i st)"
    "book_inv A ok (record_trades b n)" "book_inv A ok (record_depth_metric b)" "book_inv A ok (notify_level b s p q)"
    "book_inv A ok (start_book b)" "book_inv A ok (invalidate_cache b)"
  using book_inv_cong [OF _ _ _ _ assms] book_inv_cache_ok [OF assms] by simp_all

lemma match_book_inv:
  assumes "price_levels A ok" "book_inv A ok b" "match_order_inner A b i s mode u kind = (r, b')"
  shows "book_inv A ok b' \<and> (\<exists>c. cache b' = invalidate c)"
proof (cases "levels b (opposite s) = []")
  case True
  then show ?thesis
    using assms(3) book_inv_frames [OF book_inv_frames(6) [OF assms(2)]] book_inv_frames(6) [OF assms(2)]
    by (auto simp: match_order_inner_eq empty_book_result_def split: match_mode.splits option.splits)
next
  case False
  have "\<exists>ls. sweep_inv A ok s ls (run_sweep A b i s mode u kind)"
    unfolding run_sweep_def by (rule price_levels.sweep_inv_sweep [OF assms(1) sweep_inv_init [OF assms(2)]])
  then have "book_inv A ok (finish_sweep s (run_sweep A b i s mode u kind)) \<and>
      (\<exists>c. cache (finish_sweep s (run_sweep A b i s mode u kind)) = invalidate c)" using finish_sweep_inv by blast
  then show ?thesis
    using assms(3) False book_inv_frames(1,2)
    by (auto simp: match_order_inner_eq sweep_verdict_def Let_def split: if_splits match_mode.splits option.splits)
qed

text \<open>A sweep only removes locations.\<close>

lemma retire_filled_locs: "order_locations (retire_filled fs b) \<subseteq>\<^sub>m order_locations b"
  by (induction fs b rule: retire_filled.induct) (auto simp: map_le_def split: if_splits)

lemma map_le_None: "m' \<subseteq>\<^sub>m m \<Longrightarrow> m i = None \<Longrightarrow> m' i = None"
  by (metis domIff map_le_def)

context price_levels
begin

lemma cancel_maker_locs:
  "cancel_resting_maker_on_level A l t i r b = (l', b') \<Longrightarrow> ok l \<Longrightarrow> order_locations b' \<subseteq>\<^sub>m order_locations b"
  by (erule cancel_maker_cases) (auto simp: map_le_def)

lemma cancel_own_locs:
  assumes "held A ok t p l b F" "cancel_own_makers A t u ods l b = (l', b')"
  shows "order_locations b' \<subseteq>\<^sub>m order_locations b"
  using assms
proof (induction ods arbitrary: l b)
  case (Cons od ods)
  show ?case
  proof (cases "ouser od = u")
    case True
    obtain l1 b1 where c: "cancel_resting_maker_on_level A l t (oid od) SelfTradePrevention b = (l1, b1)" by fastforce
    have "ok l" using Cons.prems(1) by (simp add: held_def)
    then show ?thesis
      using Cons.IH [of l1 b1] held_cancel [OF Cons.prems(1) c] cancel_maker_locs [OF c] Cons.prems(2) True c
      by (auto intro: map_le_trans)
  qed (use Cons in auto)
qed simp

lemma sweep_level_locs:
  assumes inv: "sweep_inv A ok s ((p, l) # rest) sw"
    and st: "sweep_level A i s limit lot u stp kind ts p l sw = (stop, sw')"
  shows "order_locations (sw_book sw') \<subseteq>\<^sub>m order_locations (sw_book sw)"
proof -
  have wf: "levels_wf A ok (sw_book sw)" "sm_get (levels (sw_book sw) (opposite s)) p = Some l"
    using inv by (auto simp: sweep_inv_def)
  obtain F where P: "pend A (sw_book sw) F" using inv by (auto simp: sweep_inv_def)
  have H: "held A ok (opposite s) p l (sw_book sw) F" by (rule held_get [OF wf P])
  have l: "ok l" by (rule levels_wfD(2) [OF wf])
  have mp: "order_locations (sw_book y) = order_locations (sw_book x)"
    if "match_and_process A i s TakerStandard ts q p k x = (k', y)" "ok k" for q k x k' y
    using that by (rule match_and_processE)
  have opt: "order_locations (sw_book y) = order_locations (sw_book sw) \<and> ok k"
    if "(if 0 < q then match_and_process A i s TakerStandard ts q p l sw else (l, sw)) = (k, y)" for q k y
  proof (cases "0 < q")
    case True
    then have m: "match_and_process A i s TakerStandard ts q p l sw = (k, y)" using that by simp
    from m l have "ok k" by (rule match_and_processE) (use match_ok [OF l] in blast)
    then show ?thesis using mp [OF m l] by simp
  qed (use that l in simp)
  show ?thesis
  proof (cases kind)
    case TakerPostOnly
    from st [unfolded TakerPostOnly] wf show ?thesis by (cases rule: post_only_step) auto
  next
    case TakerStandard
    from st [unfolded TakerStandard] show ?thesis
    proof (cases rule: sweep_level_cases)
      case halt
      then show ?thesis by simp
    next
      case (plain l2)
      then show ?thesis using mp [OF plain(4) l] by simp
    next
      case (own l1 b1 l2)
      then show ?thesis
        using mp [OF own(6)] cancel_own_all(1) [OF own(5) l] cancel_own_locs [OF H own(5)] by simp
    next
      case (own_empty l1 b1)
      then show ?thesis using cancel_own_locs [OF H own_empty(4)] by simp
    next
      case (taker q l1 sw1)
      then show ?thesis using opt [OF taker(5)] by simp
    next
      case (both q j l1 sw1 l2 b2)
      then show ?thesis using opt [OF both(5)] cancel_maker_locs [OF both(6)] by simp
    qed
  qed
qed

lemma sweep_locs:
  assumes "sweep_inv A ok s ls sw"
  shows "order_locations (sw_book (sweep_levels A i s limit lot u stp kind ts ls sw)) \<subseteq>\<^sub>m order_locations (sw_book sw)"
proof (rule sweep_levels_induct [where I = "\<lambda>ls x. sweep_inv A ok s ls x \<and> order_locations (sw_book x) \<subseteq>\<^sub>m order_locations (sw_book sw)"])
  show "if stop then order_locations (sw_book x') \<subseteq>\<^sub>m order_locations (sw_book sw)
      else sweep_inv A ok s rest x' \<and> order_locations (sw_book x') \<subseteq>\<^sub>m order_locations (sw_book sw)"
    if I: "sweep_inv A ok s ((p, l) # rest) x \<and> order_locations (sw_book x) \<subseteq>\<^sub>m order_locations (sw_book sw)"
      and st: "sweep_level A i s limit lot u stp kind ts p l x = (stop, x')" for p l rest x stop x'
    using sweep_inv_any_step [OF conjunct1 [OF I] st] sweep_level_locs [OF conjunct1 [OF I] st] I
    by (cases stop) (auto intro: map_le_trans)
qed (use assms in auto)

end

lemma match_only_removes:
  assumes "price_levels A ok" "book_inv A ok b" "match_order_inner A b i s mode u kind = (r, b')"
  shows "order_locations b' \<subseteq>\<^sub>m order_locations b"
proof (cases "levels b (opposite s) = []")
  case True
  then show ?thesis
    using assms(3)
    by (auto simp: match_order_inner_eq empty_book_result_def split: match_mode.splits option.splits)
next
  case False
  let ?sw = "run_sweep A b i s mode u kind"
  have "order_locations (sw_book ?sw) \<subseteq>\<^sub>m order_locations b"
    unfolding run_sweep_def
    using price_levels.sweep_locs [OF assms(1) sweep_inv_init [OF assms(2)]] by (simp add: initial_sweep_def)
  moreover have "order_locations (finish_sweep s ?sw) \<subseteq>\<^sub>m order_locations (sw_book ?sw)"
    using retire_filled_locs [of "sw_filled ?sw" "remove_levels (opposite s) (sw_empty ?sw) (sw_book ?sw)"]
      retire_filled_locs [of "sw_filled ?sw" "record_depth_metric (remove_levels (opposite s) (sw_empty ?sw) (sw_book ?sw))"]
      retire_filled_locs [of "sw_filled ?sw" "sw_book ?sw"]
    by (simp add: finish_sweep_def Let_def)
  ultimately have "order_locations (finish_sweep s ?sw) \<subseteq>\<^sub>m order_locations b" by (rule map_le_trans [rotated])
  then show ?thesis
    using assms(3) False
    by (auto simp: match_order_inner_eq sweep_verdict_def Let_def split: if_splits match_mode.splits option.splits)
qed

section \<open>Post-only takers\<close>

text \<open>A level that a post-only order at this limit would trade with.\<close>

definition crossable ::
    "('l, 'g) pricelevel_api \<Rightarrow> ('l, 'g) book \<Rightarrow> ident \<Rightarrow> side \<Rightarrow> u64 \<Rightarrow> u128 option \<Rightarrow> u128 \<Rightarrow> bool" where
  "crossable A b i s q limit p \<longleftrightarrow> within_limit s limit p \<and>
     (\<exists>l. sm_get (levels b (opposite s)) p = Some l \<and>
        0 < matchable_quantity A l (level_qty_cap (StopBase q) p (lot_of b)) i)"

definition post_inv ::
    "('l, 'g) pricelevel_api \<Rightarrow> ('l, 'g) book \<Rightarrow> ident \<Rightarrow> side \<Rightarrow> u64 \<Rightarrow> u128 option \<Rightarrow> (u128 \<times> 'l) list \<Rightarrow> ('l, 'g) sweep \<Rightarrow> bool" where
  "post_inv A b i s q limit ls sw \<longleftrightarrow>
     (\<exists>g. sw = (initial_sweep A i (BaseQty q limit) (start_book b))
        \<lparr>sw_book := (start_book b)\<lparr>transaction_id_generator := g\<rparr>\<rparr>) \<and>
     sorted_wrt (\<lambda>x y. le_for s (fst x) (fst y) \<and> fst x \<noteq> fst y) ls \<and>
     (\<forall>e \<in> set ls. sm_get (levels b (opposite s)) (fst e) = Some (snd e)) \<and>
     (\<forall>p. crossable A b i s q limit p \<longrightarrow> p \<in> fst ` set ls)"

definition post_done ::
    "('l, 'g) pricelevel_api \<Rightarrow> ('l, 'g) book \<Rightarrow> ident \<Rightarrow> side \<Rightarrow> u64 \<Rightarrow> u128 option \<Rightarrow> ('l, 'g) sweep \<Rightarrow> bool" where
  "post_done A b i s q limit sw \<longleftrightarrow>
     (\<exists>g. sw = (initial_sweep A i (BaseQty q limit) (start_book b))
        \<lparr>sw_book := (start_book b)\<lparr>transaction_id_generator := g\<rparr>,
         sw_post_only := (\<exists>p. crossable A b i s q limit p)\<rparr>)"

context price_levels
begin

lemma post_only_loop_step:
  assumes wf: "levels_wf A ok b" and inv: "post_inv A b i s q limit ((p, l) # rest) sw"
    and st: "sweep_level A i s limit (lot_of b) u stp TakerPostOnly ts p l sw = (stop, sw')"
  shows "if stop then post_done A b i s q limit sw' else post_inv A b i s q limit rest sw'"
proof -
  obtain g where sw: "sw = (initial_sweep A i (BaseQty q limit) (start_book b))
        \<lparr>sw_book := (start_book b)\<lparr>transaction_id_generator := g\<rparr>\<rparr>" using inv by (auto simp: post_inv_def)
  have stop: "sw_stop sw = StopBase q" by (simp add: sw initial_sweep_def)
  have lv: "levels (sw_book sw) = levels b" by (simp add: sw)
  have get: "sm_get (levels b (opposite s)) p = Some l" using inv by (simp add: post_inv_def)
  have wf': "levels_wf A ok (sw_book sw)" using wf levels_wf_cong [OF lv] by simp
  have ahead: "\<And>p'. crossable A b i s q limit p' \<Longrightarrow> p' = p \<or> p' \<in> fst ` set rest"
    "\<And>e. e \<in> set rest \<Longrightarrow> le_for s p (fst e)" using inv by (auto simp: post_inv_def)
  from st wf' get [folded lv] show ?thesis
  proof (cases rule: post_only_step)
    case halt
    have "\<not> crossable A b i s q limit p'" for p'
    proof
      assume c: "crossable A b i s q limit p'"
      from ahead(1) [OF c] have "le_for s p p'" using ahead(2) by (metis imageE le_for_refl)
      then have "\<not> beyond_limit s limit p" using c beyond_limit_mono unfolding crossable_def beyond_limit_iff by blast
      then have "level_qty_cap (StopBase q) p' (lot_of b) = 0" using halt(1) stop by simp
      then show False using c matchable_le [OF levels_wfD(2) [OF wf], of "opposite s" p' _ 0 i]
        unfolding crossable_def by force
    qed
    then show ?thesis using halt sw by (auto simp: post_done_def initial_sweep_def)
  next
    case (probe g')
    have c: "crossable A b i s q limit p \<longleftrightarrow> stop" using probe(1,3) get stop by (simp add: crossable_def beyond_limit_iff)
    show ?thesis
    proof (cases stop)
      case True
      then show ?thesis using probe(4) c sw by (auto simp: post_done_def initial_sweep_def)
    next
      case False
      then have "\<forall>p'. crossable A b i s q limit p' \<longrightarrow> p' \<in> fst ` set rest" using ahead(1) c by blast
      then show ?thesis using False probe(4) sw inv by (auto simp: post_inv_def initial_sweep_def)
    qed
  qed
qed

lemma post_only_sweep:
  assumes wf: "levels_wf A ok b"
  shows "post_done A b i s q limit (run_sweep A b i s (BaseQty q limit) u TakerPostOnly)"
  unfolding run_sweep_def
proof (rule sweep_levels_induct [where I = "post_inv A b i s q limit"])
  have "crossable A b i s q limit p \<Longrightarrow> p \<in> fst ` set (sweep_order b s)" for p
    using sweep_order_mem [OF wf, of p _ s] by (force simp: crossable_def)
  then show "post_inv A b i s q limit (sweep_order b s) (initial_sweep A i (BaseQty q limit) (start_book b))"
    using sweep_order_sorted [OF wf, of s] sweep_order_mem [OF wf, of _ _ s]
    by (auto simp: post_inv_def initial_sweep_def intro!: exI [of _ "transaction_id_generator b"])
  show "post_done A b i s q limit sw" if "post_inv A b i s q limit [] sw" for sw
    using that by (auto simp: post_inv_def post_done_def initial_sweep_def)
qed (use post_only_loop_step [OF wf] in auto)

end

lemma post_only_result:
  assumes "price_levels A ok" "levels_wf A ok b"
    and "match_order_inner A b i s (BaseQty q limit) u TakerPostOnly = (Inr out, b')"
  shows "mr_trades (mo_result out) = [] \<and> mr_remaining (mo_result out) = q \<and> \<not> taker_stp_cancelled out \<and>
    levels b' = levels b \<and> order_locations b' = order_locations b \<and> user_orders b' = user_orders b \<and>
    risk_state b' = risk_state b \<and> order_state_tracker b' = order_state_tracker b \<and> outlog b' = outlog b \<and>
    (taker_post_only_rejected out \<longleftrightarrow> (\<exists>p. crossable A b i s q limit p))"
  using assms(3)
proof (cases rule: match_base_resultE)
  case empty
  then show ?thesis
    by (auto simp: outcome_resting_def price_levels.mr_new [OF assms(1)] crossable_def start_book_def invalidate_cache_def)
next
  case swept
  have "post_done A b i s q limit (run_sweep A b i s (BaseQty q limit) u TakerPostOnly)"
    by (rule price_levels.post_only_sweep [OF assms(1,2)])
  then show ?thesis
    using swept by (auto simp: post_done_def initial_sweep_def finish_sweep_def price_levels.mr_new [OF assms(1)]
        start_book_def invalidate_cache_def)
qed

text \<open>C19: a post-only taker never trades and never touches the book.  Whatever the depth on the
  other side, its sweep reports no trade and the full quantity remaining, leaves every level, both
  indices, the risk state, the tracker and the event log as they were, and is rejected exactly
  when some level inside the limit holds depth it would have matched.\<close>

theorem post_only_no_op:
  assumes "price_levels A ok" "levels_wf A ok b"
    and "match_order_inner A b i s (BaseQty q limit) u TakerPostOnly = (Inr out, b')"
  shows "mr_trades (mo_result out) = [] \<and> mr_remaining (mo_result out) = q \<and> \<not> taker_stp_cancelled out \<and>
    levels b' = levels b \<and> order_locations b' = order_locations b \<and> user_orders b' = user_orders b \<and>
    risk_state b' = risk_state b \<and> order_state_tracker b' = order_state_tracker b \<and> outlog b' = outlog b \<and>
    (taker_post_only_rejected out \<longleftrightarrow> (\<exists>p. crossable A b i s q limit p))"
  by (rule post_only_result [OF assms])

theorem post_only_no_op_witness:
  "\<exists>out b'. match_order_inner fifo demo_book 50 Buy (BaseQty 12 (Some 101)) 9 TakerPostOnly = (Inr out, b') \<and>
     mr_trades (mo_result out) = [] \<and> levels b' = levels demo_book \<and> taker_post_only_rejected out"
proof -
  let ?r = "match_order_inner fifo demo_book 50 Buy (BaseQty 12 (Some 101)) 9 TakerPostOnly"
  have "\<not> isl (fst ?r)" by code_simp
  then obtain out b' where r: "?r = (Inr out, b')" by (rule returns_okE)
  have rej: "taker_post_only_rejected (projr (fst ?r))" by code_simp
  show ?thesis
    using post_only_no_op [OF fifo.price_levels_axioms demo_levels_wf r] r rej by simp
qed

end
