(* ===== verification/Modifications.thy ===== *)
theory Modifications
  imports Matching
begin

text \<open>
  Adding, cancelling and modifying orders, \<open>src/orderbook/modifications.rs\<close>.  Each operation
  takes the book and returns its result with the new book.  The bodies of \<open>add_order_inner\<close> and
  \<open>update_order\<close> are split where the source is: admission checks, the head-room check, the
  handling of the match outcome, resting the remainder; one definition per update variant.
  Messages that interpolate an id or a price are represented by their fixed text.
\<close>

section \<open>Cancelling\<close>

definition cancel_order_with_reason ::
    "('l, 'g) pricelevel_api \<Rightarrow> 'x \<Rightarrow> ('l, 'g) book \<Rightarrow> ident \<Rightarrow> cancel_reason \<Rightarrow>
      (order_book_error + 'x order_type option) \<times> ('l, 'g) book" where
  "cancel_order_with_reason A d b order_id reason =
     (let b1 = invalidate_cache b in
      case order_locations b1 order_id of
        None \<Rightarrow> (Inr None, b1)
      | Some (price, s) \<Rightarrow>
          (let (result, empty_level, b2) =
             (case sm_get (levels b1 s) price of
                None \<Rightarrow> (None, False, b1)
              | Some l \<Rightarrow>
                  (case level_update A l (Cancel order_id) of
                     (Inl _, l') \<Rightarrow> (None, False, put_level b1 s price l')
                   | (Inr cancelled, l') \<Rightarrow>
                       (let b' = put_level b1 s price l'
                        in (cancelled, order_count A l' = 0,
                            if cancelled \<noteq> None then notify_level b' s (level_price A l') (level_visible A l')
                            else b'))));
               b3 = invalidate_cache b2
           in case result of
                None \<Rightarrow> (Inr None, b3)
              | Some cancelled_order \<Rightarrow>
                  (let b4 = track_state b3 order_id (Cancelled (prev_filled b3 order_id) reason);
                       b5 = remove_location b4 order_id;
                       b6 = b5\<lparr>risk_state := on_cancel (risk_state b5) order_id\<rparr>;
                       b7 = untrack_user_order b6 (ouser cancelled_order) order_id;
                       b8 = unregister_special b7 order_id;
                       b9 = (if empty_level then record_depth_metric (drop_level b8 s price) else b8)
                   in (Inr (Some (convert_from_unit_type d cancelled_order)), b9))))"

definition cancel_order ::
    "('l, 'g) pricelevel_api \<Rightarrow> 'x \<Rightarrow> ('l, 'g) book \<Rightarrow> ident \<Rightarrow> (order_book_error + 'x order_type option) \<times> ('l, 'g) book" where
  "cancel_order A d b order_id = cancel_order_with_reason A d b order_id UserRequested"

section \<open>Validation\<close>

text \<open>The lot check: the quantity that is not a multiple of the lot.\<close>

fun lot_violation :: "'x order_type \<Rightarrow> u64 \<Rightarrow> u64 option" where
  "lot_violation (IcebergOrder _ _ visible hidden _ _ _ _ _) lot =
     (if visible mod lot \<noteq> 0 then Some visible else if hidden mod lot \<noteq> 0 then Some hidden else None)"
| "lot_violation order lot = (if total_quantity order mod lot \<noteq> 0 then Some (total_quantity order) else None)"

text \<open>The checks that read only the order and the configuration, in order.\<close>

definition static_violation ::
    "('l, 'g) pricelevel_api \<Rightarrow> ('l, 'g) book \<Rightarrow> 'x order_type \<Rightarrow> order_book_error option" where
  "static_violation A b order =
     (let qty = total_quantity order; un = convert_to_unit_type order;
          tick = (case tick_size b of Some t \<Rightarrow> t | None \<Rightarrow> 0);
          lot = (case lot_size b of Some l \<Rightarrow> l | None \<Rightarrow> 0)
      in if checked_total_quantity order = None then Some (QuantityOverflow (visible_of A un) (hidden_of A un))
         else if stp_mode_of b \<noteq> StpNone \<and> ouser order = 0 then Some (MissingUserId (oid order))
         else if 0 < tick \<and> oprice order mod tick \<noteq> 0 then Some (InvalidTickSize (oprice order) tick)
         else if 0 < lot \<and> lot_violation order lot \<noteq> None
           then Some (InvalidLotSize (the (lot_violation order lot)) lot)
         else if (case min_order_size b of Some m \<Rightarrow> qty < m | None \<Rightarrow> False)
           then Some (OrderSizeOutOfRange qty (min_order_size b) (max_order_size b))
         else if (case max_order_size b of Some m \<Rightarrow> m < qty | None \<Rightarrow> False)
           then Some (OrderSizeOutOfRange qty (min_order_size b) (max_order_size b))
         else None)"

text \<open>\<open>if side == Buy { best_ask().unwrap_or(0) } else { best_bid().unwrap_or(0) }\<close>.\<close>

definition opposite_best :: "('l, 'g) book \<Rightarrow> side \<Rightarrow> u128 \<times> ('l, 'g) book" where
  "opposite_best b s =
     (let (p, b1) = (case s of Buy \<Rightarrow> best_ask b | Sell \<Rightarrow> best_bid b)
      in ((case p of Some x \<Rightarrow> x | None \<Rightarrow> 0), b1))"

definition validate_order_shape ::
    "('l, 'g) pricelevel_api \<Rightarrow> ('l, 'g) book \<Rightarrow> 'x order_type \<Rightarrow> (order_book_error + unit) \<times> ('l, 'g) book" where
  "validate_order_shape A b order =
     (case static_violation A b order of
        Some err \<Rightarrow> (Inl err, b)
      | None \<Rightarrow>
          (let un = convert_to_unit_type order;
               (expired, b1) = has_expired A b order
           in if expired then (Inl (InvalidOperation ''Order has already expired''), b1)
              else
                (let (crosses, b2) = (if is_post_only A un then will_cross_market b1 (oprice order) (oside order)
                                      else (False, b1))
                 in if crosses then
                      (let (opp, b3) = opposite_best b2 (oside order)
                       in (Inl (PriceCrossing (oprice order) (oside order) opp), b3))
                    else if is_fill_or_kill A un then
                      (let potential_match = fok_fillable_quantity A b2 (oside order) (total_quantity order)
                                               (Some (oprice order)) (ouser order) (oid order)
                       in if potential_match < total_quantity order
                          then (Inl (InsufficientLiquidity (oside order) (total_quantity order) potential_match), b2)
                          else (Inr (), b2))
                    else (Inr (), b2))))"

definition record_shape_rejection ::
    "('l, 'g) book \<Rightarrow> 'x order_type \<Rightarrow> order_book_error \<Rightarrow> ('l, 'g) book" where
  "record_shape_rejection b order err =
     (case err of
        MissingUserId _ \<Rightarrow> track_state b (oid order) (Rejected RejMissingUserId)
      | QuantityOverflow _ _ \<Rightarrow> track_state b (oid order) (Rejected RejInvalidQuantity)
      | InvalidTickSize _ _ \<Rightarrow> track_state b (oid order) (Rejected RejInvalidPrice)
      | InvalidLotSize _ _ \<Rightarrow> track_state b (oid order) (Rejected RejInvalidQuantity)
      | OrderSizeOutOfRange _ _ _ \<Rightarrow> track_state b (oid order) (Rejected RejOrderSizeOutOfRange)
      | PriceCrossing _ _ _ \<Rightarrow> track_state b (oid order) (Rejected RejPostOnlyWouldCross)
      | InsufficientLiquidity _ _ _ \<Rightarrow>
          record_reject (track_state b (oid order) (Cancelled 0 CancelInsufficientLiquidity)) RejInsufficientLiquidity
      | _ \<Rightarrow> b)"

text \<open>The self-cross walk of a modification over the opposite levels: does the sweep reach an own
  maker with quantity left?\<close>

fun self_cross_loop ::
    "('l, 'g) pricelevel_api \<Rightarrow> side \<Rightarrow> u128 \<Rightarrow> hash32 \<Rightarrow> ident \<Rightarrow> u64 \<Rightarrow> (u128 \<times> 'l) list \<Rightarrow> bool" where
  "self_cross_loop A s new_price user order_id remaining [] = False"
| "self_cross_loop A s new_price user order_id remaining ((price, l) # rest) =
     (if remaining = 0 then False
      else if \<not> (case s of Buy \<Rightarrow> price \<le> new_price | Sell \<Rightarrow> new_price \<le> price) then False
      else if (\<exists>od \<in> set (iter_orders A l). ouser od = user) then True
      else self_cross_loop A s new_price user order_id
             (sat_sub remaining (matchable_quantity A l remaining order_id)) rest)"

definition check_modify_stp_self_cross ::
    "('l, 'g) pricelevel_api \<Rightarrow> ('l, 'g) book \<Rightarrow> 'x order_type \<Rightarrow> order_book_error + unit" where
  "check_modify_stp_self_cross A b new_order =
     (if stp_mode_of b \<noteq> StpCancelTaker \<and> stp_mode_of b \<noteq> StpCancelBoth then Inr ()
      else if ouser new_order = 0 then Inr ()
      else if self_cross_loop A (oside new_order) (oprice new_order) (ouser new_order) (oid new_order)
                (total_quantity new_order) (sweep_order b (oside new_order))
        then Inl (SelfTradePrevented (stp_mode_of b) (oid new_order) (ouser new_order))
      else Inr ())"

section \<open>Adding\<close>

text \<open>The head-room check for a crossing order that may rest.\<close>

definition check_headroom ::
    "('l, 'g) pricelevel_api \<Rightarrow> ('l, 'g) book \<Rightarrow> 'x order_type \<Rightarrow> (order_book_error + unit) \<times> ('l, 'g) book" where
  "check_headroom A b order =
     (if is_immediate A (convert_to_unit_type order) then (Inr (), b)
      else
        (let (crosses, b1) = will_cross_market b (oprice order) (oside order);
             rejected = (\<lambda>bk. record_reject (track_state bk (oid order) (Rejected RejInvalidQuantity)) RejInvalidQuantity)
         in if \<not> crosses then (Inr (), b1)
            else case sm_get (levels b1 (oside order)) (oprice order) of
                   None \<Rightarrow> (Inr (), b1)
                 | Some l \<Rightarrow>
                     (case level_total A l of
                        Inl err \<Rightarrow> (Inl (PriceLevelError err), rejected b1)
                      | Inr total_here \<Rightarrow>
                          (if checked_add64 total_here (total_quantity order) = None
                           then (Inl (InvalidOperation ''resting order would overflow the aggregate capacity of level''),
                                 rejected b1)
                           else (Inr (), b1)))))"

text \<open>Metrics, the trade result and the trade listener.\<close>

definition emit_trades ::
    "('l, 'g) book \<Rightarrow> bool \<Rightarrow> match_result \<Rightarrow> trade_result option \<times> ('l, 'g) book" where
  "emit_trades b want_result m =
     (if mr_trades m = [] then (None, b)
      else
        (let b1 = record_trades b (length (mr_trades m)) in
         if want_result \<or> trade_listener b1 then
           (let (seq, b2) = next_engine_seq b1;
                tr = (with_fees (symbol b2) m (fee_schedule_of b2))\<lparr>tr_engine_seq := seq\<rparr>
            in (Some tr, if trade_listener b2 then emit b2 (TradeEmitted tr) else b2))
         else (None, b1)))"

text \<open>Resting the remainder.\<close>

definition rest_order ::
    "('l, 'g) pricelevel_api \<Rightarrow> 'x \<Rightarrow> ('l, 'g) book \<Rightarrow> 'x order_type \<Rightarrow> u64 \<Rightarrow> u64 \<Rightarrow> u64 \<Rightarrow>
      (order_book_error + 'x order_type) \<times> ('l, 'g) book" where
  "rest_order A d b order remaining original_qty filled_qty =
     (let order1 = (if remaining < total_quantity order then set_total_remaining order remaining else order);
          price = oprice order1; s = oside order1;
          (m, l) = sm_get_or_insert price (level_new A price) (levels b s);
          b1 = set_levels b s m
      in case level_add A l (convert_to_unit_type order1) of
           (Inl err, l') \<Rightarrow>
             (let b2 = put_level b1 s price l';
                  b3 = (if order_count A l' = 0 then drop_level b2 s price else b2)
              in (Inl (PriceLevelError err), record_depth_metric (invalidate_cache b3)))
         | (Inr admitted, l') \<Rightarrow>
             (let b2 = put_level b1 s price l';
                  b3 = notify_level b2 s (level_price A l') (level_visible A l');
                  b4 = insert_location b3 (oid admitted) price s;
                  b5 = record_depth_metric b4;
                  b6 = b5\<lparr>risk_state := on_admission (risk_state b5) (oid admitted) (ouser order1) price remaining\<rparr>;
                  b7 = track_user_order b6 (ouser order1) (oid admitted);
                  b8 = register_special b7 order1;
                  b9 = track_state b8 (oid order1)
                         (if 0 < filled_qty then PartiallyFilled original_qty filled_qty else Open)
              in (Inr (convert_from_unit_type d admitted), b9)))"

text \<open>Everything after a match that returned an outcome.\<close>

definition settle_order ::
    "('l, 'g) pricelevel_api \<Rightarrow> 'x \<Rightarrow> ('l, 'g) book \<Rightarrow> 'x order_type \<Rightarrow> bool \<Rightarrow> match_outcome \<Rightarrow>
      (order_book_error + 'x order_type \<times> trade_result option) \<times> ('l, 'g) book" where
  "settle_order A d b order want_result out =
     (if taker_post_only_rejected out then
        (let b1 = record_reject (track_state b (oid order) (Rejected RejPostOnlyWouldCross)) RejPostOnlyWouldCross;
             (opp, b2) = opposite_best b1 (oside order)
         in (Inl (PriceCrossing (oprice order) (oside order) opp), b2))
      else
        (let m = mo_result out;
             (trade_result, b1) = emit_trades b want_result m;
             original_qty = total_quantity order;
             filled_qty = sat_sub original_qty (mr_remaining m)
         in if taker_stp_cancelled out then
              (Inl (SelfTradePrevented (stp_mode_of b1) (oid order) (ouser order)),
               record_reject (track_state b1 (oid order) (Cancelled filled_qty SelfTradePrevention))
                 RejSelfTradePrevention)
            else if 0 < mr_remaining m then
              (if is_immediate A (convert_to_unit_type order) then
                 (Inl (InsufficientLiquidity (oside order) (order_quantity order)
                        (sat_sub (order_quantity order) (mr_remaining m))),
                  record_reject (track_state b1 (oid order) (Cancelled filled_qty CancelInsufficientLiquidity))
                    RejInsufficientLiquidity)
               else
                 (case rest_order A d b1 order (mr_remaining m) original_qty filled_qty of
                    (Inl e, b2) \<Rightarrow> (Inl e, b2)
                  | (Inr o', b2) \<Rightarrow> (Inr (o', trade_result), b2)))
            else (Inr (order, trade_result), track_state b1 (oid order) (Filled original_qty))))"

text \<open>The checks before matching.\<close>

definition admit_order ::
    "('l, 'g) pricelevel_api \<Rightarrow> ('l, 'g) book \<Rightarrow> 'x order_type \<Rightarrow> (order_book_error + unit) \<times> ('l, 'g) book" where
  "admit_order A b order =
     (case check_kill_switch_or_reject b (oid order) of
        (Inl e, b1) \<Rightarrow> (Inl e, b1)
      | (Inr _, b1) \<Rightarrow>
          (if checked_total_quantity order = None then
             (let un = convert_to_unit_type order;
                  err = QuantityOverflow (visible_of A un) (hidden_of A un)
              in (Inl err, record_shape_rejection b1 order err))
           else
             (case check_risk_limit_admission b1 (ouser order) (oprice order) (total_quantity order) of
                (Inl err, b2) \<Rightarrow> (Inl err, reject_with_risk b2 (oid order) err)
              | (Inr _, b2) \<Rightarrow>
                  (if order_locations b2 (oid order) \<noteq> None then
                     (Inl (DuplicateOrderId (oid order)), record_reject b2 RejDuplicateOrderId)
                   else
                     (case validate_order_shape A b2 order of
                        (Inl err, b3) \<Rightarrow> (Inl err, record_shape_rejection b3 order err)
                      | (Inr _, b3) \<Rightarrow> check_headroom A b3 order)))))"

definition add_order_inner ::
    "('l, 'g) pricelevel_api \<Rightarrow> 'x \<Rightarrow> ('l, 'g) book \<Rightarrow> 'x order_type \<Rightarrow> bool \<Rightarrow>
      (order_book_error + 'x order_type \<times> trade_result option) \<times> ('l, 'g) book" where
  "add_order_inner A d b order want_result =
     (case admit_order A b order of
        (Inl e, b1) \<Rightarrow> (Inl e, b1)
      | (Inr _, b1) \<Rightarrow>
          (let kind = (if is_post_only A (convert_to_unit_type order) then TakerPostOnly else TakerStandard)
           in case match_order_with_user_outcome A (invalidate_cache b1) (oid order) (oside order)
                     (total_quantity order) (Some (oprice order)) (ouser order) kind of
                (Inl e, b2) \<Rightarrow> (Inl e, b2)
              | (Inr out, b2) \<Rightarrow> settle_order A d b2 order want_result out))"

definition add_order ::
    "('l, 'g) pricelevel_api \<Rightarrow> 'x \<Rightarrow> ('l, 'g) book \<Rightarrow> 'x order_type \<Rightarrow> (order_book_error + 'x order_type) \<times> ('l, 'g) book" where
  "add_order A d b order =
     (case add_order_inner A d b order False of (Inl e, b1) \<Rightarrow> (Inl e, b1) | (Inr (o', _), b1) \<Rightarrow> (Inr o', b1))"

definition add_order_with_result ::
    "('l, 'g) pricelevel_api \<Rightarrow> 'x \<Rightarrow> ('l, 'g) book \<Rightarrow> 'x order_type \<Rightarrow>
      (order_book_error + 'x order_type \<times> trade_result option) \<times> ('l, 'g) book" where
  "add_order_with_result A d b order = add_order_inner A d b order True"

section \<open>Modifying\<close>

text \<open>The tail shared by the three cancel-then-add updates: validate, check risk, check the
  self-cross, then cancel the original and add the new order.\<close>

definition modify_order ::
    "('l, 'g) pricelevel_api \<Rightarrow> 'x \<Rightarrow> ('l, 'g) book \<Rightarrow> ident \<Rightarrow> 'x order_type \<Rightarrow>
      (order_book_error + 'x order_type option) \<times> ('l, 'g) book" where
  "modify_order A d b order_id new_order =
     (case validate_order_shape A b new_order of
        (Inl e, b1) \<Rightarrow> (Inl e, b1)
      | (Inr _, b1) \<Rightarrow>
          (case check_risk_modify_admission b1 order_id (ouser new_order) (oprice new_order) (total_quantity new_order) of
             (Inl e, b2) \<Rightarrow> (Inl e, b2)
           | (Inr _, b2) \<Rightarrow>
               (case check_modify_stp_self_cross A b2 new_order of
                  Inl e \<Rightarrow> (Inl e, b2)
                | Inr _ \<Rightarrow>
                    (case cancel_order_with_reason A d b2 order_id UserRequested of
                       (Inl e, b3) \<Rightarrow> (Inl e, b3)
                     | (Inr _, b3) \<Rightarrow>
                         (case add_order_inner A d b3 new_order False of
                            (Inl e, b4) \<Rightarrow> (Inl e, b4)
                          | (Inr (o', _), b4) \<Rightarrow> (Inr (Some o'), b4))))))"

definition update_price ::
    "('l, 'g) pricelevel_api \<Rightarrow> 'x \<Rightarrow> ('l, 'g) book \<Rightarrow> ident \<Rightarrow> u128 \<Rightarrow>
      (order_book_error + 'x order_type option) \<times> ('l, 'g) book" where
  "update_price A d b order_id new_price =
     (case order_locations b order_id of
        None \<Rightarrow> (Inr None, b)
      | Some (old_price, _) \<Rightarrow>
          (if old_price = new_price
           then (Inl (InvalidOperation ''Cannot update price to the same value''), b)
           else case get_order A d b order_id of
                  None \<Rightarrow> (Inr None, b)
                | Some original \<Rightarrow> modify_order A d b order_id (with_price original new_price)))"

definition update_quantity_of ::
    "('l, 'g) pricelevel_api \<Rightarrow> 'x \<Rightarrow> ('l, 'g) book \<Rightarrow> ident \<Rightarrow> u64 \<Rightarrow>
      (order_book_error + 'x order_type option) \<times> ('l, 'g) book" where
  "update_quantity_of A d b order_id new_quantity =
     (case order_locations b order_id of
        None \<Rightarrow> (Inr None, b)
      | Some (price, s) \<Rightarrow>
          (case sm_get (levels b s) price of
             None \<Rightarrow> (Inr None, invalidate_cache b)
           | Some l \<Rightarrow>
               (case find (\<lambda>od. oid od = order_id) (iter_orders A l) of
                  None \<Rightarrow> (Inr None, b)
                | Some current \<Rightarrow>
                    (let projected = convert_from_unit_type d (with_reduced_quantity A current new_quantity) in
                     case validate_order_shape A b projected of
                       (Inl e, b1) \<Rightarrow> (Inl e, b1)
                     | (Inr _, b1) \<Rightarrow>
                         (case check_risk_modify_admission b1 order_id (ouser projected) price (total_quantity projected) of
                            (Inl e, b2) \<Rightarrow> (Inl e, b2)
                          | (Inr _, b2) \<Rightarrow>
                              (case level_update A l (UpdateQuantity order_id new_quantity) of
                                 (Inl err, l') \<Rightarrow> (Inl (PriceLevelError err), put_level b2 s price l')
                               | (Inr updated, l') \<Rightarrow>
                                   (let b3 = put_level b2 s price l';
                                        (result, b4) =
                                          (case updated of
                                             None \<Rightarrow> (None, b3)
                                           | Some od \<Rightarrow>
                                               (Some (convert_from_unit_type d od),
                                                notify_level
                                                  (b3\<lparr>risk_state := on_quantity_update (risk_state b3) order_id (total_quantity od)\<rparr>)
                                                  s (level_price A l') (level_visible A l')));
                                        is_empty = (order_count A l' = 0);
                                        b5 = (if is_empty
                                              then untrack_order_by_id (remove_location (drop_level b4 s price) order_id) order_id
                                              else b4);
                                        b6 = invalidate_cache b5
                                    in (Inr result, if is_empty then record_depth_metric b6 else b6))))))))"

definition update_price_and_quantity ::
    "('l, 'g) pricelevel_api \<Rightarrow> 'x \<Rightarrow> ('l, 'g) book \<Rightarrow> ident \<Rightarrow> u128 \<Rightarrow> u64 \<Rightarrow>
      (order_book_error + 'x order_type option) \<times> ('l, 'g) book" where
  "update_price_and_quantity A d b order_id new_price new_quantity =
     (case order_locations b order_id of
        None \<Rightarrow> (Inr None, b)
      | Some _ \<Rightarrow>
          (case get_order A d b order_id of
             None \<Rightarrow> (Inr None, b)
           | Some original \<Rightarrow>
               modify_order A d b order_id (set_quantity (with_price original new_price) new_quantity)))"

definition update_cancel ::
    "('l, 'g) pricelevel_api \<Rightarrow> 'x \<Rightarrow> ('l, 'g) book \<Rightarrow> ident \<Rightarrow>
      (order_book_error + 'x order_type option) \<times> ('l, 'g) book" where
  "update_cancel A d b order_id =
     (case order_locations b order_id of
        None \<Rightarrow> (Inr None, b)
      | Some (price, s) \<Rightarrow>
          (case get_order A d b order_id of
             None \<Rightarrow> (Inr None, b)
           | Some current_order \<Rightarrow>
               (let (is_empty, b1) =
                  (case sm_get (levels b s) price of
                     None \<Rightarrow> (False, b)
                   | Some l \<Rightarrow>
                       (let (r, l') = level_update A l (Cancel order_id);
                            b' = put_level b s price l'
                        in (order_count A l' = 0,
                            case r of
                              Inr (Some _) \<Rightarrow> notify_level b' s (level_price A l') (level_visible A l')
                            | _ \<Rightarrow> b')));
                    b2 = untrack_order_by_id (remove_location b1 order_id) order_id
                in (Inr (Some current_order), if is_empty then drop_level b2 s price else b2))))"

definition replace_order ::
    "('l, 'g) pricelevel_api \<Rightarrow> 'x \<Rightarrow> ('l, 'g) book \<Rightarrow> ident \<Rightarrow> u128 \<Rightarrow> u64 \<Rightarrow> side \<Rightarrow>
      (order_book_error + 'x order_type option) \<times> ('l, 'g) book" where
  "replace_order A d b order_id price quantity s =
     (case get_order A d b order_id of
        None \<Rightarrow> (Inr None, b)
      | Some original \<Rightarrow> modify_order A d b order_id (replace_fields original order_id price quantity s))"

fun is_modify :: "order_update \<Rightarrow> bool" where
  "is_modify (Cancel _) = False"
| "is_modify _ = True"

definition update_order ::
    "('l, 'g) pricelevel_api \<Rightarrow> 'x \<Rightarrow> ('l, 'g) book \<Rightarrow> order_update \<Rightarrow>
      (order_book_error + 'x order_type option) \<times> ('l, 'g) book" where
  "update_order A d b update =
     (case (if is_modify update then check_kill_switch b else Inr ()) of
        Inl e \<Rightarrow> (Inl e, b)
      | Inr _ \<Rightarrow>
          (let b1 = invalidate_cache b in
           case update of
             UpdatePrice i p \<Rightarrow> update_price A d b1 i p
           | UpdateQuantity i q \<Rightarrow> update_quantity_of A d b1 i q
           | UpdatePriceAndQuantity i p q \<Rightarrow> update_price_and_quantity A d b1 i p q
           | Cancel i \<Rightarrow> update_cancel A d b1 i
           | Replace i p q s \<Rightarrow> replace_order A d b1 i p q s))"

end
