(* ===== verification/Modify_Inv.thy ===== *)
theory Modify_Inv
  imports Sweep_Book Modifications
begin

text \<open>
  Adding, cancelling and modifying keep the book consistent, and what each of them does to the set
  of resting orders.  A step is \<open>quiet\<close> when it leaves the levels and both indices alone and
  keeps the cache truthful; all checks before matching are quiet.
\<close>

section \<open>Quiet steps\<close>

definition quiet :: "('l, 'g) book \<Rightarrow> ('l, 'g) book \<Rightarrow> bool" where
  "quiet b b' \<longleftrightarrow> bids b' = bids b \<and> asks b' = asks b \<and> order_locations b' = order_locations b \<and>
     user_orders b' = user_orders b \<and> kill_switch b' = kill_switch b \<and> conf_of b' = conf_of b \<and>
     (cache_ok b \<longrightarrow> cache_ok b')"

lemma quiet_refl [simp, intro]: "quiet b b"
  by (simp add: quiet_def)

lemma quiet_trans [trans]: "quiet a b \<Longrightarrow> quiet b c \<Longrightarrow> quiet a c"
  by (simp add: quiet_def)

lemma quiet_levels: "quiet b b' \<Longrightarrow> levels b' = levels b"
  by (rule levels_cong) (simp_all add: quiet_def)

lemma quietD:
  assumes "quiet b b'"
  shows "order_locations b' = order_locations b" "user_orders b' = user_orders b" "resting A b' = resting A b"
    "kill_switch b' = kill_switch b" "stp_mode_of b' = stp_mode_of b"
  using assms resting_cong [OF quiet_levels [OF assms]] by (simp_all add: quiet_def conf_of_def)

lemma quiet_book_inv: "quiet b b' \<Longrightarrow> book_inv A ok b \<Longrightarrow> book_inv A ok b'"
  using book_inv_cong [OF quiet_levels, of b b'] by (auto simp: quiet_def book_inv_def)

lemma quiet_frames [intro]:
  "quiet b (record_reject b r)" "quiet b (track_state b i st)" "quiet b (record_trades b n)"
  "quiet b (record_depth_metric b)" "quiet b (notify_level b s p q)" "quiet b (invalidate_cache b)"
  "quiet b (b\<lparr>risk_state := rs\<rparr>)" "quiet b (b\<lparr>book_clock := c\<rparr>)" "quiet b (emit b ev)"
  "quiet b (snd (next_engine_seq b))" "quiet b (register_special b od)" "quiet b (unregister_special b i)"
  by (auto simp: quiet_def conf_of_def cache_ok_def emit_def next_engine_seq_def)

lemma quiet_best_bid: "quiet b (snd (best_bid b))"
proof -
  have "bids (snd (best_bid b)) = bids b \<and> asks (snd (best_bid b)) = asks b \<and>
      order_locations (snd (best_bid b)) = order_locations b \<and> user_orders (snd (best_bid b)) = user_orders b \<and>
      kill_switch (snd (best_bid b)) = kill_switch b \<and> conf_of (snd (best_bid b)) = conf_of b"
    by (simp add: best_bid_def Let_def conf_of_def split: option.splits)
  then show ?thesis
    using best_bid_correct(2) [of b "fst (best_bid b)" "snd (best_bid b)"] by (auto simp: quiet_def)
qed

lemma quiet_best_ask: "quiet b (snd (best_ask b))"
proof -
  have "bids (snd (best_ask b)) = bids b \<and> asks (snd (best_ask b)) = asks b \<and>
      order_locations (snd (best_ask b)) = order_locations b \<and> user_orders (snd (best_ask b)) = user_orders b \<and>
      kill_switch (snd (best_ask b)) = kill_switch b \<and> conf_of (snd (best_ask b)) = conf_of b"
    by (simp add: best_ask_def Let_def conf_of_def split: option.splits)
  then show ?thesis
    using best_ask_correct(2) [of b "fst (best_ask b)" "snd (best_ask b)"] by (auto simp: quiet_def)
qed

lemma quiet_reads:
  "quiet b (snd (will_cross_market b p s))" "quiet b (snd (opposite_best b s))" "quiet b (snd (has_expired A b od))"
  "quiet b (snd (spread b))" "quiet b (snd (resolve_reference_price b src))"
  using quiet_best_bid [of b] quiet_best_ask [of b]
    quiet_trans [OF quiet_best_bid quiet_best_ask, of b] quiet_frames(8) [of b]
  by (simp_all add: will_cross_market_def opposite_best_def has_expired_def spread_def resolve_reference_price_def
      Let_def case_prod_unfold split: side.splits reference_price_source.splits)

lemma quiet_risk_limit: "quiet b (snd (check_risk_limit_admission b a p q))"
proof -
  have "quiet b (snd (resolve_reference_price b src)\<lparr>risk_state := rs\<rparr>)" for src rs
    by (rule quiet_trans [OF quiet_reads(5) quiet_frames(7)])
  then show ?thesis
    by (auto simp: check_risk_limit_admission_def Let_def case_prod_unfold split: option.splits)
qed

lemma quiet_risk_modify: "quiet b (snd (check_risk_modify_admission b i a p q))"
proof -
  have "quiet b (snd (resolve_reference_price b src)\<lparr>risk_state := rs\<rparr>)" for src rs
    by (rule quiet_trans [OF quiet_reads(5) quiet_frames(7)])
  then show ?thesis
    by (auto simp: check_risk_modify_admission_def Let_def case_prod_unfold split: option.splits)
qed

lemma quiet_kill_switch: "quiet b (snd (check_kill_switch_or_reject b i))"
  by (auto simp: check_kill_switch_or_reject_def)

lemma quiet_reject: "quiet b (record_shape_rejection b od e)" "quiet b (reject_with_risk b i e)"
  using quiet_trans [OF quiet_frames(2) quiet_frames(1)]
  by (auto simp: record_shape_rejection_def reject_with_risk_def split: order_book_error.splits)

lemma quiet_validate: "quiet b (snd (validate_order_shape A b od))"
proof -
  let ?b1 = "snd (has_expired A b od)"
  have 1: "quiet b ?b1" by (rule quiet_reads)
  have 2: "quiet b (snd (will_cross_market ?b1 p s))" for p s by (rule quiet_trans [OF 1 quiet_reads(1)])
  have 3: "quiet b (snd (opposite_best (snd (will_cross_market ?b1 p s)) t))" for p s t
    by (rule quiet_trans [OF 2 quiet_reads(2)])
  show ?thesis
    using 1 2 3 by (auto simp: validate_order_shape_def Let_def case_prod_unfold split: option.splits)
qed

lemma quiet_headroom: "quiet b (snd (check_headroom A b od))"
proof -
  let ?b1 = "snd (will_cross_market b (oprice od) (oside od))"
  have 1: "quiet b ?b1" by (rule quiet_reads)
  have 2: "quiet b (record_reject (track_state ?b1 i st) r)" for i st r
    by (rule quiet_trans [OF quiet_trans [OF 1 quiet_frames(2)] quiet_frames(1)])
  show ?thesis
    using 1 2 by (auto simp: check_headroom_def Let_def case_prod_unfold split: option.splits sum.splits)
qed

lemma quiet_emit_trades: "quiet b (snd (emit_trades b w m))"
proof -
  let ?b1 = "record_trades b (length (mr_trades m))"
  have 1: "quiet b ?b1" by (rule quiet_frames)
  have 2: "quiet b (snd (next_engine_seq ?b1))" by (rule quiet_trans [OF 1 quiet_frames(10)])
  have 3: "quiet b (emit (snd (next_engine_seq ?b1)) ev)" for ev by (rule quiet_trans [OF 2 quiet_frames(9)])
  show ?thesis using 1 2 3 by (simp add: emit_trades_def Let_def case_prod_unfold)
qed

text \<open>An order that passes admission is not resting, and admission is quiet.\<close>

lemma admit_order_quiet: "quiet b (snd (admit_order A b od))"
proof -
  let ?b1 = "snd (check_kill_switch_or_reject b (oid od))"
  let ?b2 = "snd (check_risk_limit_admission ?b1 (ouser od) (oprice od) (total_quantity od))"
  let ?b3 = "snd (validate_order_shape A ?b2 od)"
  have 1: "quiet b ?b1" by (rule quiet_kill_switch)
  have 2: "quiet b ?b2" by (rule quiet_trans [OF 1 quiet_risk_limit])
  have 3: "quiet b ?b3" by (rule quiet_trans [OF 2 quiet_validate])
  have 4: "quiet b (snd (check_headroom A ?b3 od))" by (rule quiet_trans [OF 3 quiet_headroom])
  have 5: "quiet b (record_shape_rejection ?b1 od e)" "quiet b (reject_with_risk ?b2 i e)"
    "quiet b (record_reject ?b2 r)" "quiet b (record_shape_rejection ?b3 od e)" for e i r
    by (rule quiet_trans [OF 1 quiet_reject(1)], rule quiet_trans [OF 2 quiet_reject(2)],
        rule quiet_trans [OF 2 quiet_frames(1)], rule quiet_trans [OF 3 quiet_reject(1)])
  show ?thesis
    using 1 2 3 4 5
    by (auto simp: admit_order_def Let_def case_prod_unfold split: sum.splits if_splits prod.splits)
qed

lemma admit_order_fresh:
  assumes "admit_order A b od = (Inr x, b')"
  shows "order_locations b' (oid od) = None"
proof -
  let ?b1 = "snd (check_kill_switch_or_reject b (oid od))"
  let ?b2 = "snd (check_risk_limit_admission ?b1 (ouser od) (oprice od) (total_quantity od))"
  have "order_locations ?b2 (oid od) = None"
    using assms
    by (auto simp: admit_order_def Let_def case_prod_unfold simp del: not_None_eq split: sum.splits if_splits prod.splits)
  moreover have "quiet ?b2 b'"
    using assms quiet_trans [OF quiet_validate [of ?b2 A od] quiet_headroom [of "snd (validate_order_shape A ?b2 od)" A od]]
    by (auto simp: admit_order_def Let_def case_prod_unfold split: sum.splits if_splits prod.splits)
  ultimately show ?thesis by (simp add: quietD(1))
qed

section \<open>Removing one order\<close>

lemma book_inv_pend: "book_inv A ok b \<longleftrightarrow> levels_wf A ok b \<and> no_empty A b \<and> pend A b {} \<and> cache_ok b"
  by (auto simp: book_inv_def pend_def)

lemma book_unique: "book_inv A ok b \<Longrightarrow> x \<in> resting A b \<Longrightarrow> y \<in> resting A b \<Longrightarrow> fst x = fst y \<Longrightarrow> x = y"
  using pend_unique [of A b "{}" x y] by (simp add: book_inv_pend)

lemma resting_filter:
  assumes inv: "book_inv A ok b" and get: "sm_get (levels b s) p = Some l"
    and od: "od \<in> set (snapshot_by_seq A l)" "oid od = i"
    and l': "snapshot_by_seq A l' = filter (\<lambda>x. oid x \<noteq> i) (snapshot_by_seq A l)"
  shows "resting A (put_level b s p l') = without i (resting A b)"
proof (rule set_eqI)
  fix x
  have wf: "levels_wf A ok b" using inv by (simp add: book_inv_def)
  have mem: "(i, ouser od, p, s) \<in> resting A b" using get od by (force simp: resting_iff)
  show "x \<in> resting A (put_level b s p l') \<longleftrightarrow> x \<in> without i (resting A b)"
  proof (cases "snd (snd x) = (p, s)")
    case True
    then show ?thesis using get by (cases x) (auto simp: resting_put [OF wf] l' resting_iff)
  next
    case False
    then have "fst x \<noteq> i" if "x \<in> resting A b" using book_unique [OF inv that mem] by (metis fst_conv snd_conv)
    then show ?thesis using False by (cases x) (auto simp: resting_put [OF wf])
  qed
qed

lemma remove_one:
  assumes inv: "book_inv A ok b" and get: "sm_get (levels b s) p = Some l"
    and od: "od \<in> set (snapshot_by_seq A l)" "oid od = i"
    and l': "ok l'" "level_price A l' = p" "snapshot_by_seq A l' = filter (\<lambda>x. oid x \<noteq> i) (snapshot_by_seq A l)"
    and lv: "levels b' = (if snapshot_by_seq A l' = [] then levels (drop_level (put_level b s p l') s p)
        else levels (put_level b s p l'))"
    and loc: "order_locations b' = (order_locations b)(i := None)"
    and usr: "usr_idx (user_orders b') (without i (resting A b))"
    and ca: "cache_ok b'"
  shows "book_inv A ok b' \<and> resting A b' = without i (resting A b)"
proof -
  have wf: "levels_wf A ok b" and ne: "no_empty A b" and lc: "loc_idx (order_locations b) (resting A b)"
    using inv by (auto simp: book_inv_def)
  have wf1: "levels_wf A ok (put_level b s p l')" by (rule put_level_wf [OF wf l'(1,2)])
  have g1: "sm_get (levels (put_level b s p l') s) p = Some l'" by (simp add: put_level_get [OF wf])
  have rest: "resting A b' = without i (resting A b)"
  proof (cases "snapshot_by_seq A l' = []")
    case True
    then have "resting A b' = resting A (drop_level (put_level b s p l') s p)"
      by (intro resting_cong) (simp add: lv)
    then show ?thesis using resting_drop_empty [OF g1 True] resting_filter [OF inv get od l'(3)] by simp
  next
    case False
    then have "resting A b' = resting A (put_level b s p l')" by (intro resting_cong) (simp add: lv)
    then show ?thesis using resting_filter [OF inv get od l'(3)] by simp
  qed
  have "levels_wf A ok b'"
    using wf1 drop_level_wf [OF wf1, of s p] lv by (simp add: levels_wf_def split: if_splits)
  moreover have "no_empty A b'"
    using ne unfolding no_empty_def lv by (auto simp: drop_level_get put_level_get [OF wf] split: if_splits)
  ultimately show ?thesis
    using rest loc usr ca loc_idx_remove [OF lc, of i] by (simp add: book_inv_def)
qed

lemma book_inv_located:
  assumes "book_inv A ok b" "order_locations b i = Some (p, s)"
  obtains l od where "sm_get (levels b s) p = Some l" "od \<in> set (snapshot_by_seq A l)" "oid od = i" "ok l"
    "level_price A l = p"
proof -
  obtain u where "(i, u, p, s) \<in> resting A b" using assms by (auto simp: book_inv_def loc_idx_def)
  then obtain l where "sm_get (levels b s) p = Some l" "(i, u) \<in> tag ` set (snapshot_by_seq A l)"
    by (auto simp: resting_iff)
  then show thesis using that levels_wfD(2,3) [of A ok b s p l] assms(1) by (auto simp: book_inv_def)
qed

lemma usr_idx_cancel:
  assumes "book_inv A ok b" "sm_get (levels b s) p = Some l" "od \<in> set (snapshot_by_seq A l)" "oid od = i"
    and "user_orders b' = user_orders b"
  shows "usr_idx (user_orders (untrack_user_order b' (ouser od) i)) (without i (resting A b))"
    "usr_idx (user_orders (untrack_order_by_id b' i)) (without i (resting A b))"
proof -
  have U: "usr_idx (user_orders b') (resting A b)" using assms(1,5) by (simp add: book_inv_def)
  have mem: "(i, ouser od, p, s) \<in> resting A b" using assms(2-4) by (force simp: resting_iff)
  show "usr_idx (user_orders (untrack_user_order b' (ouser od) i)) (without i (resting A b))"
    by (rule usr_idx_untrack_user [OF U]) (use book_unique [OF assms(1) mem] in fastforce)
  show "usr_idx (user_orders (untrack_order_by_id b' i)) (without i (resting A b))"
    by (rule usr_idx_untrack_by_id [OF U])
qed

lemma cancel_located:
  assumes "price_levels A ok" "book_inv A ok b" "cancel_order_with_reason A d b i reason = (r, b')"
    "order_locations b i = Some (p, s)"
  obtains l od l' where "sm_get (levels b s) p = Some l" "od \<in> set (snapshot_by_seq A l)" "oid od = i"
    "ok l'" "level_price A l' = p" "snapshot_by_seq A l' = filter (\<lambda>x. oid x \<noteq> i) (snapshot_by_seq A l)"
    "levels b' = (if snapshot_by_seq A l' = [] then levels (drop_level (put_level b s p l') s p)
        else levels (put_level b s p l'))"
    "order_locations b' = (order_locations b)(i := None)"
    "user_orders b' = user_orders (untrack_user_order b (ouser od) i)"
    "cache b' = invalidate (cache b)" "r = Inr (Some (convert_from_unit_type d od))"
    "market_close_for_expiry b' = market_close_for_expiry b"
proof -
  from assms(2,4) obtain l od where l: "sm_get (levels b s) p = Some l"
    "od \<in> set (snapshot_by_seq A l)" "oid od = i" "ok l" "level_price A l = p" by (rule book_inv_located)
  obtain l' where u: "level_update A l (Cancel i) = (Inr (Some od), l')" "ok l'" "level_price A l' = p"
    "snapshot_by_seq A l' = filter (\<lambda>x. oid x \<noteq> i) (snapshot_by_seq A l)"
    using price_levels.cancel_present [OF assms(1) l(4,2)] l(3,5) by auto
  have emp: "order_count A l' = 0 \<longleftrightarrow> snapshot_by_seq A l' = []"
    using price_levels.count [OF assms(1) u(2)] by simp
  note run = assms(3,4) l(1) u(1)
  have "r = Inr (Some (convert_from_unit_type d od))"
    using run by (auto simp: cancel_order_with_reason_def Let_def)
  moreover have "levels b' = (if snapshot_by_seq A l' = [] then levels (drop_level (put_level b s p l') s p)
        else levels (put_level b s p l'))"
    using run emp
    by (auto simp: cancel_order_with_reason_def Let_def drop_level_def put_level_def intro!: ext)
  moreover have "order_locations b' = (order_locations b)(i := None)"
    using run by (auto simp: cancel_order_with_reason_def Let_def)
  moreover have "user_orders b' = user_orders (untrack_user_order b (ouser od) i)"
    using run by (auto simp: cancel_order_with_reason_def Let_def intro!: untrack_user_cong)
  moreover have "cache b' = invalidate (cache b)"
    using run by (auto simp: cancel_order_with_reason_def Let_def)
  moreover have "market_close_for_expiry b' = market_close_for_expiry b"
    using run by (auto simp: cancel_order_with_reason_def Let_def market_close_for_expiry_def split: if_splits)
  ultimately show thesis using that l(1-3) u(2-4) by blast
qed

lemma cancel_book_inv:
  assumes "price_levels A ok" "book_inv A ok b" "cancel_order_with_reason A d b i reason = (r, b')"
  shows "book_inv A ok b' \<and> resting A b' = without i (resting A b) \<and>
    (\<exists>c. r = Inr c \<and> (c = None \<longleftrightarrow> order_locations b i = None)) \<and> cache_ok b'"
proof (cases "order_locations b i")
  case None
  then have "r = Inr None" "b' = invalidate_cache b"
    using assms(3) by (auto simp: cancel_order_with_reason_def)
  moreover have "without i (resting A b) = resting A b"
    using loc_idx_without [of "order_locations b" "resting A b" i] None assms(2) by (simp add: book_inv_def)
  ultimately show ?thesis
    using None quietD(3) [OF quiet_frames(6), of A b] book_inv_frames(7) [OF assms(2)] book_inv_cache_ok by auto
next
  case (Some e)
  obtain p s where "e = (p, s)" by (cases e)
  with Some have "order_locations b i = Some (p, s)" by simp
  from assms this show ?thesis
  proof (rule cancel_located, goal_cases)
    case (1 l od l')
    have "book_inv A ok b' \<and> resting A b' = without i (resting A b)"
      using usr_idx_cancel(1) [OF assms(2) 1(1-3), of b] 1(9,10)
      by (intro remove_one [OF assms(2) 1(1-8)]) auto
    then show ?case using 1(10,11) Some by auto
  qed
qed

section \<open>Resting an order\<close>

lemma find_unique_oid:
  assumes "distinct (map oid ys)" "mset xs = mset ys" "od \<in> set ys"
  shows "find (\<lambda>x. oid x = oid od) xs = Some od"
proof -
  have mem: "od \<in> set xs" using assms(2,3) mset_eq_setD by blast
  have uniq: "x = od" if "x \<in> set xs" "oid x = oid od" for x
    using that assms mset_eq_setD [OF assms(2)] by (auto simp: distinct_map dest: inj_onD)
  obtain x where x: "find (\<lambda>x. oid x = oid od) xs = Some x"
    using mem by (cases "find (\<lambda>x. oid x = oid od) xs") (auto simp: find_None_iff)
  then have "x \<in> set xs" "oid x = oid od" by (auto simp: find_Some_iff in_set_conv_nth)
  then show ?thesis using uniq x by blast
qed

lemma sm_get_or_insert_spec:
  assumes "sm_invar m" "sm_get_or_insert k v m = (m', w)"
  shows "sm_invar m'" "sm_get m' = (sm_get m)(k \<mapsto> w)" "w = (case sm_get m k of Some x \<Rightarrow> x | None \<Rightarrow> v)"
  using assms by (auto simp: sm_get_or_insert_def sm_invar_insert fun_eq_iff split: option.splits)

lemma rest_order_inv:
  assumes P: "price_levels A ok" and inv: "book_inv A ok b" and ca: "cache b = invalidate c"
    and fresh: "order_locations b (oid od) = None"
    and r: "rest_order A d b od q n f = (r, b')"
  shows "book_inv A ok b' \<and> (case r of Inl _ \<Rightarrow> resting A b' = resting A b
     | Inr o' \<Rightarrow> resting A b' = insert (oid od, ouser od, oprice od, oside od) (resting A b) \<and>
         o' = convert_from_unit_type d (convert_to_unit_type (if q < total_quantity od then set_total_remaining od q else od)) \<and>
         get_order A d b' (oid od) = Some o')"
proof -
  let ?od = "if q < total_quantity od then set_total_remaining od q else od"
  let ?s = "oside od" and ?p = "oprice od" and ?i = "oid od"
  have sel: "oid ?od = ?i" "oprice ?od = ?p" "oside ?od = ?s" "ouser ?od = ouser od" by auto
  have wf: "levels_wf A ok b" and ne: "no_empty A b" and lc: "loc_idx (order_locations b) (resting A b)"
    and us: "usr_idx (user_orders b) (resting A b)" using inv by (auto simp: book_inv_def)
  obtain m l where ml: "sm_get_or_insert ?p (level_new A ?p) (levels b ?s) = (m, l)" by fastforce
  note m = sm_get_or_insert_spec [OF levels_wfD(1) [OF wf] ml]
  have l: "ok l" "level_price A l = ?p"
    using m(3) levels_wfD(2,3) [OF wf, of ?s ?p] price_levels.new_ok [OF P] price_levels.new_price [OF P]
    by (auto split: option.splits)
  have get_m: "sm_get (levels (set_levels b ?s m) t) k = (if t = ?s \<and> k = ?p then Some l else sm_get (levels b t) k)" for t k
    using m(2) by simp
  have wf1: "levels_wf A ok (set_levels b ?s m)"
    using wf m(1) l get_m unfolding levels_wf_def by (auto split: if_splits)
  have put: "sm_get (levels (put_level (set_levels b ?s m) ?s ?p k) t) x = (if t = ?s \<and> x = ?p then Some k else sm_get (levels b t) x)" for k t x
    using put_level_get [OF wf1, of ?s ?p k t x] get_m [of t x] by simp
  have noid: "\<forall>x \<in> resting A b. fst x \<noteq> ?i" using loc_idx_None [OF lc] fresh by simp
  have fr: "?i \<notin> ids (snapshot_by_seq A l)"
  proof
    assume "?i \<in> ids (snapshot_by_seq A l)"
    then have "sm_get (levels b ?s) ?p = Some l"
      using m(3) price_levels.new_orders [OF P] by (auto split: option.splits)
    moreover obtain x where "x \<in> set (snapshot_by_seq A l)" "oid x = ?i"
      using \<open>?i \<in> ids (snapshot_by_seq A l)\<close> by auto
    ultimately have "(?i, ouser x, ?p, ?s) \<in> resting A b" by (force simp: resting_iff)
    then show False using noid by fastforce
  qed
  obtain x l' where add: "level_add A l (convert_to_unit_type ?od) = (x, l')" by fastforce
  show ?thesis
  proof (cases x)
    case (Inl e)
    have l': "l' = l" using price_levels.add_Inl [OF P l(1)] add Inl by blast
    have b': "levels b' = levels (if order_count A l = 0 then drop_level (put_level (set_levels b ?s m) ?s ?p l) ?s ?p
        else put_level (set_levels b ?s m) ?s ?p l)"
      and rest: "r = Inl (PriceLevelError e)" "order_locations b' = order_locations b" "user_orders b' = user_orders b"
        "cache b' = invalidate (cache b)"
      using r ml add Inl l' by (auto simp: rest_order_def Let_def sel)
    have emp: "order_count A l = 0 \<longleftrightarrow> snapshot_by_seq A l = []"
      using price_levels.count [OF P l(1)] by simp
    have "levels b' t = levels b t" for t
    proof (cases "sm_get (levels b ?s) ?p")
      case None
      then have "l = level_new A ?p" using m(3) by simp
      then have z: "order_count A l = 0" using emp price_levels.new_orders [OF P] by simp
      have "sm_invar (levels b' t)"
        unfolding b' using z levels_wfD(1) [OF drop_level_wf [OF put_level_wf [OF wf1 l]]] by simp
      moreover have "sm_get (levels b' t) = sm_get (levels b t)"
        unfolding b' using z None by (auto simp: fun_eq_iff drop_level_get put)
      ultimately show ?thesis using sm_eqI levels_wfD(1) [OF wf] by blast
    next
      case (Some k)
      then have k: "k = l" using m(3) by simp
      then have z: "order_count A l \<noteq> 0" using emp Some ne by (auto simp: no_empty_def)
      have "sm_invar (levels b' t)"
        unfolding b' using z levels_wfD(1) [OF put_level_wf [OF wf1 l]] by simp
      moreover have "sm_get (levels b' t) = sm_get (levels b t)"
        unfolding b' using z Some k by (auto simp: fun_eq_iff put)
      ultimately show ?thesis using sm_eqI levels_wfD(1) [OF wf] by blast
    qed
    then have "levels b' = levels b" by auto
    then show ?thesis
      using book_inv_cong [of b' b A ok] inv rest resting_cong [of b' b A] by simp
  next
    case (Inr o1)
    have o1: "o1 = convert_to_unit_type ?od" and l': "ok l'" "level_price A l' = ?p"
      "snapshot_by_seq A l' = snapshot_by_seq A l @ [convert_to_unit_type ?od]"
      using price_levels.add_Inr [OF P l(1), of "convert_to_unit_type ?od" o1 l'] fr add Inr sel l(2) by auto
    have b': "levels b' = levels (put_level (set_levels b ?s m) ?s ?p l')"
      and loc: "order_locations b' = (order_locations b)(?i \<mapsto> (?p, ?s))"
      and usr: "user_orders b' = user_orders (track_user_order b (ouser od) ?i)"
      and ca': "cache b' = cache b" and rr: "r = Inr (convert_from_unit_type d o1)"
      using r ml add Inr o1
      by (auto simp: rest_order_def Let_def sel track_user_order_def)
    have get': "sm_get (levels b' t) k = (if t = ?s \<and> k = ?p then Some l' else sm_get (levels b t) k)" for t k
      unfolding b' by (rule put)
    have wf': "levels_wf A ok b'"
      using put_level_wf [OF wf1 l'(1,2)] levels_wf_cong [OF b'] by simp
    have tagl: "tag ` set (snapshot_by_seq A l) = {(i, u). (i, u, ?p, ?s) \<in> resting A b}"
      using m(3) price_levels.new_orders [OF P] by (auto simp: resting_iff split: option.splits)
    have rest: "resting A b' = insert (?i, ouser od, ?p, ?s) (resting A b)"
    proof (rule set_eqI)
      fix y :: placement
      obtain j u k t where y: "y = (j, u, k, t)" by (cases y) auto
      have ins: "tag ` set (snapshot_by_seq A l') = insert (?i, ouser od) (tag ` set (snapshot_by_seq A l))"
        unfolding l'(3) using sel by auto
      show "y \<in> resting A b' \<longleftrightarrow> y \<in> insert (?i, ouser od, ?p, ?s) (resting A b)"
      proof (cases "t = ?s \<and> k = ?p")
        case True
        then have "y \<in> resting A b' \<longleftrightarrow> (j, u) \<in> tag ` set (snapshot_by_seq A l')"
          by (simp add: y resting_iff get')
        also have "\<dots> \<longleftrightarrow> (j, u) = (?i, ouser od) \<or> y \<in> resting A b"
          unfolding ins tagl using True by (simp add: y)
        finally show ?thesis using True by (auto simp: y)
      next
        case False
        then have "y \<in> resting A b' \<longleftrightarrow> y \<in> resting A b" unfolding y resting_iff get' by auto
        then show ?thesis using False by (auto simp: y)
      qed
    qed
    have "find (\<lambda>x. oid x = ?i) (iter_orders A l') = Some o1"
      using find_unique_oid [OF price_levels.ids_distinct [OF P l'(1)] price_levels.iter_mset [OF P l'(1)], of o1]
        l'(3) o1 sel(1) by simp
    then have readback: "get_order A d b' ?i = Some (convert_from_unit_type d o1)"
      using get' [of ?s ?p] by (simp add: get_order_def loc rr)
    have "no_empty A b'" using ne l'(3) unfolding no_empty_def get' by (auto split: if_splits)
    moreover have "loc_idx (order_locations b') (resting A b')"
      unfolding loc rest by (rule loc_idx_insert [OF lc fresh])
    moreover have "usr_idx (user_orders b') (resting A b')"
      unfolding usr rest by (rule usr_idx_track [OF us noid])
    ultimately show ?thesis
      using wf' ca ca' rest rr o1 readback by (simp add: book_inv_def)
  qed
qed

section \<open>Adding\<close>

text \<open>What an add may do to the locations: keep or remove old ones, and add its own.\<close>

definition adds_only :: "('l, 'g) book \<Rightarrow> ('l, 'g) book \<Rightarrow> 'x order_type \<Rightarrow> order_book_error + 'y \<Rightarrow> bool" where
  "adds_only b b' od r \<longleftrightarrow> (case r of
       Inl _ \<Rightarrow> order_locations b' \<subseteq>\<^sub>m order_locations b
     | Inr _ \<Rightarrow> order_locations b' \<subseteq>\<^sub>m (order_locations b)(oid od \<mapsto> (oprice od, oside od)))"

lemma map_le_upd_right: "m \<subseteq>\<^sub>m n \<Longrightarrow> m i = None \<Longrightarrow> m \<subseteq>\<^sub>m n(i \<mapsto> v)"
  by (auto simp: map_le_def)

lemma book_locs_resting:
  "book_inv A ok b \<Longrightarrow> order_locations b i = Some (p, s) \<longleftrightarrow> (\<exists>u. (i, u, p, s) \<in> resting A b)"
  by (simp add: book_inv_def loc_idx_def)

lemma rest_order_locs:
  assumes "price_levels A ok" "book_inv A ok b" "cache b = invalidate c"
    "order_locations b (oid od) = None" "rest_order A d b od q n f = (r, b')"
  shows "adds_only b b' od r"
proof -
  note R = rest_order_inv [OF assms]
  have loc: "order_locations b' j = Some (p, s) \<longleftrightarrow> (\<exists>u. (j, u, p, s) \<in> resting A b')" for j p s
    using R book_locs_resting by blast
  have loc0: "order_locations b j = Some (p, s) \<longleftrightarrow> (\<exists>u. (j, u, p, s) \<in> resting A b)" for j p s
    by (rule book_locs_resting [OF assms(2)])
  have le: "order_locations b' \<subseteq>\<^sub>m m"
    if "\<And>j p s. (\<exists>u. (j, u, p, s) \<in> resting A b') \<Longrightarrow> m j = Some (p, s)" for m
    using that unfolding map_le_def by (metis domD loc prod.exhaust_sel)
  show ?thesis
  proof (cases r)
    case (Inl e)
    then show ?thesis using R loc0 by (auto simp: adds_only_def intro!: le)
  next
    case (Inr x)
    have "(oid od, u, p, s) \<notin> resting A b" for u p s using loc0 [of "oid od"] assms(4) by force
    then show ?thesis using R loc0 Inr by (auto simp: adds_only_def intro!: le)
  qed
qed

lemma settle_book_inv:
  assumes P: "price_levels A ok" and inv: "book_inv A ok b" and ca: "cache b = invalidate c"
    and fresh: "order_locations b (oid od) = None" and r: "settle_order A d b od w out = (r, b')"
  shows "book_inv A ok b' \<and> adds_only b b' od r"
proof -
  let ?m = "mo_result out" and ?b1 = "snd (emit_trades b w (mo_result out))"
  have q1: "quiet b ?b1" by (rule quiet_emit_trades)
  have inv1: "book_inv A ok ?b1" by (rule quiet_book_inv [OF q1 inv])
  have ca1: "cache ?b1 = invalidate c"
    using ca by (simp add: emit_trades_def Let_def case_prod_unfold next_engine_seq_def emit_def)
  have fresh1: "order_locations ?b1 (oid od) = None" using fresh quietD(1) [OF q1] by simp
  have quietly: ?thesis if "quiet b b'" "isl r \<or> order_locations b' (oid od) = None"
    using quiet_book_inv [OF that(1) inv] quietD(1) [OF that(1)] fresh
    by (auto simp: adds_only_def intro: map_le_upd_right split: sum.splits)
  consider (post) "taker_post_only_rejected out" | (stp) "\<not> taker_post_only_rejected out" "taker_stp_cancelled out"
    | (ioc) "\<not> taker_post_only_rejected out" "\<not> taker_stp_cancelled out" "0 < mr_remaining ?m" "is_immediate A (convert_to_unit_type od)"
    | (rest) "\<not> taker_post_only_rejected out" "\<not> taker_stp_cancelled out" "0 < mr_remaining ?m" "\<not> is_immediate A (convert_to_unit_type od)"
    | (full) "\<not> taker_post_only_rejected out" "\<not> taker_stp_cancelled out" "mr_remaining ?m = 0" by blast
  then show ?thesis
  proof cases
    case post
    then have "b' = snd (opposite_best (record_reject (track_state b (oid od) (Rejected RejPostOnlyWouldCross)) RejPostOnlyWouldCross) (oside od))"
      "isl r" using r by (auto simp: settle_order_def Let_def case_prod_unfold)
    then show ?thesis
      by (intro quietly) (simp_all add: quiet_trans [OF quiet_trans [OF quiet_frames(2) quiet_frames(1)] quiet_reads(2)])
  next
    case stp
    then have "b' = record_reject (track_state ?b1 (oid od) (Cancelled (sat_sub (total_quantity od) (mr_remaining ?m)) SelfTradePrevention)) RejSelfTradePrevention"
      "isl r" using r by (auto simp: settle_order_def Let_def case_prod_unfold)
    then show ?thesis
      by (intro quietly) (simp_all add: quiet_trans [OF q1 quiet_trans [OF quiet_frames(2) quiet_frames(1)]])
  next
    case ioc
    then have "b' = record_reject (track_state ?b1 (oid od) (Cancelled (sat_sub (total_quantity od) (mr_remaining ?m)) CancelInsufficientLiquidity)) RejInsufficientLiquidity"
      "isl r" using r by (auto simp: settle_order_def Let_def case_prod_unfold)
    then show ?thesis
      by (intro quietly) (simp_all add: quiet_trans [OF q1 quiet_trans [OF quiet_frames(2) quiet_frames(1)]])
  next
    case rest
    obtain x b2 where x: "rest_order A d ?b1 od (mr_remaining ?m) (total_quantity od)
        (sat_sub (total_quantity od) (mr_remaining ?m)) = (x, b2)" by fastforce
    have "b' = b2" "isl r \<longleftrightarrow> isl x"
      using r rest x by (auto simp: settle_order_def Let_def case_prod_unfold split: sum.splits)
    then show ?thesis
      using rest_order_inv [OF P inv1 ca1 fresh1 x] rest_order_locs [OF P inv1 ca1 fresh1 x] quietD(1) [OF q1]
      by (auto simp: adds_only_def split: sum.splits)
  next
    case full
    then have "b' = track_state ?b1 (oid od) (Filled (total_quantity od))"
      using r by (auto simp: settle_order_def Let_def case_prod_unfold)
    then show ?thesis
      using fresh1 by (intro quietly) (simp_all add: quiet_trans [OF q1 quiet_frames(2)])
  qed
qed

lemma add_book_inv:
  assumes P: "price_levels A ok" and inv: "book_inv A ok b" and r: "add_order_inner A d b od w = (r, b')"
  shows "book_inv A ok b' \<and> adds_only b b' od r"
proof -
  obtain x b1 where x: "admit_order A b od = (x, b1)" by fastforce
  have q1: "quiet b b1" using admit_order_quiet [of b A od] x by simp
  have inv1: "book_inv A ok (invalidate_cache b1)"
    by (rule book_inv_frames(7) [OF quiet_book_inv [OF q1 inv]])
  show ?thesis
  proof (cases x)
    case (Inl e)
    then show ?thesis
      using r x quiet_book_inv [OF q1 inv] quietD(1) [OF q1] by (auto simp: add_order_inner_def adds_only_def)
  next
    case (Inr y)
    let ?k = "if is_post_only A (convert_to_unit_type od) then TakerPostOnly else TakerStandard"
    obtain z b2 where z: "match_order_inner A (invalidate_cache b1) (oid od) (oside od)
        (BaseQty (total_quantity od) (Some (oprice od))) (ouser od) ?k = (z, b2)" by fastforce
    have inv2: "book_inv A ok b2" and c2: "\<exists>c. cache b2 = invalidate c"
      using match_book_inv [OF P inv1 z] by auto
    have locs: "order_locations b2 \<subseteq>\<^sub>m order_locations b"
      using match_only_removes [OF P inv1 z] quietD(1) [OF q1] by simp
    have fresh: "order_locations b2 (oid od) = None"
      using map_le_None [OF match_only_removes [OF P inv1 z]] admit_order_fresh [of A b od y b1] x Inr by simp
    show ?thesis
    proof (cases z)
      case (Inl e)
      then show ?thesis
        using r x Inr z inv2 locs
        by (auto simp: add_order_inner_def match_order_with_user_outcome_def Let_def adds_only_def)
    next
      case (Inr out)
      from c2 obtain c where c: "cache b2 = invalidate c" by blast
      have s: "settle_order A d b2 od w out = (r, b')"
        using r x \<open>x = Inr y\<close> z Inr by (simp add: add_order_inner_def match_order_with_user_outcome_def Let_def)
      show ?thesis
        using settle_book_inv [OF P inv2 c fresh s] locs
        by (auto simp: adds_only_def intro: map_le_trans map_le_upd split: sum.splits)
    qed
  qed
qed

section \<open>Modifying\<close>

lemma modify_book_inv:
  assumes P: "price_levels A ok" and inv: "book_inv A ok b" and r: "modify_order A d b i od = (r, b')"
  shows "book_inv A ok b'"
proof -
  obtain x1 b1 where 1: "validate_order_shape A b od = (x1, b1)" by fastforce
  obtain x2 b2 where 2: "check_risk_modify_admission b1 i (ouser od) (oprice od) (total_quantity od) = (x2, b2)" by fastforce
  obtain x3 b3 where 3: "cancel_order_with_reason A d b2 i UserRequested = (x3, b3)" by fastforce
  obtain x4 b4 where 4: "add_order_inner A d b3 od False = (x4, b4)" by fastforce
  have i1: "book_inv A ok b1" using quiet_book_inv [OF quiet_validate inv, of A od] 1 by simp
  have i2: "book_inv A ok b2"
    using quiet_book_inv [OF quiet_risk_modify i1, of i "ouser od" "oprice od" "total_quantity od"] 2 by simp
  have i3: "book_inv A ok b3" using cancel_book_inv [OF P i2 3] by blast
  have i4: "book_inv A ok b4" using add_book_inv [OF P i3 4] by blast
  have "b' \<in> {b1, b2, b3, b4}"
    using r 1 2 3 4 by (auto simp: modify_order_def split: sum.splits)
  then show ?thesis using i1 i2 i3 i4 by blast
qed

lemma update_cancel_inv:
  assumes P: "price_levels A ok" and inv: "book_inv A ok b" and c: "cache b = invalidate c"
    and r: "update_cancel A d b i = (r, b')"
  shows "book_inv A ok b'"
proof (cases "order_locations b i")
  case None
  then show ?thesis using r inv by (simp add: update_cancel_def)
next
  case (Some e)
  obtain p s where e: "e = (p, s)" by (cases e)
  from inv Some [unfolded e] obtain l od where l: "sm_get (levels b s) p = Some l"
    "od \<in> set (snapshot_by_seq A l)" "oid od = i" "ok l" "level_price A l = p" by (rule book_inv_located)
  obtain l' where u: "level_update A l (Cancel i) = (Inr (Some od), l')" "ok l'" "level_price A l' = p"
    "snapshot_by_seq A l' = filter (\<lambda>x. oid x \<noteq> i) (snapshot_by_seq A l)"
    using price_levels.cancel_present [OF P l(4,2)] l(3,5) by auto
  have emp: "order_count A l' = 0 \<longleftrightarrow> snapshot_by_seq A l' = []"
    using price_levels.count [OF P u(2)] by simp
  obtain cur where cur: "get_order A d b i = Some cur"
  proof -
    have "find (\<lambda>x. oid x = i) (iter_orders A l) \<noteq> None"
      using l(2,3) price_levels.iter_set [OF P l(4)] by (auto simp: find_None_iff)
    then show thesis using that Some e l(1) by (auto simp: get_order_def)
  qed
  have lv: "levels b' = (if snapshot_by_seq A l' = [] then levels (drop_level (put_level b s p l') s p)
        else levels (put_level b s p l'))"
    using r Some e l(1) u(1) emp cur
    by (auto simp: update_cancel_def Let_def drop_level_def put_level_def intro!: ext)
  have b': "order_locations b' = (order_locations b)(i := None)"
    "user_orders b' = user_orders (untrack_order_by_id b i)" "cache b' = cache b"
    using r Some e l(1) u(1) cur by (auto simp: update_cancel_def Let_def untrack_order_by_id_def)
  show ?thesis
    using remove_one [OF inv l(1-3) u(2-4) lv b'(1)] usr_idx_cancel(2) [OF inv l(1-3), of b] b'(2,3) c by auto
qed

lemma update_quantity_inv:
  assumes P: "price_levels A ok" and inv: "book_inv A ok b" and q: "0 < q"
    and r: "update_quantity_of A d b i q = (r, b')"
  shows "book_inv A ok b' \<and> resting A b' = resting A b"
proof (cases "order_locations b i")
  case None
  then show ?thesis using r inv by (simp add: update_quantity_of_def)
next
  case (Some e)
  obtain p s where e: "e = (p, s)" by (cases e)
  from inv Some [unfolded e] obtain l od where l: "sm_get (levels b s) p = Some l"
    "od \<in> set (snapshot_by_seq A l)" "oid od = i" "ok l" "level_price A l = p" by (rule book_inv_located)
  obtain cur where cur: "find (\<lambda>x. oid x = i) (iter_orders A l) = Some cur"
    using l(2,3) price_levels.iter_set [OF P l(4)] by (cases "find (\<lambda>x. oid x = i) (iter_orders A l)") (auto simp: find_None_iff)
  let ?pr = "convert_from_unit_type d (with_reduced_quantity A cur q)"
  obtain x1 b1 where 1: "validate_order_shape A b ?pr = (x1, b1)" by fastforce
  obtain x2 b2 where 2: "check_risk_modify_admission b1 i (ouser ?pr) p (total_quantity ?pr) = (x2, b2)" by fastforce
  obtain x3 l' where 3: "level_update A l (UpdateQuantity i q) = (x3, l')" by fastforce
  have q1: "quiet b b1" using quiet_validate [of b A ?pr] 1 by simp
  have q2: "quiet b b2"
    using quiet_trans [OF q1, of b2] quiet_risk_modify [of b1 i "ouser ?pr" p "total_quantity ?pr"] 2 by simp
  have inv2: "book_inv A ok b2" by (rule quiet_book_inv [OF q2 inv])
  have wf2: "levels_wf A ok b2" using inv2 by (simp add: book_inv_def)
  have get2: "sm_get (levels b2 s) p = Some l" using l(1) quiet_levels [OF q2] by simp
  have quietly: ?thesis if "quiet b b'" using quiet_book_inv [OF that inv] quietD(3) [OF that] by simp
  show ?thesis
  proof (cases "isl x1 \<or> isl x2")
    case True
    then have "b' = b1 \<or> b' = b2"
      using r Some e l(1) cur 1 2 by (auto simp: update_quantity_of_def Let_def split: sum.splits)
    then show ?thesis using quietly q1 q2 by blast
  next
    case False
    then have nl: "\<exists>y. x1 = Inr y" "\<exists>y. x2 = Inr y" by (cases x1; cases x2; simp)+
    consider (err) e where "x3 = Inl e" "l' = l" | (upd) od' where "x3 = Inr (Some od')" "ok l'" "level_price A l' = p"
        "mset (map tag (snapshot_by_seq A l')) = mset (map tag (snapshot_by_seq A l))"
      using price_levels.update_quantity [OF P l(4,2) q, of x3 l'] 3 l(3,5) by auto
    then show ?thesis
    proof cases
      case err
      then have "b' = put_level b2 s p l"
        using r Some e l(1) cur 1 2 3 nl by (auto simp: update_quantity_of_def Let_def)
      then have "b' = b2" using put_level_same [OF wf2 get2] by simp
      then show ?thesis using quietly q2 by blast
    next
      case upd
      have tags: "tag ` set (snapshot_by_seq A l') = tag ` set (snapshot_by_seq A l)"
        using arg_cong [OF upd(4), of set_mset] by simp
      then have ne: "snapshot_by_seq A l' \<noteq> []" using l(2) by auto
      then have cnt: "order_count A l' \<noteq> 0" using price_levels.count [OF P upd(2)] by simp
      have b': "levels b' = levels (put_level b2 s p l')" "order_locations b' = order_locations b2"
        "user_orders b' = user_orders b2" "\<exists>c. cache b' = invalidate c"
        using r Some e l(1) cur 1 2 3 nl upd(1) cnt by (auto simp: update_quantity_of_def Let_def)
      have rest2: "resting A (put_level b2 s p l') = resting A b2"
        unfolding resting_put [OF wf2] tags using get2 by (auto simp: resting_iff)
      have rest: "resting A b' = resting A b2" using resting_cong [OF b'(1)] rest2 by simp
      have "levels_wf A ok b'" using put_level_wf [OF wf2 upd(2,3)] levels_wf_cong [OF b'(1)] by simp
      moreover have "no_empty A b'"
        using inv2 ne unfolding no_empty_def b'(1) by (auto simp: put_level_get [OF wf2] book_inv_def no_empty_def)
      ultimately have "book_inv A ok b'" using inv2 rest b' by (auto simp: book_inv_def)
      then show ?thesis using rest quietD(3) [OF q2] by simp
    qed
  qed
qed

text \<open>The book invariant is kept by every update; a quantity update must ask for a positive quantity.\<close>

definition update_allowed :: "order_update \<Rightarrow> bool" where
  "update_allowed u \<longleftrightarrow> (case u of UpdateQuantity _ q \<Rightarrow> 0 < q | _ \<Rightarrow> True)"

lemma update_book_inv:
  assumes P: "price_levels A ok" and inv: "book_inv A ok b" and u: "update_allowed u"
    and r: "update_order A d b u = (r, b')"
  shows "book_inv A ok b'"
proof (cases "is_modify u \<and> kill_switch b")
  case True
  then show ?thesis using r inv by (auto simp: update_order_def check_kill_switch_def)
next
  case False
  let ?b = "invalidate_cache b"
  have inv1: "book_inv A ok ?b" by (rule book_inv_frames(7) [OF inv])
  have step: "update_order A d b u = (case u of
             UpdatePrice i p \<Rightarrow> update_price A d ?b i p
           | UpdateQuantity i q \<Rightarrow> update_quantity_of A d ?b i q
           | UpdatePriceAndQuantity i p q \<Rightarrow> update_price_and_quantity A d ?b i p q
           | Cancel i \<Rightarrow> update_cancel A d ?b i
           | Replace i p q s \<Rightarrow> replace_order A d ?b i p q s)"
    using False by (auto simp: update_order_def check_kill_switch_def Let_def)
  show ?thesis
  proof (cases u)
    case (UpdatePrice i p)
    then show ?thesis using r step inv1 modify_book_inv [OF P inv1 sym]
      by (auto simp: update_price_def split: option.splits if_splits)
  next
    case (UpdateQuantity i q)
    have "update_quantity_of A d ?b i q = (r, b')" using r step UpdateQuantity by simp
    then show ?thesis using u UpdateQuantity update_quantity_inv [OF P inv1, of q d i r b'] by (simp add: update_allowed_def)
  next
    case (UpdatePriceAndQuantity i p q)
    then show ?thesis using r step inv1 modify_book_inv [OF P inv1 sym]
      by (auto simp: update_price_and_quantity_def split: option.splits)
  next
    case (Cancel i)
    then have "update_cancel A d ?b i = (r, b')" using r step by simp
    then show ?thesis using update_cancel_inv [OF P inv1, of "cache b" d i r b'] by simp
  next
    case (Replace i p q s)
    then show ?thesis using r step inv1 modify_book_inv [OF P inv1 sym]
      by (auto simp: replace_order_def split: option.splits)
  qed
qed

end
