(* ===== verification/Order_Flow.thy ===== *)
theory Order_Flow
  imports Modify_Inv
begin

text \<open>
  What a client of the book sees when it adds, cancels or modifies an order: quantities are
  conserved across matching and resting, a fill-or-kill order is filled completely or not at all,
  an immediate order never rests, a rejected order changes nothing, the kill switch stops new
  flow only, and an order that was accepted can be read back and cancelled.
\<close>

section \<open>Flags of a sweep\<close>

context price_levels
begin

lemma sweep_level_flags:
  assumes "sweep_level A i s limit lot u stp TakerStandard ts p l sw = (stop, sw')" "ok l"
  shows "sw_post_only sw' = sw_post_only sw \<and> (\<not> stp \<longrightarrow> sw_stp_cancelled sw' = sw_stp_cancelled sw)"
proof -
  have mp: "sw_post_only y = sw_post_only x \<and> sw_stp_cancelled y = sw_stp_cancelled x"
    if "match_and_process A i s TakerStandard ts q p k x = (k', y)" "ok k" for q k x k' y
    using that by (elim match_and_processE) auto
  have opt: "sw_post_only y = sw_post_only sw"
    if "(if 0 < q then match_and_process A i s TakerStandard ts q p l sw else (l, sw)) = (k, y)" for q k y
    using that mp [of q l sw k y] assms(2) by (auto split: if_splits)
  from assms(1) show ?thesis
  proof (cases rule: sweep_level_cases)
    case (plain l2)
    then show ?thesis using mp [OF plain(4) assms(2)] by simp
  next
    case (own l1 b1 l2)
    then show ?thesis using mp [OF own(6)] cancel_own_all(1) [OF own(5) assms(2)] by simp
  next
    case (taker q l1 sw1)
    then show ?thesis using opt [OF taker(5)] by simp
  next
    case (both q j l1 sw1 l2 b2)
    then show ?thesis using opt [OF both(5)] by simp
  qed simp_all
qed

lemma sweep_flags:
  assumes "\<forall>e \<in> set ls. ok (snd e)"
  shows "sw_post_only (sweep_levels A i s limit lot u stp TakerStandard ts ls sw) = sw_post_only sw \<and>
    (\<not> stp \<longrightarrow> sw_stp_cancelled (sweep_levels A i s limit lot u stp TakerStandard ts ls sw) = sw_stp_cancelled sw)"
proof (rule sweep_levels_induct [where I = "\<lambda>ls x. (\<forall>e \<in> set ls. ok (snd e)) \<and> sw_post_only x = sw_post_only sw \<and>
      (\<not> stp \<longrightarrow> sw_stp_cancelled x = sw_stp_cancelled sw)"])
  show "if stop then sw_post_only x' = sw_post_only sw \<and> (\<not> stp \<longrightarrow> sw_stp_cancelled x' = sw_stp_cancelled sw)
      else (\<forall>e \<in> set rest. ok (snd e)) \<and> sw_post_only x' = sw_post_only sw \<and>
        (\<not> stp \<longrightarrow> sw_stp_cancelled x' = sw_stp_cancelled sw)"
    if "(\<forall>e \<in> set ((p, l) # rest). ok (snd e)) \<and> sw_post_only x = sw_post_only sw \<and>
          (\<not> stp \<longrightarrow> sw_stp_cancelled x = sw_stp_cancelled sw)"
      "sweep_level A i s limit lot u stp TakerStandard ts p l x = (stop, x')" for p l rest x stop x'
    using that sweep_level_flags [OF that(2)] by auto
qed (use assms in auto)

end

lemma run_sweep_flags:
  assumes "price_levels A ok" "levels_wf A ok b"
  shows "\<not> sw_post_only (run_sweep A b i s mode u TakerStandard)"
    "\<not> stp_active b u \<Longrightarrow> \<not> sw_stp_cancelled (run_sweep A b i s mode u TakerStandard)"
proof -
  have "\<forall>e \<in> set (sweep_order b s). ok (snd e)"
    using sweep_order_mem [OF assms(2)] levels_wfD(2) [OF assms(2)] by auto
  note F = price_levels.sweep_flags [OF assms(1) this, of i s "mode_limit_price mode" "lot_of b" u "stp_active b u"
      "fst (now_millis (book_clock b))" "initial_sweep A i mode (start_book b)"]
  show "\<not> sw_post_only (run_sweep A b i s mode u TakerStandard)"
    "\<not> stp_active b u \<Longrightarrow> \<not> sw_stp_cancelled (run_sweep A b i s mode u TakerStandard)"
    using F by (auto simp: run_sweep_def initial_sweep_def)
qed

text \<open>A limit order without self-trade prevention always gets a result from the sweep.\<close>

lemma limit_match_returns:
  assumes "price_levels A ok" "levels_wf A ok b" "\<not> stp_active b u"
  obtains out b' where "match_order_inner A b i s (BaseQty q (Some limit)) u TakerStandard = (Inr out, b')"
    "\<not> taker_post_only_rejected out" "\<not> taker_stp_cancelled out"
proof -
  note F = run_sweep_flags [OF assms(1,2), where i = i and s = s and mode = "BaseQty q (Some limit)" and u = u]
  have "\<exists>out b'. match_order_inner A b i s (BaseQty q (Some limit)) u TakerStandard = (Inr out, b') \<and>
      \<not> taker_post_only_rejected out \<and> \<not> taker_stp_cancelled out"
    using F(1) F(2) [OF assms(3)]
    by (auto simp: match_order_inner_eq empty_book_result_def sweep_verdict_def Let_def outcome_resting_def)
  then show thesis using that by blast
qed

section \<open>The quantity of what rests\<close>

lemma reserve_split:
  fixes v h q :: nat
  assumes "q \<le> v + h"
  defines "visible \<equiv> v - min (v + h - q) v" and "hidden \<equiv> h - ((v + h - q) - min (v + h - q) v)"
  shows "visible + hidden = q"
  using assms by (simp add: min_def)

lemma reduce_reserve_total:
  assumes "checked_total_quantity od = Some n" "q \<le> n" "is_ReserveOrder od"
  shows "total_quantity (reduce_reserve_to_total od q) = q \<and> checked_total_quantity (reduce_reserve_to_total od q) = Some q"
proof (cases od)
  case (ReserveOrder i p v h s u ts tif thr amt auto x)
  have n: "n = v + h" "v + h \<le> u64_max"
    using assms(1) ReserveOrder by (auto simp: checked_add64_def split: if_splits)
  have tot: "sat_add64 v h = v + h" using n(2) by (simp add: sat_add64_def)
  define visible where "visible = v - min (v + h - q) v"
  define hidden where "hidden = h - ((v + h - q) - min (v + h - q) v)"
  have sum: "visible + hidden = q"
    using reserve_split [of q v h] assms(2) n(1) by (simp add: visible_def hidden_def)
  let ?r = "min (case amt of None \<Rightarrow> 0 | Some a \<Rightarrow> a) hidden"
  have "reduce_reserve_to_total od q =
      (if visible = 0 \<and> hidden > 0 then ReserveOrder i p ?r (hidden - ?r) s u ts tif thr amt auto x
       else ReserveOrder i p visible hidden s u ts tif thr amt auto x)"
    unfolding ReserveOrder reduce_reserve_to_total.simps Let_def tot sat_sub_def visible_def hidden_def by (rule refl)
  moreover have "?r + (hidden - ?r) = hidden" by simp
  ultimately show ?thesis
    using sum n assms(2) by (auto simp: sat_add64_def checked_add64_def min_absorb1)
qed (use assms(3) in auto)

lemma set_total_remaining_total:
  assumes "checked_total_quantity od = Some n" "q \<le> n"
  shows "total_quantity (set_total_remaining od q) = q \<and> checked_total_quantity (set_total_remaining od q) = Some q"
proof (cases "is_ReserveOrder od")
  case True
  then have "set_total_remaining od q = reduce_reserve_to_total od q" by (cases od) auto
  then show ?thesis using reduce_reserve_total [OF assms True] by simp
next
  case False
  then show ?thesis
    using assms by (cases od) (auto simp: Let_def checked_add64_def sat_add64_def min_def split: if_splits)
qed

section \<open>The three ways an add ends\<close>

definition kind_of :: "('l, 'g) pricelevel_api \<Rightarrow> 'x order_type \<Rightarrow> taker_kind" where
  "kind_of A od = (if is_post_only A (convert_to_unit_type od) then TakerPostOnly else TakerStandard)"

lemma add_order_innerE:
  assumes "add_order_inner A d b od w = (r, b')"
  obtains (refused) e where "admit_order A b od = (Inl e, b')" "r = Inl e"
  | (unmatched) y b1 e where "admit_order A b od = (Inr y, b1)"
      "match_order_inner A (invalidate_cache b1) (oid od) (oside od)
        (BaseQty (total_quantity od) (Some (oprice od))) (ouser od) (kind_of A od) = (Inl e, b')" "r = Inl e"
  | (settled) y b1 out b2 where "admit_order A b od = (Inr y, b1)"
      "match_order_inner A (invalidate_cache b1) (oid od) (oside od)
        (BaseQty (total_quantity od) (Some (oprice od))) (ouser od) (kind_of A od) = (Inr out, b2)"
      "settle_order A d b2 od w out = (r, b')"
proof -
  obtain x b1 where x: "admit_order A b od = (x, b1)" by fastforce
  obtain z b2 where z: "match_order_inner A (invalidate_cache b1) (oid od) (oside od)
        (BaseQty (total_quantity od) (Some (oprice od))) (ouser od) (kind_of A od) = (z, b2)" by fastforce
  show thesis
  proof (cases x)
    case (Inl e)
    then show ?thesis using x assms by (intro refused [of e]) (auto simp: add_order_inner_def)
  next
    case (Inr y)
    show ?thesis
    proof (cases z)
      case (Inl e)
      then show ?thesis using x \<open>x = Inr y\<close> z assms
        by (intro unmatched [of y b1 e]) (auto simp: add_order_inner_def match_order_with_user_outcome_def kind_of_def Let_def)
    next
      case (Inr out)
      then show ?thesis using x \<open>x = Inr y\<close> z assms
        by (intro settled [of y b1 out b2]) (auto simp: add_order_inner_def match_order_with_user_outcome_def kind_of_def Let_def)
    qed
  qed
qed

lemma add_order_via_inner:
  assumes "add_order A d b od = (r, b')"
  obtains x where "add_order_inner A d b od False = (x, b')"
    "r = (case x of Inl e \<Rightarrow> Inl e | Inr (o', _) \<Rightarrow> Inr o')"
proof -
  obtain x b1 where "add_order_inner A d b od False = (x, b1)" by fastforce
  then show thesis using assms that by (auto simp: add_order_def split: sum.splits prod.splits)
qed

text \<open>The state in which an admitted order meets the matching engine.\<close>

lemma admitted:
  assumes "price_levels A ok" "book_inv A ok b" "admit_order A b od = (Inr y, b1)"
  shows "book_inv A ok (invalidate_cache b1)" "levels (invalidate_cache b1) = levels b"
    "order_locations (invalidate_cache b1) = order_locations b" "order_locations b (oid od) = None"
    "conf_of b1 = conf_of b"
proof -
  have q: "quiet b b1" using admit_order_quiet [of b A od] assms(3) by simp
  show "book_inv A ok (invalidate_cache b1)" by (rule book_inv_frames(7) [OF quiet_book_inv [OF q assms(2)]])
  show "levels (invalidate_cache b1) = levels b" using quiet_levels [OF q] by simp
  show "order_locations (invalidate_cache b1) = order_locations b" using quietD(1) [OF q] by simp
  then show "order_locations b (oid od) = None" using admit_order_fresh [OF assms(3)] by simp
  show "conf_of b1 = conf_of b" using q by (simp add: quiet_def)
qed

lemma admitted_total: "admit_order A b od = (Inr y, b1) \<Longrightarrow> checked_total_quantity od = Some (total_quantity od)"
  by (cases "checked_total_quantity od")
    (auto simp: admit_order_def Let_def dest: checked_total_exact split: sum.splits if_splits prod.splits)

lemma matched_quantities:
  assumes "price_levels A ok" "levels_wf A ok b"
    and "match_order_inner A b i s (BaseQty q limit) u (kind_of A od) = (Inr out, b')"
  shows "traded_quantity (mr_trades (mo_result out)) + mr_remaining (mo_result out) = q"
proof (cases "kind_of A od")
  case TakerStandard
  then show ?thesis using match_quantities [OF assms(1,2)] assms(3) by simp
next
  case TakerPostOnly
  then show ?thesis using post_only_result [OF assms(1,2)] assms(3) by simp
qed

section \<open>Conservation\<close>

lemma settled_cases:
  assumes "settle_order A d b od w out = (Inr x, b')"
  obtains (rests) o' where "0 < mr_remaining (mo_result out)"
      "rest_order A d (snd (emit_trades b w (mo_result out))) od (mr_remaining (mo_result out)) (total_quantity od)
        (sat_sub (total_quantity od) (mr_remaining (mo_result out))) = (Inr o', b')"
      "x = (o', fst (emit_trades b w (mo_result out)))" "\<not> is_immediate A (convert_to_unit_type od)"
  | (filled) "mr_remaining (mo_result out) = 0" "x = (od, fst (emit_trades b w (mo_result out)))"
      "b' = track_state (snd (emit_trades b w (mo_result out))) (oid od) (Filled (total_quantity od))"
proof -
  obtain t b1 where e: "emit_trades b w (mo_result out) = (t, b1)" by fastforce
  obtain r b2 where r: "rest_order A d b1 od (mr_remaining (mo_result out)) (total_quantity od)
        (sat_sub (total_quantity od) (mr_remaining (mo_result out))) = (r, b2)" by fastforce
  have n: "\<not> taker_post_only_rejected out" "\<not> taker_stp_cancelled out"
    using assms e by (auto simp: settle_order_def Let_def case_prod_unfold split: if_splits)
  show thesis
  proof (cases "0 < mr_remaining (mo_result out)")
    case True
    then have "\<not> is_immediate A (convert_to_unit_type od)"
      using assms n e by (auto simp: settle_order_def Let_def split: if_splits)
    then show ?thesis
      using assms n e r True by (cases r) (auto simp: settle_order_def Let_def intro!: rests)
  next
    case False
    then show ?thesis using assms n e by (intro filled) (auto simp: settle_order_def Let_def)
  qed
qed

lemma with_fees_result [simp]: "tr_match_result (with_fees sy m f) = m"
  by (simp add: with_fees_def Let_def case_prod_unfold split: option.splits)

lemma emit_trades_result:
  "fst (emit_trades b True m) = None \<longleftrightarrow> mr_trades m = []"
  "fst (emit_trades b True m) = Some t \<Longrightarrow> tr_match_result t = m"
  by (auto simp: emit_trades_def Let_def case_prod_unfold split: if_splits)

text \<open>C6: adding conserves quantity.  When a submitted order is accepted, the quantity of the trades
  reported to the submitter plus the total quantity, visible and hidden, of what now rests under
  its id equals the submitted total; nothing is created or lost for any order type.\<close>

theorem add_order_conserves:
  assumes "price_levels A ok" "book_inv A ok b" "add_order_with_result A d b od = (Inr (o', tr), b')"
  shows "(case tr of None \<Rightarrow> 0 | Some t \<Rightarrow> traded_quantity (mr_trades (tr_match_result t))) +
    (if order_locations b' (oid od) = None then 0 else total_quantity o') = total_quantity od"
  using assms(3) [unfolded add_order_with_result_def]
proof (cases rule: add_order_innerE)
  case (settled y b1 out b2)
  note ad = admitted [OF assms(1,2) settled(1)]
  have wf: "levels_wf A ok (invalidate_cache b1)" using ad(1) by (simp add: book_inv_def)
  have sum: "traded_quantity (mr_trades (mo_result out)) + mr_remaining (mo_result out) = total_quantity od"
    by (rule matched_quantities [OF assms(1) wf settled(2)])
  have inv2: "book_inv A ok b2" and c2: "\<exists>c. cache b2 = invalidate c"
    using match_book_inv [OF assms(1) ad(1) settled(2)] by auto
  have fresh: "order_locations b2 (oid od) = None"
    using map_le_None [OF match_only_removes [OF assms(1) ad(1) settled(2)]] ad(3,4) by simp
  let ?b3 = "snd (emit_trades b2 True (mo_result out))"
  have q3: "quiet b2 ?b3" by (rule quiet_emit_trades)
  have tr: "(case fst (emit_trades b2 True (mo_result out)) of None \<Rightarrow> 0
      | Some t \<Rightarrow> traded_quantity (mr_trades (tr_match_result t))) = traded_quantity (mr_trades (mo_result out))"
    using emit_trades_result [of b2 "mo_result out"] by (auto split: option.splits)
  have n: "checked_total_quantity od = Some (total_quantity od)" by (rule admitted_total [OF settled(1)])
  from settled(3) show ?thesis
  proof (cases rule: settled_cases)
    case (rests o1)
    from c2 obtain c where c: "cache ?b3 = invalidate c"
      by (auto simp: emit_trades_def Let_def case_prod_unfold next_engine_seq_def emit_def)
    have R: "resting A b' = insert (oid od, ouser od, oprice od, oside od) (resting A ?b3)"
      "o1 = convert_from_unit_type d (convert_to_unit_type
        (if mr_remaining (mo_result out) < total_quantity od then set_total_remaining od (mr_remaining (mo_result out)) else od))"
      "book_inv A ok b'"
      using rest_order_inv [OF assms(1) quiet_book_inv [OF q3 inv2] c _ rests(2)] fresh quietD(1) [OF q3] by auto
    have "order_locations b' (oid od) \<noteq> None"
      using book_locs_resting [OF R(3), of "oid od" "oprice od" "oside od"] R(1) by auto
    moreover have "total_quantity o1 = mr_remaining (mo_result out)"
      unfolding R(2) using set_total_remaining_total [OF n, of "mr_remaining (mo_result out)"] sum by simp
    ultimately show ?thesis using rests(3) sum tr by auto
  next
    case filled
    then show ?thesis using sum tr fresh quietD(1) [OF q3] by simp
  qed
qed auto

theorem add_order_conserves_witness:
  "\<exists>o' tr b'. add_order_with_result fifo () demo_book (IcebergOrder 50 100 2 10 Buy 9 0 Gtc ()) = (Inr (o', tr), b') \<and>
     (case tr of None \<Rightarrow> 0 | Some t \<Rightarrow> traded_quantity (mr_trades (tr_match_result t))) = 9 \<and> total_quantity o' = 3"
proof -
  let ?r = "add_order_with_result fifo () demo_book (IcebergOrder 50 100 2 10 Buy 9 0 Gtc ())"
  have "\<not> isl (fst ?r)" by code_simp
  then obtain x b' where r: "?r = (Inr x, b')" by (rule returns_okE)
  obtain o' tr where x: "x = (o', tr)" by (cases x)
  have v: "(case snd (projr (fst ?r)) of None \<Rightarrow> 0 | Some t \<Rightarrow> traded_quantity (mr_trades (tr_match_result t))) = 9"
    "order_locations (snd ?r) 50 \<noteq> None" by code_simp+
  have "(case tr of None \<Rightarrow> 0 | Some t \<Rightarrow> traded_quantity (mr_trades (tr_match_result t))) + total_quantity o' = 12"
    using add_order_conserves [OF fifo.price_levels_axioms demo_book_inv r [unfolded x]] v(2) r
    by (auto simp: sat_add64_def u64_max_def)
  then show ?thesis using r x v(1) by simp
qed

section \<open>Fill or kill\<close>

lemma fok_fillable_cong:
  assumes "levels b' = levels b" "conf_of b' = conf_of b"
  shows "fok_fillable_quantity A b' s q limit u i = fok_fillable_quantity A b s q limit u i"
proof -
  have "sweep_order b' s = sweep_order b s"
    using fun_cong [OF assms(1), of Buy] fun_cong [OF assms(1), of Sell] by (simp add: sweep_order_def split: side.splits)
  then show ?thesis using assms by (simp add: fok_fillable_quantity_def conf_of_def)
qed

lemma validated_fok:
  assumes "validate_order_shape A b od = (Inr y, b')" "is_fill_or_kill A (convert_to_unit_type od)"
  shows "total_quantity od \<le> fok_fillable_quantity A b (oside od) (total_quantity od) (Some (oprice od)) (ouser od) (oid od)"
proof -
  let ?b1 = "snd (has_expired A b od)"
  let ?b2 = "if is_post_only A (convert_to_unit_type od) then snd (will_cross_market ?b1 (oprice od) (oside od)) else ?b1"
  have q: "quiet b ?b2"
    using quiet_trans [OF quiet_reads(3) quiet_reads(1)] quiet_reads(3) by auto
  have "total_quantity od \<le> fok_fillable_quantity A ?b2 (oside od) (total_quantity od) (Some (oprice od)) (ouser od) (oid od)"
    using assms
    by (auto simp: validate_order_shape_def Let_def case_prod_unfold not_less split: if_splits option.splits)
  then show ?thesis
    using fok_fillable_cong [OF quiet_levels [OF q], of A] q by (simp add: quiet_def)
qed

lemma admitted_fok:
  assumes "admit_order A b od = (Inr y, b1)" "is_fill_or_kill A (convert_to_unit_type od)"
  shows "total_quantity od \<le>
    fok_fillable_quantity A (invalidate_cache b1) (oside od) (total_quantity od) (Some (oprice od)) (ouser od) (oid od)"
proof -
  let ?k = "snd (check_kill_switch_or_reject b (oid od))"
  let ?b2 = "snd (check_risk_limit_admission ?k (ouser od) (oprice od) (total_quantity od))"
  let ?b3 = "snd (validate_order_shape A ?b2 od)"
  have v: "\<exists>y. validate_order_shape A ?b2 od = (Inr y, ?b3)" and h: "b1 = snd (check_headroom A ?b3 od)"
    using assms(1)
    by (auto simp: admit_order_def Let_def case_prod_unfold prod_eq_iff split: sum.splits if_splits prod.splits)
  have q: "quiet ?b2 (invalidate_cache b1)"
    unfolding h by (rule quiet_trans [OF quiet_validate quiet_trans [OF quiet_headroom quiet_frames(6)]])
  show ?thesis
    using v validated_fok [OF _ assms(2), of ?b2 _ ?b3] fok_fillable_cong [OF quiet_levels [OF q], of A] q
    by (auto simp: quiet_def)
qed



section \<open>Immediate orders\<close>

text \<open>C11: an immediate order never rests.  Whatever happens to an immediate-or-cancel or
  fill-or-kill order, the set of resting orders afterwards is a subset of what it was: it can
  only consume liquidity, never add to the book.\<close>

theorem immediate_never_rests:
  assumes "price_levels A ok" "book_inv A ok b" "is_immediate A (convert_to_unit_type od)"
    and "add_order A d b od = (r, b')"
  shows "order_locations b' \<subseteq>\<^sub>m order_locations b"
proof -
  obtain x where x: "add_order_inner A d b od False = (x, b')" using assms(4) by (rule add_order_via_inner)
  from x show ?thesis
  proof (cases rule: add_order_innerE)
    case (refused e)
    have q: "quiet b b'" using admit_order_quiet [of b A od] refused(1) by simp
    then show ?thesis using quietD(1) [OF q] by simp
  next
    case (unmatched y b1 e)
    note ad = admitted [OF assms(1,2) unmatched(1)]
    show ?thesis using match_only_removes [OF assms(1) ad(1) unmatched(2)] ad(3) by simp
  next
    case (settled y b1 out b2)
    note ad = admitted [OF assms(1,2) settled(1)]
    have inv2: "book_inv A ok b2" and c2: "\<exists>c. cache b2 = invalidate c"
      using match_book_inv [OF assms(1) ad(1) settled(2)] by auto
    have le: "order_locations b2 \<subseteq>\<^sub>m order_locations b"
      using match_only_removes [OF assms(1) ad(1) settled(2)] ad(3) by simp
    have fresh: "order_locations b2 (oid od) = None" using map_le_None [OF le ad(4)] .
    from c2 obtain c where c: "cache b2 = invalidate c" by blast
    show ?thesis
    proof (cases x)
      case (Inl e)
      then show ?thesis
        using settle_book_inv [OF assms(1) inv2 c fresh settled(3)] le by (auto simp: adds_only_def intro: map_le_trans)
    next
      case (Inr z)
      from settled(3) [unfolded Inr] show ?thesis
      proof (cases rule: settled_cases)
        case (rests o')
        then show ?thesis using assms(3) by simp
      next
        case filled
        then show ?thesis using le quietD(1) [OF quiet_emit_trades, of b2 False "mo_result out"] by simp
      qed
    qed
  qed
qed

theorem immediate_never_rests_witness:
  "order_locations (snd (add_order fifo () demo_book (Standard 50 101 20 Buy 9 0 Ioc ()))) \<subseteq>\<^sub>m order_locations demo_book"
  using immediate_never_rests [OF fifo.price_levels_axioms demo_book_inv _ surjective_pairing, of "Standard 50 101 20 Buy 9 0 Ioc ()" "()"]
  by simp

section \<open>Reading back and cancelling\<close>

lemma add_reads_back:
  assumes "price_levels A ok" "book_inv A ok b" "add_order A d b od = (Inr o', b')"
    and "order_locations b' (oid od) \<noteq> None"
  shows "book_inv A ok b' \<and> get_order A d b' (oid od) = Some o'"
proof -
  obtain x where x: "add_order_inner A d b od False = (x, b')" "Inr o' = (case x of Inl e \<Rightarrow> Inl e | Inr (o', _) \<Rightarrow> Inr o')"
    using assms(3) by (rule add_order_via_inner)
  have inv': "book_inv A ok b'" using add_book_inv [OF assms(1,2) x(1)] by simp
  from x(1) show ?thesis
  proof (cases rule: add_order_innerE)
    case (settled y b1 out b2)
    note ad = admitted [OF assms(1,2) settled(1)]
    have inv2: "book_inv A ok b2" and c2: "\<exists>c. cache b2 = invalidate c"
      using match_book_inv [OF assms(1) ad(1) settled(2)] by auto
    have fresh: "order_locations b2 (oid od) = None"
      using map_le_None [OF match_only_removes [OF assms(1) ad(1) settled(2)]] ad(3,4) by simp
    let ?b3 = "snd (emit_trades b2 False (mo_result out))"
    have q3: "quiet b2 ?b3" by (rule quiet_emit_trades)
    obtain z where z: "x = Inr z" using x(2) by (cases x) auto
    from settled(3) [unfolded z] show ?thesis
    proof (cases rule: settled_cases)
      case (rests o1)
      from c2 obtain c where c: "cache ?b3 = invalidate c"
        by (auto simp: emit_trades_def Let_def case_prod_unfold next_engine_seq_def emit_def)
      have "get_order A d b' (oid od) = Some o1"
        using rest_order_inv [OF assms(1) quiet_book_inv [OF q3 inv2] c _ rests(2)] fresh quietD(1) [OF q3] by auto
      then show ?thesis using rests(3) x(2) z inv' by simp
    next
      case filled
      then show ?thesis using assms(4) fresh quietD(1) [OF q3] by simp
    qed
  qed (use x(2) in auto)
qed

lemma cancel_returns:
  assumes "price_levels A ok" "book_inv A ok b" "get_order A d b i = Some o'"
  shows "fst (cancel_order A d b i) = Inr (Some o')"
proof -
  obtain p s where loc: "order_locations b i = Some (p, s)"
    using assms(3) by (auto simp: get_order_def split: option.splits)
  from assms(2) loc obtain l od where l: "sm_get (levels b s) p = Some l"
    "od \<in> set (snapshot_by_seq A l)" "oid od = i" "ok l" "level_price A l = p" by (rule book_inv_located)
  obtain l' where u: "level_update A l (Cancel i) = (Inr (Some od), l')"
    using price_levels.cancel_present [OF assms(1) l(4,2)] l(3) by auto
  have "find (\<lambda>x. oid x = i) (iter_orders A l) = Some od"
    using find_unique_oid [OF price_levels.ids_distinct [OF assms(1) l(4)] price_levels.iter_mset [OF assms(1) l(4)] l(2)] l(3)
    by simp
  then have "o' = convert_from_unit_type d od" using assms(3) loc l(1) by (simp add: get_order_def)
  then show ?thesis using loc l(1) u by (auto simp: cancel_order_def cancel_order_with_reason_def Let_def)
qed

text \<open>C8: an accepted order can be read back and cancelled.  If an order was accepted and (part of it)
  rests, looking up its id returns exactly the order that was returned to the submitter;
  cancelling it returns that same order and removes it, and only it, from the resting orders; a
  second cancel finds nothing.\<close>

theorem add_get_cancel:
  assumes "price_levels A ok" "book_inv A ok b" "add_order A d b od = (Inr o', b1)"
    and "order_locations b1 (oid od) \<noteq> None" "cancel_order A d b1 (oid od) = (r, b2)"
  shows "get_order A d b1 (oid od) = Some o' \<and> r = Inr (Some o') \<and>
    resting A b2 = {x \<in> resting A b1. fst x \<noteq> oid od} \<and> get_order A d b2 (oid od) = None \<and>
    fst (cancel_order A d b2 (oid od)) = Inr None"
proof -
  have inv1: "book_inv A ok b1" and g: "get_order A d b1 (oid od) = Some o'"
    using add_reads_back [OF assms(1-4)] by auto
  note C = cancel_book_inv [OF assms(1) inv1 assms(5) [unfolded cancel_order_def]]
  have "order_locations b2 (oid od) = None"
    using C loc_idx_None [of "order_locations b2" "resting A b2" "oid od"] by (auto simp: book_inv_def)
  then show ?thesis
    using g C cancel_returns [OF assms(1) inv1 g] assms(5)
    by (simp add: get_order_def cancel_order_def cancel_order_with_reason_def)
qed

theorem add_get_cancel_witness:
  "\<exists>o' b1. add_order fifo () demo_book (Standard 50 99 5 Buy 9 0 Gtc ()) = (Inr o', b1) \<and>
     get_order fifo () b1 50 = Some o' \<and> fst (cancel_order fifo () b1 50) = Inr (Some o')"
proof -
  let ?od = "Standard 50 99 5 Buy 9 0 Gtc ()"
  let ?r = "add_order fifo () demo_book ?od"
  have "\<not> isl (fst ?r)" by code_simp
  then obtain o' b1 where r: "?r = (Inr o', b1)" by (rule returns_okE)
  have "order_locations (snd ?r) 50 \<noteq> None" by code_simp
  then have "order_locations b1 (oid ?od) \<noteq> None" using r by simp
  from add_get_cancel [OF fifo.price_levels_axioms demo_book_inv r this surjective_pairing]
  show ?thesis using r by simp
qed

section \<open>Refusals\<close>

text \<open>C7: a refused order has no effect on the book.  When any admission check refuses a submitted
  order, for the kill switch, quantity overflow, risk limits, a duplicate id, its shape, or
  head-room, the submitter gets that error, and every resting order, level and index entry is
  unchanged; an order whose id already rests is always refused.\<close>

theorem refused_order_no_effect:
  assumes "price_levels A ok" "book_inv A ok b"
  shows "(\<forall>e b'. admit_order A b od = (Inl e, b') \<longrightarrow>
       add_order A d b od = (Inl e, b') \<and> levels b' = levels b \<and> order_locations b' = order_locations b \<and>
       user_orders b' = user_orders b \<and> book_inv A ok b') \<and>
    ((\<exists>u p s. (oid od, u, p, s) \<in> resting A b) \<longrightarrow> isl (fst (add_order A d b od)))"
proof (intro conjI allI impI)
  fix e b' assume a: "admit_order A b od = (Inl e, b')"
  have q: "quiet b b'" using admit_order_quiet [of b A od] a by simp
  show "levels b' = levels b" "order_locations b' = order_locations b" "user_orders b' = user_orders b" "book_inv A ok b'"
    using quiet_levels [OF q] quietD(1,2) [OF q] quiet_book_inv [OF q assms(2)] by auto
  show "add_order A d b od = (Inl e, b')" using a by (simp add: add_order_def add_order_inner_def)
next
  assume "\<exists>u p s. (oid od, u, p, s) \<in> resting A b"
  then have loc: "order_locations b (oid od) \<noteq> None"
    using book_locs_resting [OF assms(2), of "oid od"] by auto
  obtain x b1 where x: "admit_order A b od = (x, b1)" by fastforce
  then have "isl x" using loc admitted(4) [OF assms, of od _ b1] by (cases x) auto
  then show "isl (fst (add_order A d b od))" using x by (cases x) (auto simp: add_order_def add_order_inner_def)
qed

theorem refused_order_no_effect_witness:
  "isl (fst (add_order fifo () demo_book (Standard 4 97 5 Buy 9 0 Gtc ())))"
proof -
  have "(oid (Standard 4 97 5 Buy 9 0 Gtc ()), 9, 98, Buy) \<in> resting fifo demo_book" by (simp add: demo_resting)
  then show ?thesis using refused_order_no_effect [OF fifo.price_levels_axioms demo_book_inv, of "Standard 4 97 5 Buy 9 0 Gtc ()" "()"]
    by blast
qed



section \<open>Modifications\<close>



text \<open>The second case of the theorem above does happen: the price band of a re-submission is taken
  against the mid price, and cancelling the original may move it.  Here the only bid at 98 moves
  to 99 inside a band of one per cent around the mid price of 99; once the original is
  cancelled the mid price is 75, the re-submission is refused, and the order is gone.\<close>

definition mid_band_book :: "(fifo_level, nat) book" where
  "mid_band_book = (set_risk_config demo_book (with_price_band_bps risk_config_new 100 Mid))
     \<lparr>bids := [(50, \<lparr>fl_price = 50, fl_orders = [Standard 5 50 1 Buy 8 0 Gtc ()]\<rparr>), (98, bid_98)],
      order_locations := (order_locations demo_book)(5 \<mapsto> (50, Buy)),
      user_orders := [(7, [1, 3]), (8, [2, 5]), (9, [4])]\<rparr>"


text \<open>Validation runs while the original still rests.  For a replacement that changes the side, the
  original is on the opposite side of the new order, and a post-only replacement at its own old
  price is refused as crossing itself, although it would be accepted after the cancel.\<close>

definition lone_post_only :: "(fifo_level, nat) book" where
  "lone_post_only = (with_clock ''DEMO'' stub_new 0)
     \<lparr>bids := [(98, \<lparr>fl_price = 98, fl_orders = [PostOnly 4 98 3 Buy 9 0 Gtc ()]\<rparr>)],
      order_locations := [4 \<mapsto> (98, Buy)], user_orders := [(9, [4])]\<rparr>"

lemma replace_crosses_itself:
  "fst (update_order fifo () lone_post_only (Replace 4 98 3 Sell)) = Inl (PriceCrossing 98 Sell 98) \<and>
   fst (add_order fifo () (snd (cancel_order fifo () lone_post_only 4)) (PostOnly 4 98 3 Sell 9 0 Gtc ())) =
     Inr (PostOnly 4 98 3 Sell 9 0 Gtc ())"
  by code_simp


end
