(* ===== verification/Mass_Cancel.thy ===== *)
theory Mass_Cancel
  imports Modify_Inv Demo_Book
begin

text \<open>
  Mass cancellation and expiry, \<open>src/orderbook/mass_cancel.rs\<close>: all orders, by side, by user, by
  price range, and the eviction of expired orders.  All but the first go through the single-order
  cancel; the first clears the book in bulk.
\<close>

section \<open>Operations\<close>

record mass_cancel_result =
  cancelled_count :: usize
  cancelled_order_ids :: "ident list"

definition mass_cancel_result_new :: "usize \<Rightarrow> ident list \<Rightarrow> mass_cancel_result" where
  "mass_cancel_result_new n is = \<lparr>cancelled_count = n, cancelled_order_ids = is\<rparr>"

definition mass_cancel_is_empty :: "mass_cancel_result \<Rightarrow> bool" where
  "mass_cancel_is_empty r \<longleftrightarrow> cancelled_count r = 0"

text \<open>The ids of a list of levels, oldest order first within a level.\<close>

definition collect_ids :: "('l, 'g) pricelevel_api \<Rightarrow> (u128 \<times> 'l) list \<Rightarrow> ident list" where
  "collect_ids A ls = concat (map (\<lambda>e. map oid (snapshot_by_seq A (snd e))) ls)"

definition collect_order_ids_by_side :: "('l, 'g) pricelevel_api \<Rightarrow> ('l, 'g) book \<Rightarrow> side \<Rightarrow> ident list" where
  "collect_order_ids_by_side A b s = collect_ids A (sm_iter (levels b s))"

fun cancel_loop ::
    "('l, 'g) pricelevel_api \<Rightarrow> 'x \<Rightarrow> cancel_reason \<Rightarrow> ident list \<Rightarrow> ('l, 'g) book \<Rightarrow> (ident \<times> 'x order_type) list \<times> ('l, 'g) book" where
  "cancel_loop A d reason [] b = ([], b)"
| "cancel_loop A d reason (i # is) b =
     (let (r, b1) = cancel_order_with_reason A d b i reason;
          (gone, b2) = cancel_loop A d reason is b1
      in ((case r of Inr (Some od) \<Rightarrow> (i, od) # gone | _ \<Rightarrow> gone), b2))"

definition cancel_order_batch_with_reason ::
    "('l, 'g) pricelevel_api \<Rightarrow> 'x \<Rightarrow> ('l, 'g) book \<Rightarrow> ident list \<Rightarrow> cancel_reason \<Rightarrow> mass_cancel_result \<times> ('l, 'g) book" where
  "cancel_order_batch_with_reason A d b order_ids reason =
     (let (gone, b1) = cancel_loop A d reason order_ids b;
          cancelled = map fst gone
      in (mass_cancel_result_new (length cancelled) cancelled, b1))"

fun zero_levels :: "side \<Rightarrow> (u128 \<times> 'l) list \<Rightarrow> ('l, 'g) book \<Rightarrow> ('l, 'g) book" where
  "zero_levels s [] b = b"
| "zero_levels s ((price, _) # ls) b = zero_levels s ls (notify_level b s price 0)"

fun track_cancelled :: "ident list \<Rightarrow> ('l, 'g) book \<Rightarrow> ('l, 'g) book" where
  "track_cancelled [] b = b"
| "track_cancelled (i # is) b =
     track_cancelled is (track_state b i (Cancelled (prev_filled b i) MassCancelAll))"

definition cancel_all_orders :: "('l, 'g) pricelevel_api \<Rightarrow> ('l, 'g) book \<Rightarrow> mass_cancel_result \<times> ('l, 'g) book" where
  "cancel_all_orders A b =
     (let b1 = invalidate_cache b;
          order_ids = collect_ids A (sm_iter (bids b1)) @ collect_ids A (sm_iter (asks b1))
      in if length order_ids = 0 then (mass_cancel_result_new 0 [], b1)
         else
           (let b2 = zero_levels Buy (sm_iter (bids b1)) b1;
                b3 = zero_levels Sell (sm_iter (asks b1)) b2;
                b4 = track_cancelled order_ids b3;
                b5 = b4\<lparr>order_locations := (\<lambda>_. None), user_orders := [], bids := [], asks := [],
                        special_order_tracker := \<lparr>pegged_orders = [], trailing_stop_orders = []\<rparr>,
                        risk_state := risk_clear (risk_state b4)\<rparr>
            in (mass_cancel_result_new (length order_ids) order_ids,
                record_depth_metric (invalidate_cache b5))))"

definition cancel_orders_by_side ::
    "('l, 'g) pricelevel_api \<Rightarrow> 'x \<Rightarrow> ('l, 'g) book \<Rightarrow> side \<Rightarrow> mass_cancel_result \<times> ('l, 'g) book" where
  "cancel_orders_by_side A d b s =
     cancel_order_batch_with_reason A d b (collect_order_ids_by_side A b s) MassCancelBySide"

definition cancel_orders_by_user ::
    "('l, 'g) pricelevel_api \<Rightarrow> 'x \<Rightarrow> ('l, 'g) book \<Rightarrow> hash32 \<Rightarrow> mass_cancel_result \<times> ('l, 'g) book" where
  "cancel_orders_by_user A d b user_id =
     (let order_ids = (case map_of (user_orders b) user_id of Some is \<Rightarrow> is | None \<Rightarrow> []);
          b1 = b\<lparr>user_orders := AList.delete user_id (user_orders b)\<rparr>
      in cancel_order_batch_with_reason A d b1 order_ids MassCancelByUser)"

definition cancel_orders_by_price_range ::
    "('l, 'g) pricelevel_api \<Rightarrow> 'x \<Rightarrow> ('l, 'g) book \<Rightarrow> side \<Rightarrow> u128 \<Rightarrow> u128 \<Rightarrow> mass_cancel_result \<times> ('l, 'g) book" where
  "cancel_orders_by_price_range A d b s min_price max_price =
     (if max_price < min_price then (mass_cancel_result_new 0 [], b)
      else cancel_order_batch_with_reason A d b
             (collect_ids A (sm_range min_price max_price (levels b s))) MassCancelByPriceRange)"

definition expired_ids :: "('l, 'g) pricelevel_api \<Rightarrow> ('l, 'g) book \<Rightarrow> u64 \<Rightarrow> (u128 \<times> 'l) list \<Rightarrow> ident list" where
  "expired_ids A b now ls =
     concat (map (\<lambda>e. map oid (filter (\<lambda>od. tif_expired_at A b (otif od) now) (snapshot_by_seq A (snd e)))) ls)"

definition evict_expired_orders ::
    "('l, 'g) pricelevel_api \<Rightarrow> 'x \<Rightarrow> ('l, 'g) book \<Rightarrow> u64 \<Rightarrow> 'x order_type list \<times> ('l, 'g) book" where
  "evict_expired_orders A d b now =
     (let expired = expired_ids A b now (sm_iter (bids b)) @ expired_ids A b now (sm_iter (asks b))
      in if expired = [] then ([], b)
         else let (gone, b1) = cancel_loop A d TimeInForceExpired expired b in (map snd gone, b1))"

section \<open>The loop over ids\<close>

lemma cancel_loop_inv:
  assumes "price_levels A ok" "book_inv A ok b" "cancel_loop A d reason is b = (gone, b')"
  shows "book_inv A ok b' \<and> resting A b' = {x \<in> resting A b. fst x \<notin> set is} \<and>
    (distinct is \<and> set is \<subseteq> fst ` resting A b \<longrightarrow> map fst gone = is)"
  using assms(2,3)
proof (induction "is" arbitrary: b gone)
  case (Cons i "is")
  obtain r b1 where c: "cancel_order_with_reason A d b i reason = (r, b1)" by fastforce
  obtain don b2 where l: "cancel_loop A d reason is b1 = (don, b2)" by fastforce
  have b2: "b' = b2" and gone_eq: "gone = (case r of Inr (Some od) \<Rightarrow> (i, od) # don | _ \<Rightarrow> don)"
    using Cons.prems(2) c l by auto
  note C = cancel_book_inv [OF assms(1) Cons.prems(1) c]
  have "book_inv A ok b1" using C by blast
  note IH = Cons.IH [OF this l [folded b2]]
  have "resting A b' = {x \<in> resting A b. fst x \<notin> set (i # is)}" using IH C b2 by auto
  moreover have "map fst gone = i # is" if d: "distinct (i # is)" and s: "set (i # is) \<subseteq> fst ` resting A b"
  proof -
    have "order_locations b i \<noteq> None"
      using s loc_idx_None [of "order_locations b" "resting A b" i] Cons.prems(1) by (force simp: book_inv_def)
    then obtain od where "r = Inr (Some od)" using C by auto
    moreover have "set is \<subseteq> fst ` resting A b1"
    proof
      fix j assume "j \<in> set is"
      then have "j \<noteq> i" "j \<in> fst ` resting A b" using d s by auto
      then show "j \<in> fst ` resting A b1" using C by auto
    qed
    ultimately show ?thesis using IH d gone_eq by simp
  qed
  ultimately show ?case using IH b2 by blast
qed simp

lemma batch_inv:
  assumes "price_levels A ok" "book_inv A ok b" "cancel_order_batch_with_reason A d b is reason = (res, b')"
  shows "book_inv A ok b'" "resting A b' = {x \<in> resting A b. fst x \<notin> set is}"
    "distinct is \<Longrightarrow> set is \<subseteq> fst ` resting A b \<Longrightarrow> cancelled_order_ids res = is"
    "cancelled_count res = length (cancelled_order_ids res)"
proof -
  obtain don where l: "cancel_loop A d reason is b = (don, b')"
    and res: "res = mass_cancel_result_new (length don) (map fst don)"
    using assms(3) by (auto simp: cancel_order_batch_with_reason_def split: prod.splits)
  note L = cancel_loop_inv [OF assms(1,2) l]
  show "book_inv A ok b'" "resting A b' = {x \<in> resting A b. fst x \<notin> set is}"
    "distinct is \<Longrightarrow> set is \<subseteq> fst ` resting A b \<Longrightarrow> cancelled_order_ids res = is"
    "cancelled_count res = length (cancelled_order_ids res)"
    using L res by (auto simp: mass_cancel_result_new_def)
qed

section \<open>What is collected\<close>

lemma collect_ids_set: "set (collect_ids A ls) = (\<Union>e \<in> set ls. ids (snapshot_by_seq A (snd e)))"
  by (auto simp: collect_ids_def)

lemma collected:
  assumes "levels_wf A ok b" "set ls \<subseteq> set (levels b s)"
  shows "set (collect_ids A ls) = {i. \<exists>u p. (i, u, p, s) \<in> resting A b \<and> p \<in> fst ` set ls}"
proof -
  have get: "sm_get (levels b s) p = Some l" if "(p, l) \<in> set ls" for p l
    using that assms(2) sm_get_mem [OF levels_wfD(1) [OF assms(1), of s]] by blast
  have "i \<in> set (collect_ids A ls) \<longleftrightarrow> (\<exists>u p. (i, u, p, s) \<in> resting A b \<and> p \<in> fst ` set ls)" for i
  proof
    assume "i \<in> set (collect_ids A ls)"
    then obtain p l where e: "(p, l) \<in> set ls" "i \<in> ids (snapshot_by_seq A l)" by (auto simp: collect_ids_set)
    then obtain od where "od \<in> set (snapshot_by_seq A l)" "oid od = i" by auto
    then have "(i, ouser od, p, s) \<in> resting A b" using get [OF e(1)] by (force simp: resting_iff)
    then show "\<exists>u p. (i, u, p, s) \<in> resting A b \<and> p \<in> fst ` set ls" using e(1) by force
  next
    assume "\<exists>u p. (i, u, p, s) \<in> resting A b \<and> p \<in> fst ` set ls"
    then obtain u p l where "(i, u, p, s) \<in> resting A b" and e: "(p, l) \<in> set ls" by auto
    then have "i \<in> ids (snapshot_by_seq A l)" using get [OF e] by (auto simp: resting_iff)
    then show "i \<in> set (collect_ids A ls)" using e by (force simp: collect_ids_set)
  qed
  then show ?thesis by blast
qed

lemma collect_ids_distinct:
  assumes P: "price_levels A ok" and inv: "book_inv A ok b" and sub: "set ls \<subseteq> set (levels b s)" and d: "distinct (map fst ls)"
  shows "distinct (collect_ids A ls)"
  using sub d
proof (induction ls)
  case (Cons e ls)
  have wf: "levels_wf A ok b" using inv by (simp add: book_inv_def)
  obtain p l where e: "e = (p, l)" by (cases e)
  have g: "sm_get (levels b s) p = Some l"
    using Cons.prems(1) sm_get_mem [OF levels_wfD(1) [OF wf, of s]] e by auto
  have "distinct (map oid (snapshot_by_seq A l))"
    by (rule price_levels.ids_distinct [OF P levels_wfD(2) [OF wf g]])
  moreover have "set (map oid (snapshot_by_seq A l)) \<inter> set (collect_ids A ls) = {}"
  proof (rule ccontr)
    assume "set (map oid (snapshot_by_seq A l)) \<inter> set (collect_ids A ls) \<noteq> {}"
    then obtain od where od: "od \<in> set (snapshot_by_seq A l)" "oid od \<in> set (collect_ids A ls)" by auto
    have 1: "(oid od, ouser od, p, s) \<in> resting A b" using od(1) g by (force simp: resting_iff)
    obtain u q where 2: "(oid od, u, q, s) \<in> resting A b" "q \<in> fst ` set ls"
      using od(2) collected [OF wf, of ls s] Cons.prems(1) by auto
    have "q = p" using book_unique [OF inv 1 2(1)] by simp
    then show False using 2(2) Cons.prems(2) e by auto
  qed
  ultimately show ?case using Cons e by (simp add: collect_ids_def)
qed (simp add: collect_ids_def)

section \<open>Hiding the index entry of a user\<close>

text \<open>
  The cancel by user takes the user's list out of the index before it cancels the orders, so the
  index is behind during the loop.  The loop does to the rest of the book what it does with the
  entry in place, and with the last order cancelled the entry is gone in both.
\<close>

abbreviation hide :: "hash32 \<Rightarrow> ('l, 'g) book \<Rightarrow> ('l, 'g) book" where
  "hide u b \<equiv> b\<lparr>user_orders := AList.delete u (user_orders b)\<rparr>"

lemma users_commute [simp]:
  "invalidate_cache (b\<lparr>user_orders := U\<rparr>) = (invalidate_cache b)\<lparr>user_orders := U\<rparr>"
  "set_levels (b\<lparr>user_orders := U\<rparr>) s m = (set_levels b s m)\<lparr>user_orders := U\<rparr>"
  "notify_level (b\<lparr>user_orders := U\<rparr>) s p q = (notify_level b s p q)\<lparr>user_orders := U\<rparr>"
  "remove_location (b\<lparr>user_orders := U\<rparr>) i = (remove_location b i)\<lparr>user_orders := U\<rparr>"
  "unregister_special (b\<lparr>user_orders := U\<rparr>) i = (unregister_special b i)\<lparr>user_orders := U\<rparr>"
  "record_depth_metric (b\<lparr>user_orders := U\<rparr>) = (record_depth_metric b)\<lparr>user_orders := U\<rparr>"
  "prev_filled (b\<lparr>user_orders := U\<rparr>) i = prev_filled b i"
  by (simp_all add: invalidate_cache_def set_levels_def notify_level_def next_engine_seq_def emit_def
      remove_location_def unregister_special_def record_depth_metric_def prev_filled_def Let_def split: side.splits)

lemma users_commute_levels [simp]:
  "levels (b\<lparr>user_orders := U\<rparr>) = levels b"
  "put_level (b\<lparr>user_orders := U\<rparr>) s p l = (put_level b s p l)\<lparr>user_orders := U\<rparr>"
  "drop_level (b\<lparr>user_orders := U\<rparr>) s p = (drop_level b s p)\<lparr>user_orders := U\<rparr>"
  by (simp_all add: put_level_def drop_level_def)

lemma users_commute_track [simp]:
  "track_state (b\<lparr>user_orders := U\<rparr>) i st = (track_state b i st)\<lparr>user_orders := U\<rparr>"
  by (cases st; cases "order_state_tracker b") (simp_all add: track_state_def record_reject_def emit_def)

lemma untrack_hide:
  "user_orders b = U \<Longrightarrow>
   untrack_user_order (b\<lparr>user_orders := AList.delete u U\<rparr>) u i = hide u (untrack_user_order b u i)"
  by (auto simp add: untrack_user_order_def Let_def delete_idem delete_update_same delete_conv' split: option.splits)

lemma users_commute_risk:
  "b\<lparr>user_orders := U, risk_state := R\<rparr> = b\<lparr>risk_state := R, user_orders := U\<rparr>"
  by simp

lemma cancel_hide:
  assumes "price_levels A ok" "book_inv A ok b" "(i, u, p, s) \<in> resting A b"
    "cancel_order_with_reason A d b i reason = (r, b')"
  shows "cancel_order_with_reason A d (hide u b) i reason = (r, hide u b')"
proof -
  have loc: "order_locations b i = Some (p, s)" using assms(2,3) loc_idx_mem by (auto simp: book_inv_def)
  from assms(3) obtain l od where l: "sm_get (levels b s) p = Some l"
    "od \<in> set (snapshot_by_seq A l)" "oid od = i" "ouser od = u" by (auto simp: resting_iff)
  have "ok l" using levels_wfD(2) [of A ok b s p l] l(1) assms(2) by (simp add: book_inv_def)
  then obtain l' where u: "level_update A l (Cancel i) = (Inr (Some od), l')"
    using price_levels.cancel_present [OF assms(1) _ l(2)] l(3) by auto
  show ?thesis
    using assms(4) loc l u by (auto simp: cancel_order_with_reason_def Let_def untrack_hide users_commute_risk)
qed

lemma cancel_loop_hide:
  assumes "price_levels A ok" "book_inv A ok b" "distinct is" "\<forall>i \<in> set is. \<exists>p s. (i, u, p, s) \<in> resting A b"
    "cancel_loop A d reason is b = (gone, b')"
  shows "cancel_loop A d reason is (hide u b) = (gone, hide u b')"
  using assms(2-5)
proof (induction "is" arbitrary: b gone)
  case (Cons i "is")
  obtain r b1 where c: "cancel_order_with_reason A d b i reason = (r, b1)" by fastforce
  obtain don where l: "cancel_loop A d reason is b1 = (don, b')"
    using Cons.prems(4) c by (auto split: prod.splits)
  obtain p s where "(i, u, p, s) \<in> resting A b" using Cons.prems(3) by auto
  note H = cancel_hide [OF assms(1) Cons.prems(1) this c]
  note C = cancel_book_inv [OF assms(1) Cons.prems(1) c]
  have "\<forall>j \<in> set is. \<exists>p s. (j, u, p, s) \<in> resting A b1"
    using C Cons.prems(2,3) by auto
  then have "cancel_loop A d reason is (hide u b1) = (don, hide u b')"
    using Cons.IH [OF _ _ _ l] C Cons.prems(2) by simp
  then show ?case using Cons.prems(4) c l H by auto
qed simp

lemma by_user_ids:
  assumes "book_inv A ok b"
  shows "distinct (owned (user_orders b) u)"
    "set (owned (user_orders b) u) = {i. \<exists>p s. (i, u, p, s) \<in> resting A b}"
  using usr_idxD(3,4) [of "user_orders b" "resting A b"] assms by (simp_all add: book_inv_def set_eq_iff)

lemma by_user_is_batch:
  assumes "price_levels A ok" "book_inv A ok b"
  shows "cancel_orders_by_user A d b u =
    cancel_order_batch_with_reason A d b (owned (user_orders b) u) MassCancelByUser"
proof -
  let ?is = "owned (user_orders b) u"
  obtain gone b' where l: "cancel_loop A d MassCancelByUser ?is b = (gone, b')" by fastforce
  note L = cancel_loop_inv [OF assms l]
  have "\<forall>i \<in> set ?is. \<exists>p s. (i, u, p, s) \<in> resting A b" using by_user_ids(2) [OF assms(2)] by auto
  note H = cancel_loop_hide [OF assms by_user_ids(1) [OF assms(2)] this l]
  have "set (owned (user_orders b') u) = {}"
    using by_user_ids(2) [of A ok b' u] by_user_ids(2) [OF assms(2), of u] L by auto
  moreover have "map_of (user_orders b') u \<noteq> Some []" using L usr_idxD(2) by (auto simp: book_inv_def)
  ultimately have "map_of (user_orders b') u = None" by (cases "map_of (user_orders b') u") (auto simp: owned_def)
  then have "hide u b' = b'" by (simp add: map_of_eq_None_iff)
  then show ?thesis
    using H l by (simp add: cancel_orders_by_user_def cancel_order_batch_with_reason_def owned_def Let_def)
qed

section \<open>Expiry\<close>

definition orders_in :: "('l, 'g) pricelevel_api \<Rightarrow> ('l, 'g) book \<Rightarrow> side \<Rightarrow> u128 \<Rightarrow> unit order_type set" where
  "orders_in A b s p = (case sm_get (levels b s) p of Some l \<Rightarrow> set (snapshot_by_seq A l) | None \<Rightarrow> {})"

lemma orders_in_resting: "od \<in> orders_in A b s p \<Longrightarrow> (oid od, ouser od, p, s) \<in> resting A b"
  by (force simp: orders_in_def resting_iff split: option.splits)

lemma resting_orders_in: "(i, u, p, s) \<in> resting A b \<Longrightarrow> \<exists>od \<in> orders_in A b s p. oid od = i \<and> ouser od = u"
  by (force simp: orders_in_def resting_iff split: option.splits)

lemma order_unique:
  assumes "price_levels A ok" "book_inv A ok b" "od \<in> orders_in A b s p" "od' \<in> orders_in A b t q" "oid od = oid od'"
  shows "od = od'"
proof -
  have "p = q" "s = t"
    using book_unique [OF assms(2) orders_in_resting [OF assms(3)] orders_in_resting [OF assms(4)]] assms(5) by auto
  then obtain l where l: "sm_get (levels b s) p = Some l" "od \<in> set (snapshot_by_seq A l)" "od' \<in> set (snapshot_by_seq A l)"
    using assms(3,4) by (auto simp: orders_in_def split: option.splits)
  have "levels_wf A ok b" using assms(2) by (simp add: book_inv_def)
  from price_levels.ids_distinct [OF assms(1) levels_wfD(2) [OF this l(1)]] l(2,3) assms(5)
  show ?thesis by (auto simp: distinct_map inj_on_def)
qed

abbreviation orders_with :: "('l, 'g) pricelevel_api \<Rightarrow> ('l, 'g) book \<Rightarrow> ident set \<Rightarrow> unit order_type set" where
  "orders_with A b I \<equiv> {od. (\<exists>s p. od \<in> orders_in A b s p) \<and> oid od \<in> I}"

lemma cancel_orders_in:
  assumes "price_levels A ok" "book_inv A ok b" "cancel_order_with_reason A d b i reason = (r, b')"
  shows "orders_in A b' s p = {od \<in> orders_in A b s p. oid od \<noteq> i} \<and>
    market_close_for_expiry b' = market_close_for_expiry b \<and>
    (case r of Inr (Some x) \<Rightarrow> {x} | _ \<Rightarrow> {}) = convert_from_unit_type d ` orders_with A b {i}"
proof (cases "order_locations b i")
  case None
  then have "b' = invalidate_cache b" "r = Inr None" using assms(3) by (auto simp: cancel_order_with_reason_def)
  moreover have "oid od \<noteq> i" if "od \<in> orders_in A b s p" for s p od
    using orders_in_resting [OF that] loc_idx_None [of "order_locations b" "resting A b" i] None assms(2)
    by (auto simp: book_inv_def)
  ultimately show ?thesis by (auto simp: orders_in_def market_close_for_expiry_def)
next
  case (Some e)
  obtain q t where "e = (q, t)" by (cases e)
  with Some have "order_locations b i = Some (q, t)" by simp
  from assms this show ?thesis
  proof (rule cancel_located, goal_cases)
    case (1 l od l')
    have wf: "levels_wf A ok b" using assms(2) by (simp add: book_inv_def)
    have od: "od \<in> orders_in A b t q" using 1(1,2) by (simp add: orders_in_def)
    have at: "s = t \<and> p = q" if "x \<in> orders_in A b s p" "oid x = i" for x s p
      using book_unique [OF assms(2) orders_in_resting [OF that(1)] orders_in_resting [OF od]] that(2) 1(3) by simp
    have get: "sm_get (levels b' s) p =
        (if s = t \<and> p = q then if snapshot_by_seq A l' = [] then None else Some l' else sm_get (levels b s) p)"
      by (simp add: 1(7) drop_level_get put_level_get [OF wf])
    have "orders_in A b' s p = {x \<in> orders_in A b s p. oid x \<noteq> i}"
    proof (cases "s = t \<and> p = q")
      case True
      then have "orders_in A b' s p = set (snapshot_by_seq A l')" using get by (simp add: orders_in_def)
      then show ?thesis using True 1(1) by (simp add: 1(6) orders_in_def)
    next
      case False
      have "orders_in A b' s p = orders_in A b s p" unfolding orders_in_def get if_not_P [OF False] ..
      then show ?thesis using at False by auto
    qed
    moreover have "x = od" if "x \<in> orders_in A b s p" "oid x = i" for x s p
      using order_unique [OF assms(1,2) that(1) od] that(2) 1(3) by simp
    then have "orders_with A b {i} = {od}" using od 1(3) by blast
    ultimately show ?case using 1(11,12) by simp
  qed
qed

lemma cancel_loop_orders_in:
  assumes "price_levels A ok" "book_inv A ok b" "cancel_loop A d reason is b = (gone, b')"
  shows "orders_in A b' s p = {od \<in> orders_in A b s p. oid od \<notin> set is} \<and>
    market_close_for_expiry b' = market_close_for_expiry b \<and>
    snd ` set gone = convert_from_unit_type d ` orders_with A b (set is)"
  using assms(2,3)
proof (induction "is" arbitrary: b gone)
  case (Cons i "is")
  obtain r b1 where c: "cancel_order_with_reason A d b i reason = (r, b1)" by fastforce
  obtain don where l: "cancel_loop A d reason is b1 = (don, b')"
    using Cons.prems(2) c by (auto split: prod.splits)
  have gone: "gone = (case r of Inr (Some od) \<Rightarrow> (i, od) # don | _ \<Rightarrow> don)" using Cons.prems(2) c l by auto
  have "book_inv A ok b1" using cancel_book_inv [OF assms(1) Cons.prems(1) c] by blast
  note IH = Cons.IH [OF this l]
  note C = cancel_orders_in [OF assms(1) Cons.prems(1) c]
  have "snd ` set gone = (case r of Inr (Some x) \<Rightarrow> {x} | _ \<Rightarrow> {}) \<union> snd ` set don"
    by (auto simp: gone split: sum.splits option.splits)
  also have "\<dots> = convert_from_unit_type d ` (orders_with A b {i} \<union> orders_with A b1 (set is))"
    using C IH by (simp only: image_Un)
  also have "orders_with A b {i} \<union> orders_with A b1 (set is) = orders_with A b (set (i # is))"
    using C by auto
  finally show ?case using IH C by auto
qed simp

lemma expired_ids_set:
  assumes "levels_wf A ok b"
  shows "set (expired_ids A b now (sm_iter (levels b s))) =
    {oid od | od p. od \<in> orders_in A b s p \<and> tif_expired_at A b (otif od) now}"
proof -
  have get: "sm_get (levels b s) p = Some l \<longleftrightarrow> (p, l) \<in> set (levels b s)" for p l
    by (rule sm_get_mem [OF levels_wfD(1) [OF assms]])
  have "od \<in> orders_in A b s p \<longleftrightarrow> (\<exists>l. (p, l) \<in> set (levels b s) \<and> od \<in> set (snapshot_by_seq A l))" for od p
    unfolding get [symmetric] orders_in_def by (cases "sm_get (levels b s) p") auto
  then show ?thesis by (auto simp: expired_ids_def sm_iter_def image_iff) (blast, force)
qed

section \<open>Exactness\<close>

lemma batch_exact:
  assumes "price_levels A ok" "book_inv A ok b" "cancel_order_batch_with_reason A d b is reason = (res, b')"
    and sel: "distinct is" "set is = {i. \<exists>u p s. (i, u, p, s) \<in> resting A b \<and> P u p s}"
  shows "book_inv A ok b' \<and> resting A b' = {(i, u, p, s) \<in> resting A b. \<not> P u p s} \<and>
    cancelled_order_ids res = is \<and> cancelled_count res = length is"
proof -
  note B = batch_inv [OF assms(1-3)]
  have "set is \<subseteq> fst ` resting A b" using sel(2) by force
  then have "cancelled_order_ids res = is" using B(3) sel(1) by simp
  moreover have "fst x \<notin> set is \<longleftrightarrow> (case x of (i, u, p, s) \<Rightarrow> \<not> P u p s)" if "x \<in> resting A b" for x
  proof -
    obtain i u p s where x: "x = (i, u, p, s)" by (cases x)
    have "i \<in> set is \<longleftrightarrow> P u p s"
    proof
      assume "i \<in> set is"
      then obtain u' p' s' where y: "(i, u', p', s') \<in> resting A b" "P u' p' s'" using sel(2) by auto
      then show "P u p s" using book_unique [OF assms(2) y(1) that] x by simp
    qed (use that x sel(2) in auto)
    then show ?thesis using x by simp
  qed
  ultimately show ?thesis using B by auto
qed

lemma sm_range_sub: "set (sm_range lo hi m) \<subseteq> set m" "sm_invar m \<Longrightarrow> distinct (map fst (sm_range lo hi m))"
  by (auto simp: sm_range_def sm_invar_def distinct_map_filter strict_sorted_iff)

lemma resting_level: "levels_wf A ok b \<Longrightarrow> (i, u, p, s) \<in> resting A b \<Longrightarrow> \<exists>l. (p, l) \<in> set (levels b s)"
  using sm_get_mem [OF levels_wfD(1)] by (fastforce simp: resting_iff)

lemma range_selected:
  assumes "levels_wf A ok b"
  shows "set (collect_ids A (sm_range lo hi (levels b s))) =
    {i. \<exists>u p t. (i, u, p, t) \<in> resting A b \<and> (t = s \<and> lo \<le> p \<and> p \<le> hi)}"
proof -
  have "p \<in> fst ` set (sm_range lo hi (levels b s)) \<longleftrightarrow> lo \<le> p \<and> p \<le> hi" if "(i, u, p, s) \<in> resting A b" for i u p
  proof -
    obtain l where "(p, l) \<in> set (levels b s)" using resting_level [OF assms \<open>(i, u, p, s) \<in> resting A b\<close>] by blast
    then show ?thesis by (force simp: sm_range_def)
  qed
  then show ?thesis unfolding collected [OF assms sm_range_sub(1)] by blast
qed

lemma side_selected:
  assumes "levels_wf A ok b"
  shows "set (collect_order_ids_by_side A b s) = {i. \<exists>u p t. (i, u, p, t) \<in> resting A b \<and> t = s}"
proof -
  have "p \<in> fst ` set (levels b s)" if "(i, u, p, s) \<in> resting A b" for i u p
    using resting_level [OF assms that] by force
  then show ?thesis
    unfolding collect_order_ids_by_side_def sm_iter_def collected [OF assms order_refl] by blast
qed

lemma side_keys_distinct: "levels_wf A ok b \<Longrightarrow> distinct (map fst (levels b s))"
  using levels_wfD(1) by (auto simp: sm_invar_def strict_sorted_iff)

text \<open>C26: cancelling by side takes exactly that side's orders.  Every order resting on the side is
  cancelled, in price order and oldest first within a price, none of the other side is touched, the
  reported ids are the cancelled ones, and the book stays consistent.\<close>

theorem cancel_by_side_exact:
  assumes "price_levels A ok" "book_inv A ok b" "cancel_orders_by_side A d b s = (res, b')"
  shows "book_inv A ok b' \<and> resting A b' = {(i, u, p, t) \<in> resting A b. t \<noteq> s} \<and>
    cancelled_order_ids res = collect_ids A (levels b s) \<and>
    set (cancelled_order_ids res) = {i. \<exists>u p. (i, u, p, s) \<in> resting A b} \<and>
    cancelled_count res = card {i. \<exists>u p. (i, u, p, s) \<in> resting A b}"
proof -
  have wf: "levels_wf A ok b" using assms(2) by (simp add: book_inv_def)
  have d: "distinct (collect_order_ids_by_side A b s)"
    unfolding collect_order_ids_by_side_def sm_iter_def
    by (rule collect_ids_distinct [OF assms(1,2) order_refl side_keys_distinct [OF wf]])
  from batch_exact [OF assms(1,2) assms(3) [unfolded cancel_orders_by_side_def] d side_selected [OF wf]]
  show ?thesis
    using side_selected [OF wf, of s] distinct_card [OF d] by (simp add: collect_order_ids_by_side_def sm_iter_def)
qed

theorem cancel_by_side_exact_witness:
  "resting fifo (snd (cancel_orders_by_side fifo () demo_book Sell)) = {(4, 9, 98, Buy)} \<and>
   cancelled_order_ids (fst (cancel_orders_by_side fifo () demo_book Sell)) = [1, 2, 3]"
proof -
  note E = cancel_by_side_exact [OF fifo.price_levels_axioms demo_book_inv surjective_pairing, of "()" Sell]
  have "collect_ids fifo (levels demo_book Sell) = [1, 2, 3]" by code_simp
  then have "cancelled_order_ids (fst (cancel_orders_by_side fifo () demo_book Sell)) = [1, 2, 3]" using E by simp
  moreover have "resting fifo (snd (cancel_orders_by_side fifo () demo_book Sell)) =
      {(i, u, p, t) \<in> resting fifo demo_book. t \<noteq> Sell}" using E by blast
  moreover have "\<dots> = {(4, 9, 98, Buy)}" unfolding demo_resting by auto
  ultimately show ?thesis by simp
qed

text \<open>C24: cancelling by user takes exactly that user's orders, although the user's entry is taken
  out of the index before the first cancel.  The reported ids are the index entry, in its order;
  all other orders stay, and the book, the user index included, is consistent afterwards.\<close>

theorem cancel_by_user_exact:
  assumes "price_levels A ok" "book_inv A ok b" "cancel_orders_by_user A d b u = (res, b')"
  shows "book_inv A ok b' \<and> resting A b' = {(i, v, p, s) \<in> resting A b. v \<noteq> u} \<and>
    cancelled_order_ids res = owned (user_orders b) u \<and>
    set (cancelled_order_ids res) = {i. \<exists>p s. (i, u, p, s) \<in> resting A b} \<and>
    map_of (user_orders b') u = None"
proof -
  have run: "cancel_order_batch_with_reason A d b (owned (user_orders b) u) MassCancelByUser = (res, b')"
    using assms(3) by (simp add: by_user_is_batch [OF assms(1,2)])
  have "set (owned (user_orders b) u) = {i. \<exists>v p s. (i, v, p, s) \<in> resting A b \<and> v = u}"
    using by_user_ids(2) [OF assms(2)] by simp
  note E = batch_exact [OF assms(1,2) run by_user_ids(1) [OF assms(2)] this]
  have "set (owned (user_orders b') u) = {}" using by_user_ids(2) [of A ok b' u] E by auto
  moreover have "map_of (user_orders b') u \<noteq> Some []" using E usr_idxD(2) by (auto simp: book_inv_def)
  ultimately have "map_of (user_orders b') u = None" by (cases "map_of (user_orders b') u") (auto simp: owned_def)
  then show ?thesis using E by_user_ids(2) [OF assms(2), of u] by simp
qed

theorem cancel_by_user_exact_witness:
  "resting fifo (snd (cancel_orders_by_user fifo () demo_book 7)) = {(2, 8, 100, Sell), (4, 9, 98, Buy)} \<and>
   cancelled_order_ids (fst (cancel_orders_by_user fifo () demo_book 7)) = [1, 3]"
proof -
  note E = cancel_by_user_exact [OF fifo.price_levels_axioms demo_book_inv surjective_pairing, of "()" 7]
  have "cancelled_order_ids (fst (cancel_orders_by_user fifo () demo_book 7)) = [1, 3]" by code_simp
  moreover have "resting fifo (snd (cancel_orders_by_user fifo () demo_book 7)) =
      {(i, v, p, s) \<in> resting fifo demo_book. v \<noteq> 7}" using E by blast
  moreover have "\<dots> = {(2, 8, 100, Sell), (4, 9, 98, Buy)}" unfolding demo_resting by auto
  ultimately show ?thesis by simp
qed

text \<open>C27: cancelling a price range takes exactly the orders of the side at prices from the lower to
  the upper bound, both included; an inverted range cancels nothing and changes nothing.\<close>

theorem cancel_by_price_range_exact:
  assumes "price_levels A ok" "book_inv A ok b" "cancel_orders_by_price_range A d b s lo hi = (res, b')"
  shows "book_inv A ok b' \<and> resting A b' = {(i, u, p, t) \<in> resting A b. \<not> (t = s \<and> lo \<le> p \<and> p \<le> hi)} \<and>
    set (cancelled_order_ids res) = {i. \<exists>u p. (i, u, p, s) \<in> resting A b \<and> lo \<le> p \<and> p \<le> hi} \<and>
    cancelled_count res = length (cancelled_order_ids res) \<and> (hi < lo \<longrightarrow> b' = b)"
proof (cases "hi < lo")
  case True
  then have "res = mass_cancel_result_new 0 []" "b' = b"
    using assms(3) by (auto simp: cancel_orders_by_price_range_def)
  then show ?thesis using True assms(2) by (auto simp: mass_cancel_result_new_def)
next
  case False
  have wf: "levels_wf A ok b" using assms(2) by (simp add: book_inv_def)
  have run: "cancel_order_batch_with_reason A d b (collect_ids A (sm_range lo hi (levels b s))) MassCancelByPriceRange = (res, b')"
    using assms(3) False by (simp add: cancel_orders_by_price_range_def)
  have d: "distinct (collect_ids A (sm_range lo hi (levels b s)))"
    by (rule collect_ids_distinct [OF assms(1,2) sm_range_sub(1) sm_range_sub(2) [OF levels_wfD(1) [OF wf]]])
  show ?thesis
    using batch_exact [OF assms(1,2) run d range_selected [OF wf]] range_selected [OF wf, of lo hi s] False by auto
qed

theorem cancel_by_price_range_exact_witness:
  "resting fifo (snd (cancel_orders_by_price_range fifo () demo_book Sell 101 200)) =
     {(1, 7, 100, Sell), (2, 8, 100, Sell), (4, 9, 98, Buy)} \<and>
   snd (cancel_orders_by_price_range fifo () demo_book Sell 200 101) = demo_book"
proof -
  note E = cancel_by_price_range_exact [OF fifo.price_levels_axioms demo_book_inv surjective_pairing, of "()" Sell]
  have "resting fifo (snd (cancel_orders_by_price_range fifo () demo_book Sell 101 200)) =
      {(i, u, p, t) \<in> resting fifo demo_book. \<not> (t = Sell \<and> 101 \<le> p \<and> p \<le> 200)}"
    by (rule conjunct1 [OF conjunct2 [OF E]])
  also have "\<dots> = {(1, 7, 100, Sell), (2, 8, 100, Sell), (4, 9, 98, Buy)}" unfolding demo_resting by auto
  finally have "resting fifo (snd (cancel_orders_by_price_range fifo () demo_book Sell 101 200)) = \<dots>" .
  moreover have "snd (cancel_orders_by_price_range fifo () demo_book Sell 200 101) = demo_book"
    using E [of 200 101] by simp
  ultimately show ?thesis by simp
qed

lemma evict_spec:
  assumes "price_levels A ok" "book_inv A ok b" "evict_expired_orders A d b now = (evicted, b')"
  shows "book_inv A ok b'" "orders_in A b' s p = {od \<in> orders_in A b s p. \<not> tif_expired_at A b (otif od) now}"
    "set evicted = convert_from_unit_type d ` {od. (\<exists>s p. od \<in> orders_in A b s p) \<and> tif_expired_at A b (otif od) now}"
    "market_close_for_expiry b' = market_close_for_expiry b"
proof -
  let ?is = "expired_ids A b now (sm_iter (levels b Buy)) @ expired_ids A b now (sm_iter (levels b Sell))"
  have wf: "levels_wf A ok b" using assms(2) by (simp add: book_inv_def)
  obtain gone where run: "cancel_loop A d TimeInForceExpired ?is b = (gone, b')" and ev: "evicted = map snd gone"
    using assms(3) by (cases "?is = []") (auto simp: evict_expired_orders_def Let_def split: prod.splits)
  have exp: "i \<in> set (expired_ids A b now (sm_iter (levels b s))) \<longleftrightarrow>
      (\<exists>od p. i = oid od \<and> od \<in> orders_in A b s p \<and> tif_expired_at A b (otif od) now)" for i s
    unfolding expired_ids_set [OF wf] by blast
  have sel: "oid od \<in> set ?is \<longleftrightarrow> tif_expired_at A b (otif od) now" if od: "od \<in> orders_in A b s p" for od s p
  proof
    assume "oid od \<in> set ?is"
    then obtain t where "oid od \<in> set (expired_ids A b now (sm_iter (levels b t)))"
      unfolding set_append Un_iff by blast
    then obtain od' q where od': "oid od = oid od'" "od' \<in> orders_in A b t q" "tif_expired_at A b (otif od') now"
      unfolding exp by blast
    show "tif_expired_at A b (otif od) now" using order_unique [OF assms(1,2) od od'(2,1)] od'(3) by simp
  next
    assume "tif_expired_at A b (otif od) now"
    then have "oid od \<in> set (expired_ids A b now (sm_iter (levels b s)))" unfolding exp using od by blast
    then show "oid od \<in> set ?is" by (cases s) (simp_all del: levels_simps)
  qed
  note L = cancel_loop_orders_in [OF assms(1,2) run]
  show "book_inv A ok b'" using cancel_loop_inv [OF assms(1,2) run] by blast
  have "{od \<in> orders_in A b s p. oid od \<notin> set ?is} = {od \<in> orders_in A b s p. \<not> tif_expired_at A b (otif od) now}"
    using sel by blast
  then show "orders_in A b' s p = {od \<in> orders_in A b s p. \<not> tif_expired_at A b (otif od) now}" using L by metis
  have "orders_with A b (set ?is) = {od. (\<exists>s p. od \<in> orders_in A b s p) \<and> tif_expired_at A b (otif od) now}"
    using sel by blast
  then show "set evicted = convert_from_unit_type d ` {od. (\<exists>s p. od \<in> orders_in A b s p) \<and> tif_expired_at A b (otif od) now}"
    using L [of s p] unfolding ev set_map by simp
  show "market_close_for_expiry b' = market_close_for_expiry b" using L by blast
qed

text \<open>C28: the eviction sweep removes exactly the expired orders.  At every price of both sides the
  orders left are those not expired at the given instant, the returned orders are exactly the
  expired ones, the book stays consistent, and a second sweep at the same instant finds nothing.\<close>

theorem evict_expired_exact:
  assumes "price_levels A ok" "book_inv A ok b" "evict_expired_orders A d b now = (evicted, b')"
  shows "book_inv A ok b' \<and>
    orders_in A b' s p = {od \<in> orders_in A b s p. \<not> tif_expired_at A b (otif od) now} \<and>
    set evicted = convert_from_unit_type d ` {od. (\<exists>s p. od \<in> orders_in A b s p) \<and> tif_expired_at A b (otif od) now} \<and>
    evict_expired_orders A d b' now = ([], b')"
proof -
  note E = evict_spec [OF assms]
  have wf: "levels_wf A ok b'" using E(1) by (simp add: book_inv_def)
  have "tif_expired_at A b' = tif_expired_at A b" by (intro ext) (simp add: tif_expired_at_def E(4))
  then have "set (expired_ids A b' now (sm_iter (levels b' t))) = {}" for t
    unfolding expired_ids_set [OF wf] E(2) by auto
  from this [of Buy] this [of Sell] show ?thesis using E(1-3) by (simp add: evict_expired_orders_def)
qed

theorem evict_expired_exact_witness:
  "orders_in fifo (snd (evict_expired_orders fifo () demo_book 60)) Buy 98 = {} \<and>
   orders_in fifo (snd (evict_expired_orders fifo () demo_book 60)) Sell 101 = {Standard 3 101 6 Sell 7 0 Gtc ()}"
proof -
  note E = evict_expired_exact [OF fifo.price_levels_axioms demo_book_inv surjective_pairing, of "()" 60]
  have "orders_in fifo demo_book Buy 98 = {Standard 4 98 3 Buy 9 0 (Gtd 50) ()}"
    "orders_in fifo demo_book Sell 101 = {Standard 3 101 6 Sell 7 0 Gtc ()}"
    "tif_expired_at fifo demo_book (Gtd 50) 60" "\<not> tif_expired_at fifo demo_book Gtc 60" by code_simp+
  note D = this
  have "orders_in fifo (snd (evict_expired_orders fifo () demo_book 60)) t q =
      {od \<in> orders_in fifo demo_book t q. \<not> tif_expired_at fifo demo_book (otif od) 60}" for t q
    by (rule conjunct1 [OF conjunct2 [OF E]])
  from this [of Buy 98] this [of Sell 101] show ?thesis
    unfolding D(1,2) using D(3,4) by (simp add: conj_commute Collect_conv_if cong: conj_cong)
qed

section \<open>The bulk cancel\<close>

lemma zero_levels_frame [simp]:
  "bids (zero_levels s ls b) = bids b" "asks (zero_levels s ls b) = asks b" "risk_state (zero_levels s ls b) = risk_state b"
  "cache (zero_levels s ls b) = cache b"
  by (induction s ls b rule: zero_levels.induct) auto

lemma track_cancelled_frame [simp]:
  "bids (track_cancelled is b) = bids b" "asks (track_cancelled is b) = asks b"
  "risk_state (track_cancelled is b) = risk_state b" "cache (track_cancelled is b) = cache b"
  by (induction "is" b rule: track_cancelled.induct) auto

lemma empty_book_inv:
  assumes "bids b = []" "asks b = []" "order_locations b = (\<lambda>_. None)" "user_orders b = []" "cache b = invalidate c"
  shows "book_inv A ok b" "resting A b = {}"
proof -
  have lv: "levels b s = []" for s using assms by (cases s) simp_all
  then show "resting A b = {}" by (auto simp: resting_iff)
  then show "book_inv A ok b"
    using assms lv by (simp add: book_inv_def levels_wf_def no_empty_def loc_idx_empty usr_idx_empty sm_invar_def)
qed

lemma all_selected:
  assumes "levels_wf A ok b"
  shows "set (collect_ids A (bids b) @ collect_ids A (asks b)) = fst ` resting A b"
proof -
  have "i \<in> fst ` resting A b \<longleftrightarrow> (\<exists>s u p. (i, u, p, s) \<in> resting A b)" for i by force
  also have "(\<exists>s u p. (i, u, p, s) \<in> resting A b) \<longleftrightarrow> i \<in> set (collect_ids A (bids b) @ collect_ids A (asks b))" for i
    using side_selected [OF assms, of Buy] side_selected [OF assms, of Sell]
    by (auto simp: collect_order_ids_by_side_def sm_iter_def) (metis side.exhaust)
  finally show ?thesis by blast
qed

lemma all_distinct:
  assumes "price_levels A ok" "book_inv A ok b"
  shows "distinct (collect_ids A (bids b) @ collect_ids A (asks b))"
proof -
  have wf: "levels_wf A ok b" using assms(2) by (simp add: book_inv_def)
  have d: "distinct (collect_ids A (levels b s))" for s
    by (rule collect_ids_distinct [OF assms order_refl side_keys_distinct [OF wf]])
  have "i \<notin> set (collect_ids A (asks b))" if "i \<in> set (collect_ids A (bids b))" for i
  proof
    assume "i \<in> set (collect_ids A (asks b))"
    then obtain u p v q where "(i, u, p, Buy) \<in> resting A b" "(i, v, q, Sell) \<in> resting A b"
      using \<open>i \<in> set (collect_ids A (bids b))\<close> side_selected [OF wf, of Buy] side_selected [OF wf, of Sell]
      by (auto simp: collect_order_ids_by_side_def sm_iter_def)
    from book_unique [OF assms(2) this] show False by simp
  qed
  then show ?thesis using d [of Buy] d [of Sell] by auto
qed

lemma nothing_resting:
  assumes "book_inv A ok b" and R: "resting A b = {}"
  shows "bids b = []" "asks b = []" "order_locations b = (\<lambda>_. None)" "user_orders b = []"
proof -
  have wf: "levels_wf A ok b" and ne: "no_empty A b" and lc: "loc_idx (order_locations b) (resting A b)"
    and ui: "usr_idx (user_orders b) (resting A b)" using assms(1) by (simp_all add: book_inv_def)
  have "sm_get (levels b s) p = None" for s p
  proof (cases "sm_get (levels b s) p")
    case (Some l)
    then have "snapshot_by_seq A l \<noteq> []" using ne unfolding no_empty_def by blast
    then have "hd (snapshot_by_seq A l) \<in> orders_in A b s p" using Some by (simp add: orders_in_def)
    from orders_in_resting [OF this]
    show ?thesis using R by simp
  qed
  then have "levels b s = []" for s
    using sm_get_mem [OF levels_wfD(1) [OF wf, of s]] by (metis list.set_intros(1) neq_Nil_conv option.distinct(1) surj_pair)
  from this [of Buy] this [of Sell] show "bids b = []" "asks b = []" by simp_all
  show "order_locations b = (\<lambda>_. None)" using loc_idx_None [OF lc] R by (intro ext) simp
  show "user_orders b = []"
  proof (rule ccontr)
    assume "user_orders b \<noteq> []"
    then obtain u "is" where "map_of (user_orders b) u = Some is"
      by (metis list.exhaust_sel map_of_Cons_code(2) surj_pair)
    then show False using usr_idxD(2) [OF ui, of u] usr_idxD(4) [OF ui, of "hd is" u] R by (auto simp: owned_def)
  qed
qed

text \<open>C25: cancelling everything leaves the empty book.  All levels and index entries are gone, the
  reported ids are exactly the ids that rested, each once, and the empty book is consistent; the
  risk counters and the re-pricing registrations are cleared whenever anything rested.\<close>

theorem cancel_all_empties:
  assumes "price_levels A ok" "book_inv A ok b" "cancel_all_orders A b = (res, b')"
  shows "book_inv A ok b' \<and> resting A b' = {} \<and> bids b' = [] \<and> asks b' = [] \<and> user_orders b' = [] \<and>
    order_locations b' = (\<lambda>_. None) \<and> distinct (cancelled_order_ids res) \<and>
    set (cancelled_order_ids res) = fst ` resting A b \<and> cancelled_count res = card (fst ` resting A b) \<and>
    (resting A b \<noteq> {} \<longrightarrow> risk_state b' = risk_clear (risk_state b) \<and>
       special_order_tracker b' = \<lparr>pegged_orders = [], trailing_stop_orders = []\<rparr>)"
proof -
  let ?is = "collect_ids A (bids b) @ collect_ids A (asks b)"
  have wf: "levels_wf A ok b" using assms(2) by (simp add: book_inv_def)
  have card: "length ?is = card (fst ` resting A b)"
    using distinct_card [OF all_distinct [OF assms(1,2)]] all_selected [OF wf] by simp
  show ?thesis
  proof (cases "?is = []")
    case True
    then have R: "resting A b = {}" using all_selected [OF wf] by (metis image_is_empty set_empty)
    have run: "res = mass_cancel_result_new 0 []" "b' = invalidate_cache b"
      using True assms(3) by (auto simp: cancel_all_orders_def sm_iter_def Let_def)
    show ?thesis
      using nothing_resting [OF assms(2) R] run book_inv_frames(7) [OF assms(2)] quietD(3) [OF quiet_frames(6), of A b] R
      by (simp add: mass_cancel_result_new_def)
  next
    case False
    then have res: "res = mass_cancel_result_new (length ?is) ?is"
      using assms(3) by (auto simp: cancel_all_orders_def sm_iter_def Let_def)
    have b': "bids b' = []" "asks b' = []" "order_locations b' = (\<lambda>_. None)" "user_orders b' = []"
      "cache b' = invalidate (cache b)" "risk_state b' = risk_clear (risk_state b)"
      "special_order_tracker b' = \<lparr>pegged_orders = [], trailing_stop_orders = []\<rparr>"
      using False assms(3) by (auto simp: cancel_all_orders_def sm_iter_def Let_def)
    show ?thesis
      using empty_book_inv [OF b'(1-5)] b' res card all_distinct [OF assms(1,2)] all_selected [OF wf] by (simp add: mass_cancel_result_new_def)
  qed
qed

theorem cancel_all_empties_witness:
  "resting fifo (snd (cancel_all_orders fifo demo_book)) = {} \<and>
   cancelled_count (fst (cancel_all_orders fifo demo_book)) = 4"
  using cancel_all_empties [OF fifo.price_levels_axioms demo_book_inv surjective_pairing]
  by (simp add: demo_resting)

end
