(* ===== verification/Repricing.thy ===== *)
theory Repricing
  imports Modify_Inv Demo_Book "HOL-Library.List_Lexorder" "HOL-Library.Char_ord"
begin

text \<open>
  Re-pricing of pegged orders and trailing stops: the tracker and the two price calculations of
  \<open>src/orderbook/repricing.rs\<close>, and the loops over the tracked orders in
  \<open>src/orderbook/book.rs\<close>.  A rejected re-price is recorded with its new price and its error
  instead of the formatted message.
\<close>

section \<open>The tracker\<close>

definition special_tracker_new :: special_order_tracker where
  "special_tracker_new = \<lparr>pegged_orders = [], trailing_stop_orders = []\<rparr>"

definition register_pegged_order :: "special_order_tracker \<Rightarrow> ident \<Rightarrow> special_order_tracker" where
  "register_pegged_order t i = t\<lparr>pegged_orders := List.insert i (pegged_orders t)\<rparr>"

definition register_trailing_stop :: "special_order_tracker \<Rightarrow> ident \<Rightarrow> special_order_tracker" where
  "register_trailing_stop t i = t\<lparr>trailing_stop_orders := List.insert i (trailing_stop_orders t)\<rparr>"

definition unregister_pegged_order :: "special_order_tracker \<Rightarrow> ident \<Rightarrow> special_order_tracker" where
  "unregister_pegged_order t i = t\<lparr>pegged_orders := removeAll i (pegged_orders t)\<rparr>"

definition unregister_trailing_stop :: "special_order_tracker \<Rightarrow> ident \<Rightarrow> special_order_tracker" where
  "unregister_trailing_stop t i = t\<lparr>trailing_stop_orders := removeAll i (trailing_stop_orders t)\<rparr>"

definition pegged_order_count :: "special_order_tracker \<Rightarrow> usize" where
  "pegged_order_count t = length (pegged_orders t)"

definition trailing_stop_count :: "special_order_tracker \<Rightarrow> usize" where
  "trailing_stop_count t = length (trailing_stop_orders t)"

text \<open>The sets iterate in an unspecified order; the ids are sorted by their printed form, which is
  the id crate's \<open>to_string\<close>.\<close>

definition pegged_order_ids :: "(ident \<Rightarrow> string) \<Rightarrow> special_order_tracker \<Rightarrow> ident list" where
  "pegged_order_ids to_str t = sort_key to_str (pegged_orders t)"

definition trailing_stop_ids :: "(ident \<Rightarrow> string) \<Rightarrow> special_order_tracker \<Rightarrow> ident list" where
  "trailing_stop_ids to_str t = sort_key to_str (trailing_stop_orders t)"

definition special_tracker_clear :: "special_order_tracker \<Rightarrow> special_order_tracker" where
  "special_tracker_clear t = t\<lparr>pegged_orders := [], trailing_stop_orders := []\<rparr>"

section \<open>The mid price\<close>

text \<open>
  The mid price is computed in \<open>f64\<close>.  A \<open>u128\<close> converts to the nearest double, ties to even: a
  natural number below \<open>2 ^ 53\<close> is exact, a larger one keeps its 53 leading bits.  The sum of two
  such integers is rounded once more, and halving is exact, so twice the mid price is a natural
  number, and the final cast truncates and saturates.
\<close>

fun f64_shift :: "nat \<Rightarrow> nat" where
  "f64_shift n = (if n < 2 ^ 53 then 0 else Suc (f64_shift (n div 2)))"

declare f64_shift.simps [simp del]

definition f64_of_nat :: "nat \<Rightarrow> nat" where
  "f64_of_nat n =
     (let u = 2 ^ f64_shift n; q = n div u; r = n mod u
      in if 2 * r < u \<or> 2 * r = u \<and> even q then q * u else (q + 1) * u)"

definition mid_price_twice :: "u128 \<Rightarrow> u128 \<Rightarrow> nat" where
  "mid_price_twice bid ask = f64_of_nat (f64_of_nat bid + f64_of_nat ask)"

definition mid_price :: "('l, 'g) book \<Rightarrow> nat option \<times> ('l, 'g) book" where
  "mid_price b =
     (let (bid, b1) = best_bid b; (ask, b2) = best_ask b1
      in (case (bid, ask) of (Some x, Some y) \<Rightarrow> Some (mid_price_twice x y) | _ \<Rightarrow> None, b2))"

section \<open>Price calculations\<close>

text \<open>\<open>(-offset) as u128\<close> for a negative \<open>i64\<close>: negating the least value wraps to itself, and the cast
  extends its sign.\<close>

definition neg_offset :: "int \<Rightarrow> nat" where
  "neg_offset k = (if k = - (2 ^ 63) then 2 ^ 128 - 2 ^ 63 else nat (- k))"

definition div_ceil :: "nat \<Rightarrow> nat \<Rightarrow> nat" where
  "div_ceil a n = (if a mod n = 0 then a div n else a div n + 1)"

definition peg_reference ::
    "peg_reference_type \<Rightarrow> u128 option \<Rightarrow> u128 option \<Rightarrow> u128 option \<Rightarrow> u128 option \<Rightarrow> u128 option" where
  "peg_reference ty bid ask mid last_trade =
     (case ty of BestBid \<Rightarrow> bid | BestAsk \<Rightarrow> ask | MidPrice \<Rightarrow> mid
      | peg_reference_type.LastTrade \<Rightarrow> last_trade)"

definition peg_target :: "u128 \<Rightarrow> int \<Rightarrow> u128" where
  "peg_target reference offset =
     (if 0 \<le> offset then sat_add128 reference (nat offset) else sat_sub reference (neg_offset offset))"

definition peg_step :: "u128 option \<Rightarrow> u128" where
  "peg_step tick = (case tick of Some t \<Rightarrow> if 1 < t then t else 1 | None \<Rightarrow> 1)"

definition calculate_pegged_price ::
    "peg_reference_type \<Rightarrow> int \<Rightarrow> side \<Rightarrow> u128 option \<Rightarrow> u128 option \<Rightarrow> u128 option \<Rightarrow> u128 option \<Rightarrow>
      u128 option \<Rightarrow> u128 option" where
  "calculate_pegged_price ty offset s bid ask mid last_trade tick =
     (case peg_reference ty bid ask mid last_trade of
        None \<Rightarrow> None
      | Some reference \<Rightarrow>
          (let target = peg_target reference offset;
               step = peg_step tick;
               clamped = (case s of
                            Buy \<Rightarrow> (case ask of Some a \<Rightarrow> min target (sat_sub a step) | None \<Rightarrow> target)
                          | Sell \<Rightarrow> (case bid of Some x \<Rightarrow> max target (sat_add128 x step) | None \<Rightarrow> target));
               snapped = (if 1 < step
                          then (case s of
                                  Buy \<Rightarrow> clamped div step * step
                                | Sell \<Rightarrow> sat_mul128 (div_ceil clamped step) step)
                          else clamped);
               priced = max snapped (if 1 < step then step else 1)
           in case s of
                Buy \<Rightarrow> (case ask of Some a \<Rightarrow> if a \<le> priced then None else Some priced | None \<Rightarrow> Some priced)
              | Sell \<Rightarrow> (case bid of Some x \<Rightarrow> if priced \<le> x then None else Some priced | None \<Rightarrow> Some priced)))"

definition calculate_trailing_stop_price ::
    "side \<Rightarrow> u128 \<Rightarrow> u64 \<Rightarrow> u128 \<Rightarrow> u128 \<Rightarrow> (u128 \<times> u128) option" where
  "calculate_trailing_stop_price s current_stop trail last_reference market =
     (case s of
        Sell \<Rightarrow>
          (if last_reference < market
           then (let new_stop = sat_sub market trail
                 in if current_stop < new_stop then Some (new_stop, market) else None)
           else None)
      | Buy \<Rightarrow>
          (if market < last_reference
           then (let new_stop = sat_add128 market trail
                 in if new_stop < current_stop then Some (new_stop, market) else None)
           else None))"

definition should_trigger_trailing_stop :: "'x order_type \<Rightarrow> u128 \<Rightarrow> bool" where
  "should_trigger_trailing_stop order market =
     (case order of
        TrailingStop _ stop_price _ s _ _ _ _ _ _ \<Rightarrow>
          (case s of Sell \<Rightarrow> market \<le> stop_price | Buy \<Rightarrow> stop_price \<le> market)
      | _ \<Rightarrow> False)"

section \<open>The loops\<close>

record repricing_result =
  pegged_orders_repriced :: usize
  trailing_stops_repriced :: usize
  failed_orders :: "(ident \<times> u128 \<times> order_book_error) list"

definition apply_reprice ::
    "('l, 'g) pricelevel_api \<Rightarrow> 'x \<Rightarrow> ident \<Rightarrow> u128 \<Rightarrow> usize \<Rightarrow> (ident \<times> u128 \<times> order_book_error) list \<Rightarrow>
      ('l, 'g) book \<Rightarrow> usize \<times> (ident \<times> u128 \<times> order_book_error) list \<times> ('l, 'g) book" where
  "apply_reprice A d order_id new_price n failures b =
     (case update_order A d b (UpdatePrice order_id new_price) of
        (Inr _, b1) \<Rightarrow> (n + 1, failures, b1)
      | (Inl e, b1) \<Rightarrow> (n, failures @ [(order_id, new_price, e)], b1))"

text \<open>One round of each loop.\<close>

definition reprice_pegged_one ::
    "('l, 'g) pricelevel_api \<Rightarrow> 'x \<Rightarrow> u128 option \<times> u128 option \<times> u128 option \<times> u128 option \<Rightarrow> ident \<Rightarrow>
      usize \<Rightarrow> (ident \<times> u128 \<times> order_book_error) list \<Rightarrow> ('l, 'g) book \<Rightarrow>
      usize \<times> (ident \<times> u128 \<times> order_book_error) list \<times> ('l, 'g) book" where
  "reprice_pegged_one A d refs i n failures b =
     (case refs of (bid, ask, mid, lt) \<Rightarrow>
      case get_order A d b i of
        Some (PeggedOrder _ current_price _ s _ _ _ offset ty _) \<Rightarrow>
          (case calculate_pegged_price ty offset s bid ask mid lt (tick_size b) of
             Some new_price \<Rightarrow>
               if new_price \<noteq> current_price then apply_reprice A d i new_price n failures b
               else (n, failures, b)
           | None \<Rightarrow> (n, failures, b))
      | Some _ \<Rightarrow> (n, failures, b)
      | None \<Rightarrow> (n, failures, b\<lparr>special_order_tracker := unregister_pegged_order (special_order_tracker b) i\<rparr>))"

fun reprice_pegged_loop ::
    "('l, 'g) pricelevel_api \<Rightarrow> 'x \<Rightarrow> u128 option \<times> u128 option \<times> u128 option \<times> u128 option \<Rightarrow> ident list \<Rightarrow>
      usize \<Rightarrow> (ident \<times> u128 \<times> order_book_error) list \<Rightarrow> ('l, 'g) book \<Rightarrow>
      usize \<times> (ident \<times> u128 \<times> order_book_error) list \<times> ('l, 'g) book" where
  "reprice_pegged_loop A d refs [] n failures b = (n, failures, b)"
| "reprice_pegged_loop A d refs (i # is) n failures b =
     (let (n1, failures1, b1) = reprice_pegged_one A d refs i n failures b
      in reprice_pegged_loop A d refs is n1 failures1 b1)"

definition reprice_pegged_collecting ::
    "('l, 'g) pricelevel_api \<Rightarrow> 'x \<Rightarrow> (ident \<Rightarrow> string) \<Rightarrow> (ident \<times> u128 \<times> order_book_error) list \<Rightarrow> ('l, 'g) book \<Rightarrow>
      usize \<times> (ident \<times> u128 \<times> order_book_error) list \<times> ('l, 'g) book" where
  "reprice_pegged_collecting A d to_str failures b =
     (let pegged_ids = pegged_order_ids to_str (special_order_tracker b)
      in if pegged_ids = [] then (0, failures, b)
         else
           (let (bid, b1) = best_bid b;
                (ask, b2) = best_ask b1;
                (mid2, b3) = mid_price b2;
                mid = map_option (\<lambda>m. min u128_max (m div 2)) mid2
            in reprice_pegged_loop A d (bid, ask, mid, last_trade_price b3) pegged_ids 0 failures b3))"

definition reprice_trailing_one ::
    "('l, 'g) pricelevel_api \<Rightarrow> 'x \<Rightarrow> ident \<Rightarrow> usize \<Rightarrow> (ident \<times> u128 \<times> order_book_error) list \<Rightarrow> ('l, 'g) book \<Rightarrow>
      usize \<times> (ident \<times> u128 \<times> order_book_error) list \<times> ('l, 'g) book" where
  "reprice_trailing_one A d i n failures b =
     (case get_order A d b i of
        Some (TrailingStop _ current_stop _ s _ _ _ trail last_reference _) \<Rightarrow>
          (let (market, b') = (case s of Sell \<Rightarrow> best_bid b | Buy \<Rightarrow> best_ask b)
           in case market of
                None \<Rightarrow> (n, failures, b')
              | Some market_price \<Rightarrow>
                  (case calculate_trailing_stop_price s current_stop trail last_reference market_price of
                     Some (new_stop, _) \<Rightarrow> apply_reprice A d i new_stop n failures b'
                   | None \<Rightarrow> (n, failures, b')))
      | Some _ \<Rightarrow> (n, failures, b)
      | None \<Rightarrow> (n, failures, b\<lparr>special_order_tracker := unregister_trailing_stop (special_order_tracker b) i\<rparr>))"

fun reprice_trailing_loop ::
    "('l, 'g) pricelevel_api \<Rightarrow> 'x \<Rightarrow> ident list \<Rightarrow> usize \<Rightarrow> (ident \<times> u128 \<times> order_book_error) list \<Rightarrow> ('l, 'g) book \<Rightarrow>
      usize \<times> (ident \<times> u128 \<times> order_book_error) list \<times> ('l, 'g) book" where
  "reprice_trailing_loop A d [] n failures b = (n, failures, b)"
| "reprice_trailing_loop A d (i # is) n failures b =
     (let (n1, failures1, b1) = reprice_trailing_one A d i n failures b
      in reprice_trailing_loop A d is n1 failures1 b1)"

definition reprice_trailing_collecting ::
    "('l, 'g) pricelevel_api \<Rightarrow> 'x \<Rightarrow> (ident \<Rightarrow> string) \<Rightarrow> (ident \<times> u128 \<times> order_book_error) list \<Rightarrow> ('l, 'g) book \<Rightarrow>
      usize \<times> (ident \<times> u128 \<times> order_book_error) list \<times> ('l, 'g) book" where
  "reprice_trailing_collecting A d to_str failures b =
     (let trailing_ids = trailing_stop_ids to_str (special_order_tracker b)
      in if trailing_ids = [] then (0, failures, b) else reprice_trailing_loop A d trailing_ids 0 failures b)"

definition reprice_pegged_orders ::
    "('l, 'g) pricelevel_api \<Rightarrow> 'x \<Rightarrow> (ident \<Rightarrow> string) \<Rightarrow> ('l, 'g) book \<Rightarrow> (order_book_error + usize) \<times> ('l, 'g) book" where
  "reprice_pegged_orders A d to_str b =
     (let (n, _, b1) = reprice_pegged_collecting A d to_str [] b in (Inr n, b1))"

definition reprice_trailing_stops ::
    "('l, 'g) pricelevel_api \<Rightarrow> 'x \<Rightarrow> (ident \<Rightarrow> string) \<Rightarrow> ('l, 'g) book \<Rightarrow> (order_book_error + usize) \<times> ('l, 'g) book" where
  "reprice_trailing_stops A d to_str b =
     (let (n, _, b1) = reprice_trailing_collecting A d to_str [] b in (Inr n, b1))"

definition reprice_special_orders ::
    "('l, 'g) pricelevel_api \<Rightarrow> 'x \<Rightarrow> (ident \<Rightarrow> string) \<Rightarrow> ('l, 'g) book \<Rightarrow>
      (order_book_error + repricing_result) \<times> ('l, 'g) book" where
  "reprice_special_orders A d to_str b =
     (let (n, failures, b1) = reprice_pegged_collecting A d to_str [] b;
          (m, failures', b2) = reprice_trailing_collecting A d to_str failures b1
      in (Inr \<lparr>pegged_orders_repriced = n, trailing_stops_repriced = m, failed_orders = failures'\<rparr>, b2))"

section \<open>The pegged price\<close>

lemma peg_step_pos: "0 < peg_step tick"
  by (simp add: peg_step_def split: option.splits)

lemma div_ceil_upper: "0 < n \<Longrightarrow> a \<le> div_ceil a n * n"
proof (cases "a mod n = 0")
  case False
  assume "0 < n"
  then have "a mod n < n" by simp
  then have "a < a div n * n + n" using div_mult_mod_eq [of a n] by linarith
  then show ?thesis using False by (simp add: div_ceil_def)
qed (use div_mult_mod_eq [of a n] in \<open>simp add: div_ceil_def\<close>)

definition peg_floor :: "u128 option \<Rightarrow> u128 \<Rightarrow> u128" where
  "peg_floor tick c = (if 1 < peg_step tick then c div peg_step tick * peg_step tick else c)"

definition peg_ceiling :: "u128 option \<Rightarrow> u128 \<Rightarrow> u128" where
  "peg_ceiling tick c = (if 1 < peg_step tick then sat_mul128 (div_ceil c (peg_step tick)) (peg_step tick) else c)"

lemma step_not_one: "\<not> 1 < peg_step tick \<Longrightarrow> peg_step tick = 1"
  using peg_step_pos [of tick] by simp

lemma peg_floor: "peg_floor tick c \<le> c" "peg_step tick dvd peg_floor tick c"
  using step_not_one [of tick] by (auto simp: peg_floor_def)

lemma peg_ceiling: "peg_ceiling tick c = u128_max \<or> c \<le> peg_ceiling tick c \<and> peg_step tick dvd peg_ceiling tick c"
  using step_not_one [of tick] div_ceil_upper [OF peg_step_pos, of c tick]
  by (auto simp: peg_ceiling_def sat_mul128_def min_def)

text \<open>The calculation in two shapes, one per side: clamp, move to the grid, floor, final guard.\<close>

lemma pegged_shape:
  assumes "peg_reference ty bid ask mid lt = Some r"
  shows "calculate_pegged_price ty off Buy bid ask mid lt tick =
      (let c = (case ask of Some a \<Rightarrow> min (peg_target r off) (sat_sub a (peg_step tick)) | None \<Rightarrow> peg_target r off);
           p = max (peg_floor tick c) (peg_step tick)
       in if \<exists>a. ask = Some a \<and> a \<le> p then None else Some p)"
    "calculate_pegged_price ty off Sell bid ask mid lt tick =
      (let c = (case bid of Some x \<Rightarrow> max (peg_target r off) (sat_add128 x (peg_step tick)) | None \<Rightarrow> peg_target r off);
           p = max (peg_ceiling tick c) (peg_step tick)
       in if \<exists>x. bid = Some x \<and> p \<le> x then None else Some p)"
proof -
  have m: "(if 1 < peg_step tick then peg_step tick else 1) = peg_step tick" using step_not_one [of tick] by auto
  show "calculate_pegged_price ty off Buy bid ask mid lt tick =
      (let c = (case ask of Some a \<Rightarrow> min (peg_target r off) (sat_sub a (peg_step tick)) | None \<Rightarrow> peg_target r off);
           p = max (peg_floor tick c) (peg_step tick)
       in if \<exists>a. ask = Some a \<and> a \<le> p then None else Some p)"
    using assms m by (cases ask) (simp_all add: calculate_pegged_price_def Let_def peg_floor_def)
  show "calculate_pegged_price ty off Sell bid ask mid lt tick =
      (let c = (case bid of Some x \<Rightarrow> max (peg_target r off) (sat_add128 x (peg_step tick)) | None \<Rightarrow> peg_target r off);
           p = max (peg_ceiling tick c) (peg_step tick)
       in if \<exists>x. bid = Some x \<and> p \<le> x then None else Some p)"
    using assms m by (cases bid) (simp_all add: calculate_pegged_price_def Let_def peg_ceiling_def)
qed

lemma pegged_reference:
  "calculate_pegged_price ty off s bid ask mid lt tick = Some p \<Longrightarrow> \<exists>r. peg_reference ty bid ask mid lt = Some r"
  by (auto simp: calculate_pegged_price_def split: option.splits)

lemma pegged_buy:
  assumes "calculate_pegged_price ty off Buy bid ask mid lt tick = Some p"
  shows "peg_step tick \<le> p \<and> peg_step tick dvd p \<and> (\<forall>a. ask = Some a \<longrightarrow> p < a) \<and>
    (\<exists>r. peg_reference ty bid ask mid lt = Some r \<and> (p \<le> peg_target r off \<or> p = peg_step tick))"
proof -
  obtain r where r: "peg_reference ty bid ask mid lt = Some r" using pegged_reference [OF assms] by blast
  define c where "c = (case ask of Some a \<Rightarrow> min (peg_target r off) (sat_sub a (peg_step tick)) | None \<Rightarrow> peg_target r off)"
  have p: "p = max (peg_floor tick c) (peg_step tick)" "\<forall>a. ask = Some a \<longrightarrow> p < a"
    using assms pegged_shape(1) [OF r] unfolding c_def by (auto simp: Let_def split: if_splits)
  have "c \<le> peg_target r off" unfolding c_def by (simp split: option.splits)
  then have "p \<le> peg_target r off \<or> p = peg_step tick" using p(1) peg_floor(1) [of tick c] by (auto simp: max_def)
  moreover have "peg_step tick dvd p" using p(1) peg_floor(2) [of tick c] by (simp add: max_def)
  ultimately show ?thesis using p r by auto
qed

lemma pegged_sell:
  assumes "calculate_pegged_price ty off Sell bid ask mid lt tick = Some p" "peg_step tick \<le> u128_max"
  shows "peg_step tick \<le> p \<and> (peg_step tick dvd p \<or> p = u128_max) \<and> (\<forall>x. bid = Some x \<longrightarrow> x < p) \<and>
    (\<exists>r. peg_reference ty bid ask mid lt = Some r \<and> (peg_target r off \<le> p \<or> p = u128_max))"
proof -
  obtain r where r: "peg_reference ty bid ask mid lt = Some r" using pegged_reference [OF assms(1)] by blast
  define c where "c = (case bid of Some x \<Rightarrow> max (peg_target r off) (sat_add128 x (peg_step tick)) | None \<Rightarrow> peg_target r off)"
  have p: "p = max (peg_ceiling tick c) (peg_step tick)" "\<forall>x. bid = Some x \<longrightarrow> x < p"
    using assms pegged_shape(2) [OF r] unfolding c_def by (auto simp: Let_def split: if_splits)
  have "peg_target r off \<le> c" unfolding c_def by (simp split: option.splits)
  then have "peg_target r off \<le> p \<or> p = u128_max" "peg_step tick dvd p \<or> p = u128_max"
    using p(1) peg_ceiling [of tick c] assms(2) by (auto simp: max_def)
  then show ?thesis using p r by auto
qed

text \<open>C33: a pegged re-price is passive against the touch it is given.  The new price is at least one
  tick and on the tick grid (a sell price that saturates apart), a buy price is strictly below the
  best ask and a sell price strictly above the best bid, and the price never goes past the requested
  reference plus offset towards the market.\<close>

theorem pegged_price_passive:
  assumes "calculate_pegged_price ty off s bid ask mid lt tick = Some p" "peg_step tick \<le> u128_max"
  shows "peg_step tick \<le> p \<and> (peg_step tick dvd p \<or> s = Sell \<and> p = u128_max) \<and>
    (case s of Buy \<Rightarrow> (\<forall>a. ask = Some a \<longrightarrow> p < a) | Sell \<Rightarrow> (\<forall>x. bid = Some x \<longrightarrow> x < p)) \<and>
    (\<exists>r. peg_reference ty bid ask mid lt = Some r \<and>
       (case s of Buy \<Rightarrow> p \<le> peg_target r off \<or> p = peg_step tick
        | Sell \<Rightarrow> peg_target r off \<le> p \<or> p = u128_max))"
  using assms(1) pegged_buy pegged_sell [OF _ assms(2)] by (cases s) auto

theorem pegged_price_passive_witness:
  "calculate_pegged_price BestAsk 7 Buy (Some 95) (Some 110) None None (Some 5) = Some 105 \<and>
   5 dvd (105 :: nat) \<and> (105 :: nat) < 110"
proof -
  have "calculate_pegged_price BestAsk 7 Buy (Some 95) (Some 110) None None (Some 5) = Some 105"
    "peg_step (Some 5) \<le> u128_max" by code_simp+
  then show ?thesis using pegged_price_passive [of BestAsk 7 Buy "Some 95" "Some 110" None None "Some 5" 105] by auto
qed

section \<open>The trailing stop\<close>

text \<open>C34: a trailing stop only ever moves with the market, never back.  A sell stop moves only when
  the market is above its reference, strictly up, and lies the trail amount below the market; a
  buy stop moves only when the market is below its reference, strictly down, and lies the trail
  amount above it.  At the new price the stop is not already triggered unless the trail is zero.\<close>

theorem trailing_stop_ratchets:
  assumes "calculate_trailing_stop_price s stop trail ref market = Some (stop', ref')"
  shows "ref' = market \<and>
    (case s of
       Sell \<Rightarrow> stop < stop' \<and> ref < market \<and> stop' = market - trail \<and> stop' \<le> market
     | Buy \<Rightarrow> stop' < stop \<and> market < ref \<and> stop' = min (market + trail) u128_max) \<and>
    calculate_trailing_stop_price s stop' trail market market = None \<and>
    (0 < trail \<and> trail \<le> market \<and> market + trail \<le> u128_max \<longrightarrow>
       \<not> should_trigger_trailing_stop (TrailingStop i stop' q s u ts tif trail market x) market)"
  using assms
  by (cases s) (auto simp: calculate_trailing_stop_price_def should_trigger_trailing_stop_def Let_def sat_sub_def
      sat_add128_def min_def split: if_splits)

theorem trailing_stop_ratchets_witness:
  "calculate_trailing_stop_price Sell 90 5 95 100 = Some (95, 100) \<and>
   calculate_trailing_stop_price Sell 95 5 100 100 = None"
proof -
  have "calculate_trailing_stop_price Sell 90 5 95 100 = Some (95, 100)" by code_simp
  from this trailing_stop_ratchets [OF this, THEN conjunct2, THEN conjunct2, THEN conjunct1] show ?thesis ..
qed

section \<open>The re-pricing loops\<close>

text \<open>The re-pricing order does not depend on how the tracked set is iterated.\<close>

lemma pegged_ids_deterministic:
  assumes "mset (pegged_orders t) = mset (pegged_orders t')" "inj_on to_str (set (pegged_orders t))"
  shows "pegged_order_ids to_str t = pegged_order_ids to_str t'"
  unfolding pegged_order_ids_def using assms
  by (intro sort_key_inj_key_eq) (auto dest: mset_eq_setD)

lemma mid_price_exact:
  assumes "x + y < 2 ^ 53"
  shows "mid_price_twice x y = x + y"
proof -
  have "f64_of_nat n = n" if "n < 2 ^ 53" for n
    using that by (simp add: f64_of_nat_def f64_shift.simps [of n] Let_def)
  then show ?thesis using assms by (simp add: mid_price_twice_def)
qed

lemma book_inv_special [simp]: "book_inv A ok (b\<lparr>special_order_tracker := t\<rparr>) = book_inv A ok b"
proof -
  have "quiet b (b\<lparr>special_order_tracker := t\<rparr>)" "quiet (b\<lparr>special_order_tracker := t\<rparr>) b"
    by (simp_all add: quiet_def cache_ok_def conf_of_def)
  then show ?thesis using quiet_book_inv by blast
qed

lemma apply_reprice_inv:
  assumes "price_levels A ok" "book_inv A ok b" "apply_reprice A d i p n fs b = (n', fs', b')"
  shows "book_inv A ok b'"
proof -
  obtain r b1 where u: "update_order A d b (UpdatePrice i p) = (r, b1)" by fastforce
  have "book_inv A ok b1" by (rule update_book_inv [OF assms(1,2) _ u]) (simp add: update_allowed_def)
  then show ?thesis using assms(3) u by (cases r) (auto simp: apply_reprice_def)
qed

lemma reprice_pegged_one_inv:
  assumes "price_levels A ok" "book_inv A ok b" "reprice_pegged_one A d refs i n fs b = (n', fs', b')"
  shows "book_inv A ok b'"
  using assms apply_reprice_inv [OF assms(1,2)]
  by (auto simp: reprice_pegged_one_def split: prod.splits option.splits order_type.splits if_splits)

lemma reprice_trailing_one_inv:
  assumes "price_levels A ok" "book_inv A ok b" "reprice_trailing_one A d i n fs b = (n', fs', b')"
  shows "book_inv A ok b'"
proof -
  have "book_inv A ok (snd (case s of Sell \<Rightarrow> best_bid b | Buy \<Rightarrow> best_ask b))" for s
    using quiet_book_inv [OF _ assms(2)] quiet_best_bid [of b] quiet_best_ask [of b] by (cases s) auto
  note inv = this [unfolded surjective_pairing]
  show ?thesis
  proof (cases "get_order A d b i")
    case (Some od)
    show ?thesis
    proof (cases od)
      case (TrailingStop j stop q s u ts tif trail ref x)
      obtain m b1 where m: "(case s of Sell \<Rightarrow> best_bid b | Buy \<Rightarrow> best_ask b) = (m, b1)" by fastforce
      have b1: "book_inv A ok b1" using inv [of s] m by simp
      show ?thesis
        using assms(3) Some TrailingStop m b1 apply_reprice_inv [OF assms(1) b1]
        by (auto simp: reprice_trailing_one_def split: option.splits)
    qed (use assms Some in \<open>simp_all add: reprice_trailing_one_def\<close>)
  qed (use assms in \<open>auto simp: reprice_trailing_one_def\<close>)
qed

lemma reprice_pegged_loop_inv:
  assumes "price_levels A ok" "book_inv A ok b" "reprice_pegged_loop A d refs is n fs b = (n', fs', b')"
  shows "book_inv A ok b'"
  using assms(2,3)
proof (induction "is" arbitrary: n fs b)
  case (Cons i "is")
  obtain n1 fs1 b1 where s: "reprice_pegged_one A d refs i n fs b = (n1, fs1, b1)" using prod_cases3 by blast
  from Cons.IH [OF reprice_pegged_one_inv [OF assms(1) Cons.prems(1) s]] Cons.prems(2) s show ?case by simp
qed simp

lemma reprice_trailing_loop_inv:
  assumes "price_levels A ok" "book_inv A ok b" "reprice_trailing_loop A d is n fs b = (n', fs', b')"
  shows "book_inv A ok b'"
  using assms(2,3)
proof (induction "is" arbitrary: n fs b)
  case (Cons i "is")
  obtain n1 fs1 b1 where s: "reprice_trailing_one A d i n fs b = (n1, fs1, b1)" using prod_cases3 by blast
  from Cons.IH [OF reprice_trailing_one_inv [OF assms(1) Cons.prems(1) s]] Cons.prems(2) s show ?case by simp
qed simp

lemma quiet_mid_price: "quiet b (snd (mid_price b))"
proof -
  obtain x b1 where 1: "best_bid b = (x, b1)" by fastforce
  obtain y b2 where 2: "best_ask b1 = (y, b2)" by fastforce
  have "quiet b b1" "quiet b1 b2" using quiet_best_bid [of b] quiet_best_ask [of b1] 1 2 by simp_all
  then show ?thesis using quiet_trans 1 2 by (simp add: mid_price_def)
qed

lemma reprice_pegged_inv:
  assumes "price_levels A ok" "book_inv A ok b" "reprice_pegged_collecting A d to_str fs b = (n', fs', b')"
  shows "book_inv A ok b'"
proof (cases "pegged_order_ids to_str (special_order_tracker b) = []")
  case False
  obtain x b1 where 1: "best_bid b = (x, b1)" by fastforce
  obtain y b2 where 2: "best_ask b1 = (y, b2)" by fastforce
  obtain z b3 where 3: "mid_price b2 = (z, b3)" by fastforce
  have "quiet b b1" "quiet b1 b2" "quiet b2 b3"
    using quiet_best_bid [of b] quiet_best_ask [of b1] quiet_mid_price [of b2] 1 2 3 by simp_all
  then have "book_inv A ok b3" using quiet_book_inv assms(2) by blast
  from reprice_pegged_loop_inv [OF assms(1) this] show ?thesis
    using assms(3) False 1 2 3 by (simp add: reprice_pegged_collecting_def)
qed (use assms in \<open>simp add: reprice_pegged_collecting_def\<close>)

lemma reprice_trailing_inv:
  assumes "price_levels A ok" "book_inv A ok b" "reprice_trailing_collecting A d to_str fs b = (n', fs', b')"
  shows "book_inv A ok b'"
  using assms reprice_trailing_loop_inv [OF assms(1,2)]
  by (auto simp: reprice_trailing_collecting_def Let_def split: if_splits)

lemma reprice_special_inv:
  assumes "price_levels A ok" "book_inv A ok b" "reprice_special_orders A d to_str b = (r, b')"
  shows "book_inv A ok b'"
proof -
  obtain n fs b1 where 1: "reprice_pegged_collecting A d to_str [] b = (n, fs, b1)" using prod_cases3 by blast
  obtain m gs b2 where 2: "reprice_trailing_collecting A d to_str fs b1 = (m, gs, b2)" using prod_cases3 by blast
  have "b' = b2" using assms(3) 1 2 by (simp add: reprice_special_orders_def)
  then show ?thesis using reprice_trailing_inv [OF assms(1) reprice_pegged_inv [OF assms(1,2) 1] 2] by simp
qed

section \<open>Two pegs can cross each other\<close>

text \<open>The touch is read once, before the loop.  A sell peg that moves down to the last trade price
  makes a new best ask; a buy peg that then moves up to the same price, below the old best ask,
  crosses it and trades.\<close>

definition two_pegs :: "(fifo_level, nat) book" where
  "two_pegs = (with_clock ''PEG'' stub_new 0)
     \<lparr>bids := [(80, \<lparr>fl_price = 80, fl_orders = [PeggedOrder 4 80 4 Buy 6 0 Gtc 0 peg_reference_type.LastTrade ()]\<rparr>)],
      asks := [(120, \<lparr>fl_price = 120, fl_orders = [PeggedOrder 3 120 4 Sell 9 0 Gtc 0 peg_reference_type.LastTrade ()]\<rparr>)],
      order_locations := [3 \<mapsto> (120, Sell), 4 \<mapsto> (80, Buy)],
      user_orders := [(9, [3]), (6, [4])], last_trade_price_cell := 100, has_traded := True,
      special_order_tracker := \<lparr>pegged_orders = [3, 4], trailing_stop_orders = []\<rparr>\<rparr>"


end
