(* ===== verification/Operations.thy ===== *)
theory Operations
  imports Order_Flow Mass_Cancel Repricing
begin

text \<open>
  The entry points of the book: limit, iceberg, post-only and market orders
  (\<open>src/orderbook/operations.rs\<close>) and the market and limit matching of \<open>src/orderbook/book.rs\<close>,
  all built on the order entry and matching of the earlier theories.  Then the steps of a book as one
  relation, and what holds in every book reachable from the empty one.
\<close>

section \<open>Matching with notification\<close>

text \<open>The trade count is recorded, and the trade listener is called with a sequence number, when the
  sweep printed trades.\<close>

definition notify_match ::
    "(order_book_error + match_result) \<times> ('l, 'g) book \<Rightarrow> (order_book_error + match_result) \<times> ('l, 'g) book" where
  "notify_match x =
     (case x of
        (Inl e, b) \<Rightarrow> (Inl e, b)
      | (Inr m, b) \<Rightarrow> (Inr m, snd (emit_trades b False m)))"

definition match_market_order_with_user ::
    "('l, 'g) pricelevel_api \<Rightarrow> ('l, 'g) book \<Rightarrow> ident \<Rightarrow> u64 \<Rightarrow> side \<Rightarrow> hash32 \<Rightarrow>
      (order_book_error + match_result) \<times> ('l, 'g) book" where
  "match_market_order_with_user A b order_id quantity s user_id =
     notify_match (match_order_with_user A b order_id s quantity None user_id)"

definition match_market_order ::
    "('l, 'g) pricelevel_api \<Rightarrow> ('l, 'g) book \<Rightarrow> ident \<Rightarrow> u64 \<Rightarrow> side \<Rightarrow>
      (order_book_error + match_result) \<times> ('l, 'g) book" where
  "match_market_order A b order_id quantity s = match_market_order_with_user A b order_id quantity s 0"

definition match_market_order_by_amount_with_user ::
    "('l, 'g) pricelevel_api \<Rightarrow> ('l, 'g) book \<Rightarrow> ident \<Rightarrow> u128 \<Rightarrow> side \<Rightarrow> hash32 \<Rightarrow>
      (order_book_error + match_result) \<times> ('l, 'g) book" where
  "match_market_order_by_amount_with_user A b order_id amount s user_id =
     notify_match (match_order_by_amount_with_user A b order_id s amount user_id)"

definition match_market_order_by_amount ::
    "('l, 'g) pricelevel_api \<Rightarrow> ('l, 'g) book \<Rightarrow> ident \<Rightarrow> u128 \<Rightarrow> side \<Rightarrow>
      (order_book_error + match_result) \<times> ('l, 'g) book" where
  "match_market_order_by_amount A b order_id amount s = match_market_order_by_amount_with_user A b order_id amount s 0"

definition match_limit_order_with_user ::
    "('l, 'g) pricelevel_api \<Rightarrow> ('l, 'g) book \<Rightarrow> ident \<Rightarrow> u64 \<Rightarrow> side \<Rightarrow> u128 \<Rightarrow> hash32 \<Rightarrow>
      (order_book_error + match_result) \<times> ('l, 'g) book" where
  "match_limit_order_with_user A b order_id quantity s limit_price user_id =
     notify_match (match_order_with_user A b order_id s quantity (Some limit_price) user_id)"

definition match_limit_order ::
    "('l, 'g) pricelevel_api \<Rightarrow> ('l, 'g) book \<Rightarrow> ident \<Rightarrow> u64 \<Rightarrow> side \<Rightarrow> u128 \<Rightarrow>
      (order_book_error + match_result) \<times> ('l, 'g) book" where
  "match_limit_order A b order_id quantity s limit_price =
     match_limit_order_with_user A b order_id quantity s limit_price 0"

section \<open>Submitting orders\<close>

text \<open>The kill switch comes first; then the clock is read for the order's timestamp.\<close>

definition gated ::
    "('l, 'g) book \<Rightarrow> ident \<Rightarrow> (('l, 'g) book \<Rightarrow> (order_book_error + 'r) \<times> ('l, 'g) book) \<Rightarrow>
      (order_book_error + 'r) \<times> ('l, 'g) book" where
  "gated b order_id k =
     (case check_kill_switch_or_reject b order_id of (Inl e, b1) \<Rightarrow> (Inl e, b1) | (Inr _, b1) \<Rightarrow> k b1)"

definition stamped ::
    "('l, 'g) book \<Rightarrow> (u64 \<Rightarrow> ('l, 'g) book \<Rightarrow> (order_book_error + 'r) \<times> ('l, 'g) book) \<Rightarrow>
      (order_book_error + 'r) \<times> ('l, 'g) book" where
  "stamped b k = (let (now, c) = now_millis (book_clock b) in k now (b\<lparr>book_clock := c\<rparr>))"

definition add_limit_order_with_user ::
    "('l, 'g) pricelevel_api \<Rightarrow> 'x \<Rightarrow> ('l, 'g) book \<Rightarrow> ident \<Rightarrow> u128 \<Rightarrow> u64 \<Rightarrow> side \<Rightarrow> time_in_force \<Rightarrow> hash32 \<Rightarrow> 'x option \<Rightarrow>
      (order_book_error + 'x order_type) \<times> ('l, 'g) book" where
  "add_limit_order_with_user A d b order_id price quantity s tif user_id extra =
     gated b order_id (\<lambda>b1. stamped b1 (\<lambda>now b2.
       add_order A d b2 (Standard order_id price quantity s user_id now tif (case extra of Some x \<Rightarrow> x | None \<Rightarrow> d))))"

definition add_limit_order ::
    "('l, 'g) pricelevel_api \<Rightarrow> 'x \<Rightarrow> ('l, 'g) book \<Rightarrow> ident \<Rightarrow> u128 \<Rightarrow> u64 \<Rightarrow> side \<Rightarrow> time_in_force \<Rightarrow> 'x option \<Rightarrow>
      (order_book_error + 'x order_type) \<times> ('l, 'g) book" where
  "add_limit_order A d b order_id price quantity s tif extra =
     add_limit_order_with_user A d b order_id price quantity s tif 0 extra"

definition add_limit_order_with_user_and_result ::
    "('l, 'g) pricelevel_api \<Rightarrow> 'x \<Rightarrow> ('l, 'g) book \<Rightarrow> ident \<Rightarrow> u128 \<Rightarrow> u64 \<Rightarrow> side \<Rightarrow> time_in_force \<Rightarrow> hash32 \<Rightarrow> 'x option \<Rightarrow>
      (order_book_error + 'x order_type \<times> trade_result option) \<times> ('l, 'g) book" where
  "add_limit_order_with_user_and_result A d b order_id price quantity s tif user_id extra =
     gated b order_id (\<lambda>b1. stamped b1 (\<lambda>now b2.
       add_order_with_result A d b2 (Standard order_id price quantity s user_id now tif (case extra of Some x \<Rightarrow> x | None \<Rightarrow> d))))"

definition add_limit_order_with_result ::
    "('l, 'g) pricelevel_api \<Rightarrow> 'x \<Rightarrow> ('l, 'g) book \<Rightarrow> ident \<Rightarrow> u128 \<Rightarrow> u64 \<Rightarrow> side \<Rightarrow> time_in_force \<Rightarrow> 'x option \<Rightarrow>
      (order_book_error + 'x order_type \<times> trade_result option) \<times> ('l, 'g) book" where
  "add_limit_order_with_result A d b order_id price quantity s tif extra =
     add_limit_order_with_user_and_result A d b order_id price quantity s tif 0 extra"

definition add_iceberg_order_with_user ::
    "('l, 'g) pricelevel_api \<Rightarrow> 'x \<Rightarrow> ('l, 'g) book \<Rightarrow> ident \<Rightarrow> u128 \<Rightarrow> u64 \<Rightarrow> u64 \<Rightarrow> side \<Rightarrow> time_in_force \<Rightarrow> hash32 \<Rightarrow> 'x option \<Rightarrow>
      (order_book_error + 'x order_type) \<times> ('l, 'g) book" where
  "add_iceberg_order_with_user A d b order_id price vis hid s tif user_id extra =
     gated b order_id (\<lambda>b1. stamped b1 (\<lambda>now b2.
       add_order A d b2 (IcebergOrder order_id price vis hid s user_id now tif (case extra of Some x \<Rightarrow> x | None \<Rightarrow> d))))"

definition add_iceberg_order ::
    "('l, 'g) pricelevel_api \<Rightarrow> 'x \<Rightarrow> ('l, 'g) book \<Rightarrow> ident \<Rightarrow> u128 \<Rightarrow> u64 \<Rightarrow> u64 \<Rightarrow> side \<Rightarrow> time_in_force \<Rightarrow> 'x option \<Rightarrow>
      (order_book_error + 'x order_type) \<times> ('l, 'g) book" where
  "add_iceberg_order A d b order_id price vis hid s tif extra =
     add_iceberg_order_with_user A d b order_id price vis hid s tif 0 extra"

definition add_post_only_order_with_user ::
    "('l, 'g) pricelevel_api \<Rightarrow> 'x \<Rightarrow> ('l, 'g) book \<Rightarrow> ident \<Rightarrow> u128 \<Rightarrow> u64 \<Rightarrow> side \<Rightarrow> time_in_force \<Rightarrow> hash32 \<Rightarrow> 'x option \<Rightarrow>
      (order_book_error + 'x order_type) \<times> ('l, 'g) book" where
  "add_post_only_order_with_user A d b order_id price quantity s tif user_id extra =
     gated b order_id (\<lambda>b1. stamped b1 (\<lambda>now b2.
       add_order A d b2 (PostOnly order_id price quantity s user_id now tif (case extra of Some x \<Rightarrow> x | None \<Rightarrow> d))))"

definition add_post_only_order ::
    "('l, 'g) pricelevel_api \<Rightarrow> 'x \<Rightarrow> ('l, 'g) book \<Rightarrow> ident \<Rightarrow> u128 \<Rightarrow> u64 \<Rightarrow> side \<Rightarrow> time_in_force \<Rightarrow> 'x option \<Rightarrow>
      (order_book_error + 'x order_type) \<times> ('l, 'g) book" where
  "add_post_only_order A d b order_id price quantity s tif extra =
     add_post_only_order_with_user A d b order_id price quantity s tif 0 extra"

definition submit_market_order ::
    "('l, 'g) pricelevel_api \<Rightarrow> ('l, 'g) book \<Rightarrow> ident \<Rightarrow> u64 \<Rightarrow> side \<Rightarrow>
      (order_book_error + match_result) \<times> ('l, 'g) book" where
  "submit_market_order A b order_id quantity s =
     gated b order_id (\<lambda>b1.
       case check_market_admission (risk_state b1) 0 of
         Inl e \<Rightarrow> (Inl e, b1)
       | Inr _ \<Rightarrow> match_market_order A b1 order_id quantity s)"

definition submit_market_order_with_user ::
    "('l, 'g) pricelevel_api \<Rightarrow> ('l, 'g) book \<Rightarrow> ident \<Rightarrow> u64 \<Rightarrow> side \<Rightarrow> hash32 \<Rightarrow>
      (order_book_error + match_result) \<times> ('l, 'g) book" where
  "submit_market_order_with_user A b order_id quantity s user_id =
     gated b order_id (\<lambda>b1.
       case check_market_admission (risk_state b1) user_id of
         Inl e \<Rightarrow> (Inl e, b1)
       | Inr _ \<Rightarrow> match_market_order_with_user A b1 order_id quantity s user_id)"

definition submit_market_order_by_amount ::
    "('l, 'g) pricelevel_api \<Rightarrow> ('l, 'g) book \<Rightarrow> ident \<Rightarrow> u128 \<Rightarrow> side \<Rightarrow>
      (order_book_error + match_result) \<times> ('l, 'g) book" where
  "submit_market_order_by_amount A b order_id amount s =
     gated b order_id (\<lambda>b1.
       case check_market_admission (risk_state b1) 0 of
         Inl e \<Rightarrow> (Inl e, b1)
       | Inr _ \<Rightarrow> match_market_order_by_amount A b1 order_id amount s)"

definition submit_market_order_by_amount_with_user ::
    "('l, 'g) pricelevel_api \<Rightarrow> ('l, 'g) book \<Rightarrow> ident \<Rightarrow> u128 \<Rightarrow> side \<Rightarrow> hash32 \<Rightarrow>
      (order_book_error + match_result) \<times> ('l, 'g) book" where
  "submit_market_order_by_amount_with_user A b order_id amount s user_id =
     gated b order_id (\<lambda>b1.
       case check_market_admission (risk_state b1) user_id of
         Inl e \<Rightarrow> (Inl e, b1)
       | Inr _ \<Rightarrow> match_market_order_by_amount_with_user A b1 order_id amount s user_id)"

section \<open>The invariant through the entry points\<close>

lemma notify_match_inv: "book_inv A ok (snd x) \<Longrightarrow> book_inv A ok (snd (notify_match x))"
  using quiet_book_inv [OF quiet_emit_trades] by (cases x; cases "fst x") (auto simp: notify_match_def)

lemma outcome_result_snd [simp]: "snd (outcome_result x) = snd x"
  by (cases x; cases "fst x") (auto simp: outcome_result_def)

lemma match_inv: "price_levels A ok \<Longrightarrow> book_inv A ok b \<Longrightarrow> book_inv A ok (snd (match_order_inner A b i s mode u kind))"
  using match_book_inv by (metis surjective_pairing)

lemma matching_inv:
  assumes "price_levels A ok" "book_inv A ok b"
  shows "book_inv A ok (snd (match_market_order_with_user A b i q s u))"
    "book_inv A ok (snd (match_market_order_by_amount_with_user A b i a s u))"
    "book_inv A ok (snd (match_limit_order_with_user A b i q s p u))"
  unfolding match_market_order_with_user_def match_market_order_by_amount_with_user_def match_limit_order_with_user_def
    match_order_with_user_def match_order_by_amount_with_user_def match_order_with_user_outcome_def
  by (rule notify_match_inv, simp add: match_inv [OF assms])+

lemma add_order_inv:
  assumes "price_levels A ok" "book_inv A ok b"
  shows "book_inv A ok (snd (add_order A d b od))" "book_inv A ok (snd (add_order_with_result A d b od))"
proof -
  have i: "book_inv A ok (snd (add_order_inner A d b od w))" for w
    using add_book_inv [OF assms] by (metis surjective_pairing)
  show "book_inv A ok (snd (add_order_with_result A d b od))" using i by (simp add: add_order_with_result_def)
  show "book_inv A ok (snd (add_order A d b od))"
    using i [of False] by (auto simp: add_order_def split: prod.splits sum.splits)
qed

lemma gated_inv:
  assumes "book_inv A ok b" "\<And>b1. book_inv A ok b1 \<Longrightarrow> book_inv A ok (snd (k b1))"
  shows "book_inv A ok (snd (gated b i k))"
proof -
  obtain r b1 where c: "check_kill_switch_or_reject b i = (r, b1)" by fastforce
  have "book_inv A ok b1" using quiet_book_inv [OF quiet_kill_switch assms(1), of i] c by simp
  then show ?thesis using c assms(2) by (cases r) (simp_all add: gated_def)
qed

lemma book_inv_clock [simp]: "book_inv A ok (b\<lparr>book_clock := c\<rparr>) = book_inv A ok b"
proof -
  have "quiet b (b\<lparr>book_clock := c\<rparr>)" "quiet (b\<lparr>book_clock := c\<rparr>) b" by (simp_all add: quiet_def cache_ok_def conf_of_def)
  then show ?thesis using quiet_book_inv by blast
qed

lemma stamped_inv:
  assumes "book_inv A ok b" "\<And>n b1. book_inv A ok b1 \<Longrightarrow> book_inv A ok (snd (k n b1))"
  shows "book_inv A ok (snd (stamped b k))"
  using assms by (auto simp: stamped_def split: prod.splits)

lemmas entry_defs = add_limit_order_with_user_def add_limit_order_def add_limit_order_with_user_and_result_def
  add_limit_order_with_result_def add_iceberg_order_with_user_def add_iceberg_order_def
  add_post_only_order_with_user_def add_post_only_order_def

lemma entry_inv:
  assumes "price_levels A ok" "book_inv A ok b"
  shows "book_inv A ok (snd (add_limit_order_with_user A d b i p q s tif u x))"
    "book_inv A ok (snd (add_limit_order_with_user_and_result A d b i p q s tif u x))"
    "book_inv A ok (snd (add_iceberg_order_with_user A d b i p v h s tif u x))"
    "book_inv A ok (snd (add_post_only_order_with_user A d b i p q s tif u x))"
  unfolding entry_defs by (intro gated_inv stamped_inv add_order_inv assms; assumption)+

lemma submit_inv:
  assumes "price_levels A ok" "book_inv A ok b"
  shows "book_inv A ok (snd (submit_market_order_with_user A b i q s u))"
    "book_inv A ok (snd (submit_market_order_by_amount_with_user A b i a s u))"
  unfolding submit_market_order_with_user_def submit_market_order_by_amount_with_user_def
  by (intro gated_inv assms, simp add: check_market_admission_def matching_inv [OF assms(1)])+






section \<open>The steps of a book\<close>

text \<open>Every operation of the book as a step, in any order and with any arguments.  The wrappers without
  a user are the ones with user zero.  A quantity update must be for a positive quantity: what the
  level does with zero is not documented.\<close>

inductive book_step ::
    "('l, 'g) pricelevel_api \<Rightarrow> 'x \<Rightarrow> (ident \<Rightarrow> string) \<Rightarrow> ('l, 'g) book \<Rightarrow> ('l, 'g) book \<Rightarrow> bool"
  for A :: "('l, 'g) pricelevel_api" and d :: 'x and to_str :: "ident \<Rightarrow> string" where
  step_add: "book_step A d to_str b (snd (add_order A d b od))"
| step_add_with_result: "book_step A d to_str b (snd (add_order_with_result A d b od))"
| step_limit: "book_step A d to_str b (snd (add_limit_order_with_user A d b i p q s tif u x))"
| step_limit_with_result: "book_step A d to_str b (snd (add_limit_order_with_user_and_result A d b i p q s tif u x))"
| step_iceberg: "book_step A d to_str b (snd (add_iceberg_order_with_user A d b i p v h s tif u x))"
| step_post_only: "book_step A d to_str b (snd (add_post_only_order_with_user A d b i p q s tif u x))"
| step_market: "book_step A d to_str b (snd (match_market_order_with_user A b i q s u))"
| step_market_amount: "book_step A d to_str b (snd (match_market_order_by_amount_with_user A b i a s u))"
| step_match_limit: "book_step A d to_str b (snd (match_limit_order_with_user A b i q s p u))"
| step_submit: "book_step A d to_str b (snd (submit_market_order_with_user A b i q s u))"
| step_submit_amount: "book_step A d to_str b (snd (submit_market_order_by_amount_with_user A b i a s u))"
| step_cancel: "book_step A d to_str b (snd (cancel_order A d b i))"
| step_update: "update_allowed upd \<Longrightarrow> book_step A d to_str b (snd (update_order A d b upd))"
| step_cancel_all: "book_step A d to_str b (snd (cancel_all_orders A b))"
| step_cancel_side: "book_step A d to_str b (snd (cancel_orders_by_side A d b s))"
| step_cancel_user: "book_step A d to_str b (snd (cancel_orders_by_user A d b u))"
| step_cancel_range: "book_step A d to_str b (snd (cancel_orders_by_price_range A d b s p p'))"
| step_evict: "book_step A d to_str b (snd (evict_expired_orders A d b now))"
| step_reprice: "book_step A d to_str b (snd (reprice_special_orders A d to_str b))"
| step_reprice_pegged: "book_step A d to_str b (snd (reprice_pegged_orders A d to_str b))"
| step_reprice_trailing: "book_step A d to_str b (snd (reprice_trailing_stops A d to_str b))"
| step_read_bid: "book_step A d to_str b (snd (best_bid b))"
| step_read_ask: "book_step A d to_str b (snd (best_ask b))"
| step_read_mid: "book_step A d to_str b (snd (mid_price b))"
| step_purge: "book_step A d to_str b (snd (purge_terminal_states b p))"
| step_kill: "book_step A d to_str b (engage_kill_switch b)"
| step_release: "book_step A d to_str b (release_kill_switch b)"
| step_risk: "book_step A d to_str b (set_risk_config b cfg)"
| step_risk_off: "book_step A d to_str b (disable_risk b)"
| step_tick: "book_step A d to_str b (set_tick_size b p)"
| step_lot: "book_step A d to_str b (set_lot_size b q)"
| step_min_size: "book_step A d to_str b (set_min_order_size b q)"
| step_max_size: "book_step A d to_str b (set_max_order_size b q)"
| step_stp: "book_step A d to_str b (set_stp_mode b m)"
| step_fees: "book_step A d to_str b (set_fee_schedule b f)"
| step_tracker: "book_step A d to_str b (set_order_state_tracker b t)"
| step_close: "book_step A d to_str b (set_market_close_timestamp b q)"
| step_clear_close: "book_step A d to_str b (clear_market_close_timestamp b)"
| step_clock: "book_step A d to_str b (set_clock b c)"
| step_listen: "book_step A d to_str b (set_trade_listener b)"
| step_unlisten: "book_step A d to_str b (remove_trade_listener b)"
| step_listen_levels: "book_step A d to_str b (set_price_level_listener b)"
| step_unlisten_levels: "book_step A d to_str b (remove_price_level_listener b)"

lemma new_book_inv: "book_inv A ok (with_clock sy c g)"
proof -
  let ?b = "with_clock sy c g :: ('a, 'b) book"
  have "cache_ok ?b"
    by (simp add: cache_ok_def with_clock_def cache_new_def get_cached_best_bid_def get_cached_best_ask_def)
  moreover have lv: "levels ?b s = []" for s by (cases s) (simp_all add: with_clock_def)
  moreover have "resting A ?b = {}" using lv by (auto simp: resting_def)
  moreover have "order_locations ?b = (\<lambda>_. None)" "user_orders ?b = []" by (simp_all add: with_clock_def)
  ultimately show ?thesis by (simp add: book_inv_def levels_wf_def no_empty_def loc_idx_empty usr_idx_empty)
qed

lemma settings_inv:
  assumes "book_inv A ok b" "bids b' = bids b" "asks b' = asks b" "order_locations b' = order_locations b"
    "user_orders b' = user_orders b" "cache b' = cache b"
  shows "book_inv A ok b'"
proof -
  have "cache_ok b'" using assms by (simp add: book_inv_def cache_ok_def)
  from book_inv_cong [OF levels_cong [OF assms(2,3)] assms(4,5) this assms(1)] show ?thesis .
qed

lemma cancel_all_inv:
  assumes "price_levels A ok" "book_inv A ok b"
  shows "book_inv A ok (snd (cancel_all_orders A b))"
proof (cases "collect_ids A (bids b) @ collect_ids A (asks b) = []")
  case True
  then have "snd (cancel_all_orders A b) = invalidate_cache b" by (simp add: cancel_all_orders_def sm_iter_def Let_def)
  then show ?thesis using book_inv_frames(7) [OF assms(2)] by simp
next
  case False
  show ?thesis
    by (rule empty_book_inv(1) [where c = "cache b"]) (use False in \<open>auto simp: cancel_all_orders_def sm_iter_def Let_def\<close>)
qed

lemma mass_cancel_inv:
  assumes "price_levels A ok" "book_inv A ok b"
  shows "book_inv A ok (snd (cancel_orders_by_side A d b s))" "book_inv A ok (snd (cancel_orders_by_user A d b u))"
    "book_inv A ok (snd (cancel_orders_by_price_range A d b s p p'))" "book_inv A ok (snd (evict_expired_orders A d b now))"
proof -
  have b: "book_inv A ok (snd (cancel_order_batch_with_reason A d b is r))" for "is" r
    by (rule batch_inv(1) [OF assms surjective_pairing])
  show "book_inv A ok (snd (cancel_orders_by_side A d b s))" "book_inv A ok (snd (cancel_orders_by_user A d b u))"
    "book_inv A ok (snd (cancel_orders_by_price_range A d b s p p'))"
    using b assms(2) by (simp_all add: cancel_orders_by_side_def by_user_is_batch [OF assms] cancel_orders_by_price_range_def)
  show "book_inv A ok (snd (evict_expired_orders A d b now))" by (rule evict_spec(1) [OF assms surjective_pairing])
qed

lemma reprice_inv:
  assumes "price_levels A ok" "book_inv A ok b"
  shows "book_inv A ok (snd (reprice_special_orders A d to_str b))" "book_inv A ok (snd (reprice_pegged_orders A d to_str b))"
    "book_inv A ok (snd (reprice_trailing_stops A d to_str b))"
proof -
  show "book_inv A ok (snd (reprice_special_orders A d to_str b))"
    by (rule reprice_special_inv [OF assms surjective_pairing])
  show "book_inv A ok (snd (reprice_pegged_orders A d to_str b))"
    using reprice_pegged_inv [OF assms] by (auto simp: reprice_pegged_orders_def split: prod.splits)
  show "book_inv A ok (snd (reprice_trailing_stops A d to_str b))"
    using reprice_trailing_inv [OF assms] by (auto simp: reprice_trailing_stops_def split: prod.splits)
qed

lemma book_step_inv:
  assumes "price_levels A ok" "book_step A d to_str b b'" "book_inv A ok b"
  shows "book_inv A ok b'"
  using assms(2)
proof cases
  case (step_update upd)
  then show ?thesis using update_book_inv [OF assms(1,3) _ surjective_pairing] by simp
next
  case (step_cancel i)
  then show ?thesis
    using cancel_book_inv [OF assms(1,3) surjective_pairing, of d i UserRequested] by (simp add: cancel_order_def)
next
  case (step_purge p)
  then show ?thesis
    by (auto intro!: settings_inv [OF assms(3)] simp: purge_terminal_states_def split: option.splits prod.splits)
next
  case step_add
  then show ?thesis by (simp add: add_order_inv [OF assms(1,3)])
next
  case step_add_with_result
  then show ?thesis by (simp add: add_order_inv [OF assms(1,3)])
next
  case step_limit
  then show ?thesis by (simp add: entry_inv [OF assms(1,3)])
next
  case step_limit_with_result
  then show ?thesis by (simp add: entry_inv [OF assms(1,3)])
next
  case step_iceberg
  then show ?thesis by (simp add: entry_inv [OF assms(1,3)])
next
  case step_post_only
  then show ?thesis by (simp add: entry_inv [OF assms(1,3)])
next
  case step_market
  then show ?thesis by (simp add: matching_inv [OF assms(1,3)])
next
  case step_market_amount
  then show ?thesis by (simp add: matching_inv [OF assms(1,3)])
next
  case step_match_limit
  then show ?thesis by (simp add: matching_inv [OF assms(1,3)])
next
  case step_submit
  then show ?thesis by (simp add: submit_inv [OF assms(1,3)])
next
  case step_submit_amount
  then show ?thesis by (simp add: submit_inv [OF assms(1,3)])
next
  case step_cancel_all
  then show ?thesis by (simp add: cancel_all_inv [OF assms(1,3)])
next
  case step_cancel_side
  then show ?thesis by (simp add: mass_cancel_inv [OF assms(1,3)])
next
  case step_cancel_user
  then show ?thesis by (simp add: mass_cancel_inv [OF assms(1,3)])
next
  case step_cancel_range
  then show ?thesis by (simp add: mass_cancel_inv [OF assms(1,3)])
next
  case step_evict
  then show ?thesis by (simp add: mass_cancel_inv [OF assms(1,3)])
next
  case step_reprice
  then show ?thesis by (simp add: reprice_inv [OF assms(1,3)])
next
  case step_reprice_pegged
  then show ?thesis by (simp add: reprice_inv [OF assms(1,3)])
next
  case step_reprice_trailing
  then show ?thesis by (simp add: reprice_inv [OF assms(1,3)])
next
  case step_read_bid
  then show ?thesis using quiet_book_inv [OF quiet_best_bid assms(3)] by simp
next
  case step_read_ask
  then show ?thesis using quiet_book_inv [OF quiet_best_ask assms(3)] by simp
next
  case step_read_mid
  then show ?thesis using quiet_book_inv [OF quiet_mid_price assms(3)] by simp
next
  case step_kill
  then show ?thesis by (intro settings_inv [OF assms(3)]) (simp_all add: engage_kill_switch_def)
next
  case step_release
  then show ?thesis by (intro settings_inv [OF assms(3)]) (simp_all add: release_kill_switch_def)
next
  case step_risk
  then show ?thesis by (intro settings_inv [OF assms(3)]) (simp_all add: set_risk_config_def)
next
  case step_risk_off
  then show ?thesis by (intro settings_inv [OF assms(3)]) (simp_all add: disable_risk_def)
next
  case step_tick
  then show ?thesis by (intro settings_inv [OF assms(3)]) (simp_all add: set_tick_size_def)
next
  case step_lot
  then show ?thesis by (intro settings_inv [OF assms(3)]) (simp_all add: set_lot_size_def)
next
  case step_min_size
  then show ?thesis by (intro settings_inv [OF assms(3)]) (simp_all add: set_min_order_size_def)
next
  case step_max_size
  then show ?thesis by (intro settings_inv [OF assms(3)]) (simp_all add: set_max_order_size_def)
next
  case step_stp
  then show ?thesis by (intro settings_inv [OF assms(3)]) (simp_all add: set_stp_mode_def)
next
  case step_fees
  then show ?thesis by (intro settings_inv [OF assms(3)]) (simp_all add: set_fee_schedule_def)
next
  case step_tracker
  then show ?thesis by (intro settings_inv [OF assms(3)]) (simp_all add: set_order_state_tracker_def)
next
  case step_close
  then show ?thesis by (intro settings_inv [OF assms(3)]) (simp_all add: set_market_close_timestamp_def)
next
  case step_clear_close
  then show ?thesis by (intro settings_inv [OF assms(3)]) (simp_all add: clear_market_close_timestamp_def)
next
  case step_clock
  then show ?thesis by (intro settings_inv [OF assms(3)]) (simp_all add: set_clock_def)
next
  case step_listen
  then show ?thesis by (intro settings_inv [OF assms(3)]) (simp_all add: set_trade_listener_def)
next
  case step_unlisten
  then show ?thesis by (intro settings_inv [OF assms(3)]) (simp_all add: remove_trade_listener_def)
next
  case step_listen_levels
  then show ?thesis by (intro settings_inv [OF assms(3)]) (simp_all add: set_price_level_listener_def)
next
  case step_unlisten_levels
  then show ?thesis by (intro settings_inv [OF assms(3)]) (simp_all add: remove_price_level_listener_def)
qed

lemma reachable_inv:
  assumes "price_levels A ok" "(book_step A d to_str)\<^sup>*\<^sup>* (with_clock sy c g) b"
  shows "book_inv A ok b"
  using assms(2)
proof (induction rule: rtranclp_induct)
  case base
  show ?case by (rule new_book_inv)
next
  case (step y z)
  show ?case by (rule book_step_inv [OF assms(1) step(2,3)])
qed

lemma level_keys_resting:
  assumes "book_inv A ok b"
  shows "fst ` set (levels b s) = {p. \<exists>i u. (i, u, p, s) \<in> resting A b}"
proof -
  have wf: "levels_wf A ok b" and ne: "no_empty A b" using assms by (simp_all add: book_inv_def)
  have "\<exists>i u. (i, u, p, s) \<in> resting A b" if "(p, l) \<in> set (levels b s)" for p l
  proof -
    have g: "sm_get (levels b s) p = Some l" using that sm_get_mem [OF levels_wfD(1) [OF wf]] by blast
    then have "snapshot_by_seq A l \<noteq> []" using ne unfolding no_empty_def by blast
    then have "hd (snapshot_by_seq A l) \<in> orders_in A b s p" using g by (simp add: orders_in_def)
    then show ?thesis using orders_in_resting by blast
  qed
  moreover have "\<exists>l. (p, l) \<in> set (levels b s)" if "(i, u, p, s) \<in> resting A b" for i u p
    by (rule resting_level [OF wf that])
  ultimately show ?thesis by force
qed

lemma le_last: "sorted xs \<Longrightarrow> k \<in> set xs \<Longrightarrow> k \<le> last xs"
  by (induction xs) auto

lemma sorted_extremes:
  assumes "sm_invar m" "m \<noteq> []"
  shows "fst (last m) = Max (fst ` set m)" "fst (hd m) = Min (fst ` set m)"
proof -
  have d: "sorted (map fst m)" using assms(1) by (simp add: sm_invar_def strict_sorted_imp_sorted)
  let ?ks = "map fst m"
  have "k \<le> last ?ks" if "k \<in> set ?ks" for k
    by (rule le_last [OF d that])
  moreover have "hd ?ks \<le> k" if "k \<in> set ?ks" for k
    using d that by (cases ?ks) auto
  ultimately have "Max (set ?ks) = last ?ks" "Min (set ?ks) = hd ?ks"
    using assms(2) by (auto intro!: Max_eqI Min_eqI simp: last_map hd_map)
  then show "fst (last m) = Max (fst ` set m)" "fst (hd m) = Min (fst ` set m)"
    using assms(2) by (simp_all add: last_map hd_map)
qed



end
