(* ===== verification/Wire_Bytes.thy ===== *)
theory Wire_Bytes
  imports Prelude "HOL-Library.Word"
begin

text \<open>
  Little-endian integers on the wire: \<open>to_le_bytes\<close> and \<open>from_le_bytes\<close> of the fixed-width
  integers, as the frames and messages of \<open>src/wire\<close> use them.  Bytes are \<^typ>\<open>8 word\<close>, a \<open>u64\<close>
  or \<open>i64\<close> field is a \<^typ>\<open>64 word\<close>; a signed reading is \<open>sint\<close>.
\<close>

unbundle bit_operations_syntax

type_synonym byte = "8 word"
type_synonym bytes = "8 word list"

definition to_le_bytes :: "nat \<Rightarrow> 'a::len word \<Rightarrow> bytes" where
  "to_le_bytes n w = map (\<lambda>k. ucast (drop_bit (8 * k) w)) [0..<n]"

fun from_le_bytes :: "bytes \<Rightarrow> 'a::len word" where
  "from_le_bytes [] = 0"
| "from_le_bytes (x # xs) = ucast x OR push_bit 8 (from_le_bytes xs)"

lemma to_le_bytes_length [simp]: "length (to_le_bytes n w) = n"
  by (simp add: to_le_bytes_def)

lemma bit_from_le_bytes:
  "bit (from_le_bytes xs :: 'a::len word) k \<longleftrightarrow> k < LENGTH('a) \<and> k div 8 < length xs \<and> bit (xs ! (k div 8)) (k mod 8)"
proof (induction xs arbitrary: k)
  case (Cons x xs)
  show ?case
  proof (cases "k < 8")
    case True
    then show ?thesis using Cons [of k] by (auto simp: bit_or_iff bit_ucast_iff bit_push_bit_iff dest: bit_imp_le_length)
  next
    case False
    then have "k div 8 = Suc ((k - 8) div 8)" "(k - 8) mod 8 = k mod 8" by (simp_all add: le_div_geq le_mod_geq)
    moreover have "\<not> bit x k" using False by (simp add: bit_word.rep_eq)
    ultimately show ?thesis
      using Cons.IH [of "k - 8"] False by (auto simp: bit_or_iff bit_ucast_iff bit_push_bit_iff)
  qed
qed simp

lemma from_to_le_bytes:
  fixes w :: "'a::len word"
  assumes "LENGTH('a) = 8 * n"
  shows "from_le_bytes (to_le_bytes n w) = w"
proof (rule bit_word_eqI)
  fix k assume "k < LENGTH('a)"
  moreover from this assms have "k div 8 < n" by auto
  moreover have "k mod 8 + 8 * (k div 8) = k" "k mod 8 < LENGTH(8)" by simp_all
  ultimately show "bit (from_le_bytes (to_le_bytes n w) :: 'a word) k = bit w k"
    by (simp add: bit_from_le_bytes to_le_bytes_def bit_ucast_iff bit_drop_bit_eq add.commute)
qed

lemma to_from_le_bytes:
  assumes "LENGTH('a) = 8 * n" "length xs = n"
  shows "to_le_bytes n (from_le_bytes xs :: 'a::len word) = xs"
proof (rule nth_equalityI)
  fix j assume "j < length (to_le_bytes n (from_le_bytes xs :: 'a word))"
  then have j: "j < n" by simp
  show "to_le_bytes n (from_le_bytes xs :: 'a word) ! j = xs ! j"
  proof (rule bit_word_eqI)
    fix k assume k: "k < LENGTH(8)"
    then have "(8 * j + k) div 8 = j" "(8 * j + k) mod 8 = k" by simp_all
    moreover have "8 * j + k < LENGTH('a)" using j k assms(1) by simp
    ultimately show "bit (to_le_bytes n (from_le_bytes xs :: 'a word) ! j) k = bit (xs ! j) k"
      using j k assms(2) by (simp add: to_le_bytes_def bit_ucast_iff bit_drop_bit_eq bit_from_le_bytes)
  qed
qed (simp add: assms)

lemmas le64 [simp] = from_to_le_bytes [where 'a = 64 and n = 8, simplified]
lemmas le32 [simp] = from_to_le_bytes [where 'a = 32 and n = 4, simplified]
lemmas le16 [simp] = from_to_le_bytes [where 'a = 16 and n = 2, simplified]
lemmas le64_inv [simp] = to_from_le_bytes [where 'a = 64 and n = 8, simplified]
lemmas le32_inv [simp] = to_from_le_bytes [where 'a = 32 and n = 4, simplified]
lemmas le16_inv [simp] = to_from_le_bytes [where 'a = 16 and n = 2, simplified]

section \<open>Slices\<close>

text \<open>\<open>slice.get(a..b)\<close>: the elements from \<open>a\<close> up to \<open>b\<close>, or nothing when the range is not inside
  the slice.\<close>

definition get_slice :: "nat \<Rightarrow> nat \<Rightarrow> 'a list \<Rightarrow> 'a list option" where
  "get_slice a e xs = (if a \<le> e \<and> e \<le> length xs then Some (take (e - a) (drop a xs)) else None)"

definition get_at :: "nat \<Rightarrow> 'a list \<Rightarrow> 'a option" where
  "get_at k xs = (if k < length xs then Some (xs ! k) else None)"

lemma cut: "n \<le> length xs \<Longrightarrow> \<exists>as zs. xs = as @ zs \<and> length as = n \<and> length zs = length xs - n"
  by (metis append_take_drop_id length_drop length_take min.absorb2)

lemma cut_one: "0 < length xs \<Longrightarrow> \<exists>x zs. xs = x # zs \<and> length zs = length xs - 1"
  by (cases xs) auto

section \<open>Results\<close>

text \<open>The \<open>?\<close> operator: go on with the value, return the error.\<close>

definition and_then :: "'e + 'a \<Rightarrow> ('a \<Rightarrow> 'e + 'b) \<Rightarrow> 'e + 'b" where
  "and_then r f = (case r of Inl e \<Rightarrow> Inl e | Inr x \<Rightarrow> f x)"

lemma and_then_simps [simp]: "and_then (Inl e) f = Inl e" "and_then (Inr x) f = f x"
  by (simp_all add: and_then_def)

lemma and_then_Inr_iff: "and_then r f = Inr y \<longleftrightarrow> (\<exists>x. r = Inr x \<and> f x = Inr y)"
  by (cases r) auto

end
