(* ===== verification/Snapshot.thy ===== *)
theory Snapshot
  imports Operations Wire_Bytes
begin

text \<open>
  Snapshots of the book, \<open>src/orderbook/snapshot.rs\<close>, and taking and restoring them,
  \<open>src/orderbook/book.rs\<close>.  The snapshot of one price level and its validation belong to the
  \<open>pricelevel\<close> crate: they are the parameter \<open>S\<close>, with the locale \<open>level_snapshots\<close>.  JSON and SHA-256
  are the parameter \<open>J\<close>; nothing is assumed about them.
\<close>

section \<open>Data\<close>

text \<open>The deterministic statistics of a level.\<close>

record level_statistics =
  orders_added :: usize
  orders_removed :: usize
  orders_executed :: usize
  quantity_executed :: u64
  value_executed :: u128
  stats_degraded :: bool

record ('l, 's) snapshot_api =
  level_snapshot :: "'l \<Rightarrow> 's"
  from_snapshot :: "'s \<Rightarrow> pl_error + 'l"
  sn_refresh :: "'s \<Rightarrow> 's"
  sn_price :: "'s \<Rightarrow> u128"
  sn_visible :: "'s \<Rightarrow> u64"
  sn_hidden :: "'s \<Rightarrow> u64"
  sn_count :: "'s \<Rightarrow> usize"
  sn_orders :: "'s \<Rightarrow> unit_order list"
  sn_statistics :: "'s \<Rightarrow> level_statistics"

record 's order_book_snapshot =
  snap_symbol :: string
  snap_timestamp :: u64
  snap_bids :: "'s list"
  snap_asks :: "'s list"

definition refresh_aggregates :: "('l, 's) snapshot_api \<Rightarrow> 's order_book_snapshot \<Rightarrow> 's order_book_snapshot" where
  "refresh_aggregates S sn =
     sn\<lparr>snap_bids := map (sn_refresh S) (snap_bids sn), snap_asks := map (sn_refresh S) (snap_asks sn)\<rparr>"

text \<open>\<open>max_by_key\<close> returns the last of the greatest elements, \<open>min_by_key\<close> the first of the least.\<close>

fun max_by_price :: "(u128 \<times> u64) list \<Rightarrow> (u128 \<times> u64) option" where
  "max_by_price [] = None"
| "max_by_price (x # xs) = Some (foldl (\<lambda>m y. if fst m \<le> fst y then y else m) x xs)"

fun min_by_price :: "(u128 \<times> u64) list \<Rightarrow> (u128 \<times> u64) option" where
  "min_by_price [] = None"
| "min_by_price (x # xs) = Some (foldl (\<lambda>m y. if fst y < fst m then y else m) x xs)"

definition snap_best_bid :: "('l, 's) snapshot_api \<Rightarrow> 's order_book_snapshot \<Rightarrow> (u128 \<times> u64) option" where
  "snap_best_bid S sn = max_by_price (map (\<lambda>l. (sn_price S l, sn_visible S l)) (snap_bids sn))"

definition snap_best_ask :: "('l, 's) snapshot_api \<Rightarrow> 's order_book_snapshot \<Rightarrow> (u128 \<times> u64) option" where
  "snap_best_ask S sn = min_by_price (map (\<lambda>l. (sn_price S l, sn_visible S l)) (snap_asks sn))"

definition snap_spread :: "('l, 's) snapshot_api \<Rightarrow> 's order_book_snapshot \<Rightarrow> u128 option" where
  "snap_spread S sn =
     (case (snap_best_bid S sn, snap_best_ask S sn) of
        (Some (bid, _), Some (ask, _)) \<Rightarrow> Some (sat_sub ask bid)
      | _ \<Rightarrow> None)"

section \<open>Packages\<close>

definition format_version :: u32 where
  "format_version = 3"

definition min_read_version :: u32 where
  "min_read_version = 2"

record 's snapshot_package =
  version :: u32
  snapshot :: "'s order_book_snapshot"
  checksum :: string
  pk_fee_schedule :: "fee_schedule option"
  pk_stp_mode :: stp_mode
  pk_tick_size :: "u128 option"
  pk_lot_size :: "u64 option"
  pk_min_order_size :: "u64 option"
  pk_max_order_size :: "u64 option"
  pk_engine_seq :: u64
  kill_switch_engaged :: bool
  pk_risk_config :: "risk_config option"
  pk_market_close_timestamp :: u64
  pk_has_market_close :: bool

record 's snapshot_codec =
  json_vec :: "'s order_book_snapshot \<Rightarrow> string + bytes"
  sha256 :: "bytes \<Rightarrow> bytes"
  package_json :: "'s snapshot_package \<Rightarrow> string + string"
  package_of_json :: "string \<Rightarrow> string + 's snapshot_package"

text \<open>\<open>write!(out, "{byte:02x}")\<close>.\<close>

definition hex_digit :: "nat \<Rightarrow> char" where
  "hex_digit n = (if n < 10 then char_of (48 + n) else char_of (87 + n))"

definition hex_byte :: "byte \<Rightarrow> string" where
  "hex_byte x = [hex_digit (unat x div 16), hex_digit (unat x mod 16)]"

definition compute_checksum :: "'s snapshot_codec \<Rightarrow> 's order_book_snapshot \<Rightarrow> order_book_error + string" where
  "compute_checksum J sn =
     (case json_vec J sn of
        Inl message \<Rightarrow> Inl (SerializationError message)
      | Inr payload \<Rightarrow> Inr (concat (map hex_byte (sha256 J payload))))"

definition package_new ::
    "('l, 's) snapshot_api \<Rightarrow> 's snapshot_codec \<Rightarrow> 's order_book_snapshot \<Rightarrow> order_book_error + 's snapshot_package" where
  "package_new S J sn0 =
     (let sn = refresh_aggregates S sn0 in
      case compute_checksum J sn of
        Inl e \<Rightarrow> Inl e
      | Inr c \<Rightarrow> Inr \<lparr>version = format_version, snapshot = sn, checksum = c, pk_fee_schedule = None,
          pk_stp_mode = StpNone, pk_tick_size = None, pk_lot_size = None, pk_min_order_size = None,
          pk_max_order_size = None, pk_engine_seq = 0, kill_switch_engaged = False, pk_risk_config = None,
          pk_market_close_timestamp = 0, pk_has_market_close = False\<rparr>)"

definition package_to_json :: "'s snapshot_codec \<Rightarrow> 's snapshot_package \<Rightarrow> order_book_error + string" where
  "package_to_json J pkg =
     (case package_json J pkg of Inl message \<Rightarrow> Inl (SerializationError message) | Inr x \<Rightarrow> Inr x)"

definition package_from_json :: "'s snapshot_codec \<Rightarrow> string \<Rightarrow> order_book_error + 's snapshot_package" where
  "package_from_json J data =
     (case package_of_json J data of Inl message \<Rightarrow> Inl (DeserializationError message) | Inr x \<Rightarrow> Inr x)"

definition validate_package :: "'s snapshot_codec \<Rightarrow> 's snapshot_package \<Rightarrow> order_book_error + unit" where
  "validate_package J pkg =
     (if version pkg < min_read_version \<or> format_version < version pkg
      then Inl (InvalidOperation ''Unsupported snapshot version'')
      else case compute_checksum J (snapshot pkg) of
             Inl e \<Rightarrow> Inl e
           | Inr computed \<Rightarrow>
               (if computed \<noteq> checksum pkg then Inl (ChecksumMismatch (checksum pkg) computed) else Inr ()))"

definition into_snapshot :: "'s snapshot_codec \<Rightarrow> 's snapshot_package \<Rightarrow> order_book_error + 's order_book_snapshot" where
  "into_snapshot J pkg = (case validate_package J pkg of Inl e \<Rightarrow> Inl e | Inr _ \<Rightarrow> Inr (snapshot pkg))"

section \<open>Taking a snapshot\<close>

text \<open>The prices of a side, best first and at most \<open>depth\<close> of them, then the level at each.\<close>

definition create_snapshot ::
    "('l, 's) snapshot_api \<Rightarrow> ('l, 'g) book \<Rightarrow> usize \<Rightarrow> 's order_book_snapshot \<times> ('l, 'g) book" where
  "create_snapshot S b depth =
     (let bid_prices = take depth (rev (sort (map fst (sm_iter (bids b)))));
          ask_prices = take depth (sort (map fst (sm_iter (asks b))));
          bid_levels = map (level_snapshot S) (List.map_filter (sm_get (bids b)) bid_prices);
          ask_levels = map (level_snapshot S) (List.map_filter (sm_get (asks b)) ask_prices);
          (ts, c) = now_millis (book_clock b)
      in (\<lparr>snap_symbol = symbol b, snap_timestamp = ts, snap_bids = bid_levels, snap_asks = ask_levels\<rparr>,
          b\<lparr>book_clock := c\<rparr>))"

definition create_snapshot_package ::
    "('l, 's) snapshot_api \<Rightarrow> 's snapshot_codec \<Rightarrow> ('l, 'g) book \<Rightarrow> usize \<Rightarrow>
      (order_book_error + 's snapshot_package) \<times> ('l, 'g) book" where
  "create_snapshot_package S J b depth =
     (let (sn, b1) = create_snapshot S b depth in
      case package_new S J sn of
        Inl e \<Rightarrow> (Inl e, b1)
      | Inr pkg \<Rightarrow>
          (Inr (pkg\<lparr>pk_fee_schedule := fee_schedule_of b1, pk_stp_mode := stp_mode_of b1,
             pk_tick_size := tick_size b1, pk_lot_size := lot_size b1, pk_min_order_size := min_order_size b1,
             pk_max_order_size := max_order_size b1, pk_engine_seq := engine_seq b1,
             kill_switch_engaged := kill_switch b1, pk_risk_config := config (risk_state b1),
             pk_market_close_timestamp := market_close_timestamp b1,
             pk_has_market_close := has_market_close b1\<rparr>), b1))"

definition snapshot_to_json ::
    "('l, 's) snapshot_api \<Rightarrow> 's snapshot_codec \<Rightarrow> ('l, 'g) book \<Rightarrow> usize \<Rightarrow> (order_book_error + string) \<times> ('l, 'g) book" where
  "snapshot_to_json S J b depth =
     (case create_snapshot_package S J b depth of
        (Inl e, b1) \<Rightarrow> (Inl e, b1)
      | (Inr pkg, b1) \<Rightarrow> (package_to_json J pkg, b1))"

section \<open>Restoring\<close>

definition ensure_snapshot_symbol :: "('l, 'g) book \<Rightarrow> 's order_book_snapshot \<Rightarrow> order_book_error + unit" where
  "ensure_snapshot_symbol b sn =
     (if snap_symbol sn \<noteq> symbol b
      then Inl (InvalidOperation ''Snapshot symbol does not match order book symbol'') else Inr ())"

fun convert_levels :: "('l, 's) snapshot_api \<Rightarrow> 's list \<Rightarrow> order_book_error + (u128 \<times> 'l) list" where
  "convert_levels S [] = Inr []"
| "convert_levels S (x # xs) =
     (case from_snapshot S x of
        Inl err \<Rightarrow> Inl (PriceLevelError err)
      | Inr l \<Rightarrow> (case convert_levels S xs of Inl e \<Rightarrow> Inl e | Inr ls \<Rightarrow> Inr ((sn_price S x, l) # ls)))"

text \<open>\<open>windows(2).find(|pair| pair[0].0 == pair[1].0)\<close>.\<close>

fun same_price_window :: "(u128 \<times> 'l) list \<Rightarrow> u128 option" where
  "same_price_window (x # y # ls) = (if fst x = fst y then Some (fst x) else same_price_window (y # ls))"
| "same_price_window _ = None"

definition convert_side :: "('l, 's) snapshot_api \<Rightarrow> 's list \<Rightarrow> string \<Rightarrow> order_book_error + (u128 \<times> 'l) list" where
  "convert_side S xs name =
     (case convert_levels S xs of
        Inl e \<Rightarrow> Inl e
      | Inr converted0 \<Rightarrow>
          (let converted = sort_key fst converted0 in
           if same_price_window converted \<noteq> None
           then Inl (InvalidOperation (''Snapshot contains two '' @ name @ '' levels at the same price''))
           else Inr converted))"

text \<open>The first order whose id was inserted before.\<close>

fun repeated_id :: "ident set \<Rightarrow> ident list \<Rightarrow> ident option" where
  "repeated_id seen [] = None"
| "repeated_id seen (i # is) = (if i \<in> seen then Some i else repeated_id (insert i seen) is)"

record 'l prepared_levels =
  prepared_bids :: "(u128 \<times> 'l) list"
  prepared_asks :: "(u128 \<times> 'l) list"

definition prepare_snapshot_levels ::
    "('l, 'g) pricelevel_api \<Rightarrow> ('l, 's) snapshot_api \<Rightarrow> 's order_book_snapshot \<Rightarrow> order_book_error + 'l prepared_levels" where
  "prepare_snapshot_levels A S sn =
     (case convert_side S (snap_bids sn) ''bid'' of
        Inl e \<Rightarrow> Inl e
      | Inr bs \<Rightarrow>
          (case convert_side S (snap_asks sn) ''ask'' of
             Inl e \<Rightarrow> Inl e
           | Inr as \<Rightarrow>
               (case repeated_id {} (collect_ids A (bs @ as)) of
                  Some i \<Rightarrow> Inl (DuplicateOrderId i)
                | None \<Rightarrow> Inr \<lparr>prepared_bids = bs, prepared_asks = as\<rparr>)))"

definition reregister_special_order :: "('l, 'g) book \<Rightarrow> unit_order \<Rightarrow> ('l, 'g) book" where
  "reregister_special_order b order =
     (case order of
        PeggedOrder i _ _ _ _ _ _ _ _ _ \<Rightarrow>
          b\<lparr>special_order_tracker := register_pegged_order (special_order_tracker b) i\<rparr>
      | TrailingStop i _ _ _ _ _ _ _ _ _ \<Rightarrow>
          b\<lparr>special_order_tracker := register_trailing_stop (special_order_tracker b) i\<rparr>
      | _ \<Rightarrow> b)"

fun rebuild_orders ::
    "('l, 'g) pricelevel_api \<Rightarrow> bool \<Rightarrow> u128 \<Rightarrow> side \<Rightarrow> unit_order list \<Rightarrow> ('l, 'g) book \<Rightarrow> ('l, 'g) book" where
  "rebuild_orders A rebuild_risk price s [] b = b"
| "rebuild_orders A rebuild_risk price s (od # ods) b =
     (let b1 = insert_location b (oid od) price s;
          b2 = track_user_order b1 (ouser od) (oid od);
          b3 = reregister_special_order b2 od;
          b4 = (if rebuild_risk
                then b3\<lparr>risk_state := on_admission (risk_state b3) (oid od) (ouser od) price
                       (sat_add64 (visible_of A od) (hidden_of A od))\<rparr>
                else b3)
      in rebuild_orders A rebuild_risk price s ods b4)"

fun rebuild_side ::
    "('l, 'g) pricelevel_api \<Rightarrow> bool \<Rightarrow> side \<Rightarrow> (u128 \<times> 'l) list \<Rightarrow> ('l, 'g) book \<Rightarrow> ('l, 'g) book" where
  "rebuild_side A rebuild_risk s [] b = b"
| "rebuild_side A rebuild_risk s ((price, l) # ls) b =
     rebuild_side A rebuild_risk s ls (rebuild_orders A rebuild_risk price s (snapshot_by_seq A l) b)"

fun install_levels :: "(u128 \<times> 'l) list \<Rightarrow> 'l skip_map \<Rightarrow> 'l skip_map" where
  "install_levels [] m = m"
| "install_levels ((price, l) # ls) m = install_levels ls (sm_insert price l m)"

definition commit_restored_levels ::
    "('l, 'g) pricelevel_api \<Rightarrow> ('l, 'g) book \<Rightarrow> 'l prepared_levels \<Rightarrow> bool \<Rightarrow> ('l, 'g) book" where
  "commit_restored_levels A b prepared rebuild_risk =
     (let b1 = invalidate_cache b;
          b2 = b1\<lparr>bids := [], asks := [], order_locations := (\<lambda>_. None), user_orders := [],
                  special_order_tracker := \<lparr>pegged_orders = [], trailing_stop_orders = []\<rparr>,
                  has_traded := False, last_trade_price_cell := 0, has_market_close := False,
                  market_close_timestamp := 0\<rparr>;
          b3 = b2\<lparr>bids := install_levels (prepared_bids prepared) (bids b2),
                  asks := install_levels (prepared_asks prepared) (asks b2)\<rparr>
      in rebuild_side A rebuild_risk Sell (prepared_asks prepared)
           (rebuild_side A rebuild_risk Buy (prepared_bids prepared) b3))"

definition restore_from_snapshot ::
    "('l, 'g) pricelevel_api \<Rightarrow> ('l, 's) snapshot_api \<Rightarrow> ('l, 'g) book \<Rightarrow> 's order_book_snapshot \<Rightarrow>
      (order_book_error + unit) \<times> ('l, 'g) book" where
  "restore_from_snapshot A S b sn =
     (case ensure_snapshot_symbol b sn of
        Inl e \<Rightarrow> (Inl e, b)
      | Inr _ \<Rightarrow>
          (case prepare_snapshot_levels A S sn of
             Inl e \<Rightarrow> (Inl e, b)
           | Inr prepared \<Rightarrow> (Inr (), commit_restored_levels A b prepared False)))"

definition restore_from_snapshot_package ::
    "('l, 'g) pricelevel_api \<Rightarrow> ('l, 's) snapshot_api \<Rightarrow> 's snapshot_codec \<Rightarrow> ('l, 'g) book \<Rightarrow> 's snapshot_package \<Rightarrow>
      (order_book_error + unit) \<times> ('l, 'g) book" where
  "restore_from_snapshot_package A S J b pkg =
     (case into_snapshot J pkg of
        Inl e \<Rightarrow> (Inl e, b)
      | Inr sn \<Rightarrow>
          (case ensure_snapshot_symbol b sn of
             Inl e \<Rightarrow> (Inl e, b)
           | Inr _ \<Rightarrow>
               (case prepare_snapshot_levels A S sn of
                  Inl e \<Rightarrow> (Inl e, b)
                | Inr prepared \<Rightarrow>
                    (let rs = (case pk_risk_config pkg of
                                 Some cfg \<Rightarrow> set_config (risk_state b) cfg
                               | None \<Rightarrow> risk_disable (risk_state b));
                         b1 = b\<lparr>risk_state := risk_clear rs\<rparr>;
                         b2 = commit_restored_levels A b1 prepared True
                     in (Inr (), b2\<lparr>fee_schedule_of := pk_fee_schedule pkg, stp_mode_of := pk_stp_mode pkg,
                           tick_size := pk_tick_size pkg, lot_size := pk_lot_size pkg,
                           min_order_size := pk_min_order_size pkg, max_order_size := pk_max_order_size pkg,
                           engine_seq := pk_engine_seq pkg, kill_switch := kill_switch_engaged pkg,
                           market_close_timestamp := pk_market_close_timestamp pkg,
                           has_market_close := pk_has_market_close pkg\<rparr>)))))"

definition restore_from_snapshot_json ::
    "('l, 'g) pricelevel_api \<Rightarrow> ('l, 's) snapshot_api \<Rightarrow> 's snapshot_codec \<Rightarrow> ('l, 'g) book \<Rightarrow> string \<Rightarrow>
      (order_book_error + unit) \<times> ('l, 'g) book" where
  "restore_from_snapshot_json A S J b data =
     (case package_from_json J data of
        Inl e \<Rightarrow> (Inl e, b)
      | Inr pkg \<Rightarrow> restore_from_snapshot_package A S J b pkg)"

section \<open>The contract of level snapshots\<close>

text \<open>Documented behaviour of the crate: a snapshot carries the price and the orders of its level in
  queue order; refreshing the aggregates changes neither; a level is rebuilt with exactly the orders
  of the snapshot, and a snapshot in which an id repeats is refused.\<close>

locale level_snapshots = price_levels A ok
  for A :: "('l, 'g) pricelevel_api" and ok :: "'l \<Rightarrow> bool" +
  fixes S :: "('l, 's) snapshot_api"
  assumes snapshot_price: "ok l \<Longrightarrow> sn_price S (level_snapshot S l) = level_price A l"
    and snapshot_orders: "ok l \<Longrightarrow> sn_orders S (level_snapshot S l) = snapshot_by_seq A l"
    and refresh_price: "sn_price S (sn_refresh S x) = sn_price S x"
    and refresh_orders: "sn_orders S (sn_refresh S x) = sn_orders S x"
    and from_level: "ok l \<Longrightarrow> \<exists>l'. from_snapshot S (sn_refresh S (level_snapshot S l)) = Inr l'"
    and from_Inr: "from_snapshot S x = Inr l \<Longrightarrow>
      ok l \<and> level_price A l = sn_price S x \<and> snapshot_by_seq A l = sn_orders S x"
begin

lemma convert_levels_Inr:
  "convert_levels S xs = Inr ls \<Longrightarrow>
   map (\<lambda>e. (fst e, snapshot_by_seq A (snd e))) ls = map (\<lambda>x. (sn_price S x, sn_orders S x)) xs \<and>
   (\<forall>e \<in> set ls. ok (snd e) \<and> level_price A (snd e) = fst e)"
proof (induction xs arbitrary: ls)
  case (Cons x xs)
  then obtain l ks where l: "from_snapshot S x = Inr l" and ks: "convert_levels S xs = Inr ks"
    and ls: "ls = (sn_price S x, l) # ks" by (auto split: sum.splits)
  show ?case unfolding ls using Cons.IH [OF ks] from_Inr [OF l] by simp
qed simp

lemma convert_levels_returns:
  assumes "\<forall>l \<in> set ks. ok l"
  shows "\<exists>ls. convert_levels S (map (\<lambda>l. sn_refresh S (level_snapshot S l)) ks) = Inr ls"
  using assms
proof (induction ks)
  case (Cons l ks)
  then obtain ls where "convert_levels S (map (\<lambda>l. sn_refresh S (level_snapshot S l)) ks) = Inr ls" by auto
  moreover obtain l' where "from_snapshot S (sn_refresh S (level_snapshot S l)) = Inr l'"
    using from_level Cons.prems by auto
  ultimately show ?case by simp
qed simp

end

section \<open>Checks of the fallible phase\<close>

lemma window_strict:
  "sorted (map fst ls) \<Longrightarrow> same_price_window ls = None \<longleftrightarrow> sorted_wrt (<) (map fst ls)"
proof (induction ls rule: same_price_window.induct)
  case (1 x y ls)
  then show ?case by (cases "fst x = fst y") fastforce+
qed auto

lemma repeated_id_None: "repeated_id seen is = None \<longleftrightarrow> distinct is \<and> set is \<inter> seen = {}"
  by (induction seen "is" rule: repeated_id.induct) auto

lemma install_sorted: "sorted_wrt (<) (map fst (m @ ls)) \<Longrightarrow> install_levels ls m = m @ ls"
proof (induction ls m rule: install_levels.induct)
  case (2 p l ls m)
  have "\<forall>e \<in> set m. fst e < p" using 2(2) by (auto simp: sorted_wrt_append)
  then have "sm_insert p l m = m @ [(p, l)]" by (induction m) auto
  then show ?case using 2 by simp
qed simp

lemma prepareE:
  assumes "prepare_snapshot_levels A S sn = Inr pr"
  obtains bs as where "convert_levels S (snap_bids sn) = Inr bs" "convert_levels S (snap_asks sn) = Inr as"
    "prepared_bids pr = sort_key fst bs" "prepared_asks pr = sort_key fst as"
    "sorted_wrt (<) (map fst (sort_key fst bs))" "sorted_wrt (<) (map fst (sort_key fst as))"
    "distinct (collect_ids A (sort_key fst bs @ sort_key fst as))"
  using assms
  by (fastforce simp: prepare_snapshot_levels_def convert_side_def Let_def window_strict repeated_id_None
      split: sum.splits option.splits if_splits)

section \<open>The commit phase\<close>

definition placed :: "u128 \<Rightarrow> side \<Rightarrow> unit_order list \<Rightarrow> placement set" where
  "placed p s ods = (\<lambda>od. (oid od, ouser od, p, s)) ` set ods"

definition placed_levels :: "('l, 'g) pricelevel_api \<Rightarrow> side \<Rightarrow> (u128 \<times> 'l) list \<Rightarrow> placement set" where
  "placed_levels A s ls = (\<Union>e \<in> set ls. placed (fst e) s (snapshot_by_seq A (snd e)))"

lemma placed_simps [simp]:
  "placed p s [] = {}" "placed p s (od # ods) = insert (oid od, ouser od, p, s) (placed p s ods)"
  "placed_levels A s [] = {}"
  "placed_levels A s ((p, l) # ls) = placed p s (snapshot_by_seq A l) \<union> placed_levels A s ls"
  by (auto simp: placed_def placed_levels_def)

lemma placed_ids: "fst ` placed p s ods = oid ` set ods" "fst ` placed_levels A s ls = set (collect_ids A ls)"
  by (force simp: placed_def placed_levels_def collect_ids_def)+

text \<open>Rebuilding writes the two indices, the re-pricing tracker and the risk state.\<close>

definition reindexed :: "('l, 'g) book \<Rightarrow> ('l, 'g) book \<Rightarrow> bool" where
  "reindexed b b' \<longleftrightarrow>
     (\<exists>L U T R. b' = b\<lparr>order_locations := L, user_orders := U, special_order_tracker := T, risk_state := R\<rparr> \<and>
        config R = config (risk_state b))"

lemma reindexed_refl: "reindexed b b"
  unfolding reindexed_def
  by (intro exI [of _ "order_locations b"] exI [of _ "user_orders b"] exI [of _ "special_order_tracker b"]
      exI [of _ "risk_state b"]) simp

lemma reindexed_trans: "reindexed a b \<Longrightarrow> reindexed b c \<Longrightarrow> reindexed a c"
  unfolding reindexed_def by (elim exE conjE) (intro exI conjI, simp, simp)

lemma config_on_admission [simp]: "config (on_admission st i u p q) = config st"
  by (simp add: on_admission_def Let_def)

lemma reindexed_one:
  "reindexed b (reregister_special_order (track_user_order (insert_location b i p s) u i) od)"
  "reindexed b (b\<lparr>risk_state := on_admission (risk_state b) i u p q\<rparr>)"
proof -
  have "\<exists>T. reregister_special_order (track_user_order (insert_location b i p s) u i) od =
      b\<lparr>order_locations := (order_locations b)(i \<mapsto> (p, s)),
        user_orders := user_orders (track_user_order (insert_location b i p s) u i), special_order_tracker := T\<rparr>"
    by (cases od)
      (auto simp: reregister_special_order_def track_user_order_def insert_location_def
        intro: exI [of _ "special_order_tracker b"])
  then obtain T where "reregister_special_order (track_user_order (insert_location b i p s) u i) od =
      b\<lparr>order_locations := (order_locations b)(i \<mapsto> (p, s)),
        user_orders := user_orders (track_user_order (insert_location b i p s) u i), special_order_tracker := T\<rparr>" ..
  then show "reindexed b (reregister_special_order (track_user_order (insert_location b i p s) u i) od)"
    unfolding reindexed_def by (intro exI [of _ "risk_state b"] exI conjI) auto
  show "reindexed b (b\<lparr>risk_state := on_admission (risk_state b) i u p q\<rparr>)"
    unfolding reindexed_def
    by (intro exI [of _ "order_locations b"] exI [of _ "user_orders b"] exI [of _ "special_order_tracker b"]
        exI [of _ "on_admission (risk_state b) i u p q"]) simp
qed

lemma rebuild_orders_frame: "reindexed b (rebuild_orders A r p s ods b)"
proof (induction ods arbitrary: b)
  case (Cons od ods)
  let ?b3 = "reregister_special_order (track_user_order (insert_location b (oid od) p s) (ouser od) (oid od)) od"
  have "reindexed b ?b3" by (rule reindexed_one)
  moreover have "reindexed ?b3 (if r then ?b3\<lparr>risk_state := on_admission (risk_state ?b3) (oid od) (ouser od) p
        (sat_add64 (visible_of A od) (hidden_of A od))\<rparr> else ?b3)"
    by (cases r) (simp_all only: if_True if_False reindexed_one(2) reindexed_refl)
  ultimately show ?case unfolding rebuild_orders.simps Let_def by (intro reindexed_trans [OF reindexed_trans Cons])
qed (simp add: reindexed_refl)

lemma rebuild_side_frame: "reindexed b (rebuild_side A r s ls b)"
  by (induction A r s ls b rule: rebuild_side.induct) (auto intro: reindexed_refl reindexed_trans rebuild_orders_frame)

lemma rebuild_orders_idx:
  assumes "loc_idx (order_locations b) R" "usr_idx (user_orders b) R"
    and "distinct (map oid ods)" "fst ` R \<inter> oid ` set ods = {}"
  shows "loc_idx (order_locations (rebuild_orders A r p s ods b)) (R \<union> placed p s ods) \<and>
    usr_idx (user_orders (rebuild_orders A r p s ods b)) (R \<union> placed p s ods)"
  using assms
proof (induction ods arbitrary: b R)
  case (Cons od ods)
  let ?b2 = "track_user_order (insert_location b (oid od) p s) (ouser od) (oid od)"
  let ?b3 = "reregister_special_order ?b2 od"
  let ?b4 = "if r then ?b3\<lparr>risk_state := on_admission (risk_state ?b3) (oid od) (ouser od) p
        (sat_add64 (visible_of A od) (hidden_of A od))\<rparr> else ?b3"
  let ?R = "insert (oid od, ouser od, p, s) R"
  have same: "order_locations ?b4 = (order_locations b)(oid od \<mapsto> (p, s))" "user_orders ?b4 = user_orders ?b2"
    by (cases od; simp add: reregister_special_order_def track_user_order_def insert_location_def)+
  have fresh: "\<forall>x \<in> R. fst x \<noteq> oid od" using Cons.prems(4) by force
  then have "order_locations b (oid od) = None" using loc_idx_None [OF Cons.prems(1)] by blast
  then have 1: "loc_idx (order_locations ?b4) ?R" unfolding same by (rule loc_idx_insert [OF Cons.prems(1)])
  have "user_orders ?b2 = user_orders (track_user_order b (ouser od) (oid od))"
    by (simp add: track_user_order_def insert_location_def)
  then have 2: "usr_idx (user_orders ?b4) ?R"
    using usr_idx_track [OF Cons.prems(2) fresh] unfolding same by simp
  have "fst ` ?R \<inter> oid ` set ods = {}" using Cons.prems(3,4) by auto
  from Cons.IH [OF 1 2 _ this] Cons.prems(3) show ?case by (simp add: Let_def)
qed simp

lemma rebuild_side_idx:
  assumes "loc_idx (order_locations b) R" "usr_idx (user_orders b) R"
    and "distinct (collect_ids A ls)" "fst ` R \<inter> set (collect_ids A ls) = {}"
  shows "loc_idx (order_locations (rebuild_side A r s ls b)) (R \<union> placed_levels A s ls) \<and>
    usr_idx (user_orders (rebuild_side A r s ls b)) (R \<union> placed_levels A s ls)"
  using assms
proof (induction ls arbitrary: b R)
  case (Cons e ls)
  obtain p l where e: "e = (p, l)" by (cases e)
  have c: "collect_ids A (e # ls) = map oid (snapshot_by_seq A l) @ collect_ids A ls"
    by (simp add: collect_ids_def e)
  have "distinct (map oid (snapshot_by_seq A l))" "fst ` R \<inter> oid ` set (snapshot_by_seq A l) = {}"
    using Cons.prems(3,4) unfolding c by auto
  note O = rebuild_orders_idx [OF Cons.prems(1,2) this, of A r p s]
  have "distinct (collect_ids A ls)" using Cons.prems(3) unfolding c by simp
  moreover have "fst ` (R \<union> placed p s (snapshot_by_seq A l)) \<inter> set (collect_ids A ls) = {}"
    using Cons.prems(3,4) unfolding c image_Un placed_ids by auto
  ultimately show ?case using Cons.IH [OF conjunct1 [OF O] conjunct2 [OF O]] by (simp add: e Un_assoc)
qed simp

lemma rebuild_orders_risk:
  assumes "config (risk_state b) \<noteq> None"
  shows "dom (risk_orders (risk_state (rebuild_orders A True p s ods b))) =
    dom (risk_orders (risk_state b)) \<union> oid ` set ods"
  using assms
proof (induction ods arbitrary: b)
  case (Cons od ods)
  let ?b3 = "reregister_special_order (track_user_order (insert_location b (oid od) p s) (ouser od) (oid od)) od"
  have r: "risk_state ?b3 = risk_state b"
    by (cases od) (simp_all add: reregister_special_order_def track_user_order_def insert_location_def)
  have d: "dom (risk_orders (on_admission (risk_state b) (oid od) (ouser od) p q)) =
      insert (oid od) (dom (risk_orders (risk_state b)))" for q
    using Cons.prems by (auto simp: on_admission_def Let_def)
  let ?b4 = "?b3\<lparr>risk_state := on_admission (risk_state b) (oid od) (ouser od) p
        (sat_add64 (visible_of A od) (hidden_of A od))\<rparr>"
  have "rebuild_orders A True p s (od # ods) b = rebuild_orders A True p s ods ?b4" by (simp add: Let_def r)
  moreover have "config (risk_state ?b4) \<noteq> None" using Cons.prems by simp
  ultimately show ?case using Cons.IH [of ?b4] d by auto
qed simp

lemma rebuild_side_risk:
  assumes "config (risk_state b) \<noteq> None"
  shows "dom (risk_orders (risk_state (rebuild_side A True s ls b))) =
    dom (risk_orders (risk_state b)) \<union> set (collect_ids A ls)"
  using assms
proof (induction ls arbitrary: b)
  case (Cons e ls)
  obtain p l where e: "e = (p, l)" by (cases e)
  let ?b = "rebuild_orders A True p s (snapshot_by_seq A l) b"
  have "config (risk_state ?b) = config (risk_state b)"
    using rebuild_orders_frame [of b A True p s "snapshot_by_seq A l"] by (auto simp: reindexed_def)
  then show ?case using Cons.IH [of ?b] rebuild_orders_risk [OF Cons.prems] Cons.prems
    by (auto simp: e collect_ids_def)
qed (simp add: collect_ids_def)

definition cleared :: "('l, 'g) book \<Rightarrow> 'l prepared_levels \<Rightarrow> ('l, 'g) book" where
  "cleared b pr = (invalidate_cache b)\<lparr>order_locations := (\<lambda>_. None), user_orders := [],
     special_order_tracker := \<lparr>pegged_orders = [], trailing_stop_orders = []\<rparr>, has_traded := False,
     last_trade_price_cell := 0, has_market_close := False, market_close_timestamp := 0,
     bids := prepared_bids pr, asks := prepared_asks pr\<rparr>"

definition prepared_ok :: "('l, 'g) pricelevel_api \<Rightarrow> ('l \<Rightarrow> bool) \<Rightarrow> 'l prepared_levels \<Rightarrow> bool" where
  "prepared_ok A ok pr \<longleftrightarrow>
     sorted_wrt (<) (map fst (prepared_bids pr)) \<and> sorted_wrt (<) (map fst (prepared_asks pr)) \<and>
     distinct (collect_ids A (prepared_bids pr @ prepared_asks pr)) \<and>
     (\<forall>e \<in> set (prepared_bids pr @ prepared_asks pr). ok (snd e) \<and> level_price A (snd e) = fst e)"

lemma commit_eq:
  assumes "prepared_ok A ok pr"
  shows "commit_restored_levels A b pr r =
    rebuild_side A r Sell (prepared_asks pr) (rebuild_side A r Buy (prepared_bids pr) (cleared b pr))"
  using assms install_sorted [of "[]" "prepared_bids pr"] install_sorted [of "[]" "prepared_asks pr"]
  by (simp add: commit_restored_levels_def cleared_def prepared_ok_def Let_def)

lemma commit_frame:
  assumes "prepared_ok A ok pr"
  shows "reindexed (cleared b pr) (commit_restored_levels A b pr r)"
  unfolding commit_eq [OF assms] by (rule reindexed_trans [OF rebuild_side_frame rebuild_side_frame])

lemma commit_levels:
  assumes "prepared_ok A ok pr"
  shows "bids (commit_restored_levels A b pr r) = prepared_bids pr"
    "asks (commit_restored_levels A b pr r) = prepared_asks pr"
    "cache (commit_restored_levels A b pr r) = cache (invalidate_cache b)"
    "config (risk_state (commit_restored_levels A b pr r)) = config (risk_state b)"
    "has_traded (commit_restored_levels A b pr r) = False"
  using commit_frame [OF assms, of b r] by (auto simp: reindexed_def cleared_def)

lemma commit_risk:
  assumes "prepared_ok A ok pr" "config (risk_state b) \<noteq> None"
  shows "dom (risk_orders (risk_state (commit_restored_levels A b pr True))) =
    dom (risk_orders (risk_state b)) \<union> set (collect_ids A (prepared_bids pr @ prepared_asks pr))"
proof -
  let ?b1 = "rebuild_side A True Buy (prepared_bids pr) (cleared b pr)"
  have 0: "risk_state (cleared b pr) = risk_state b" by (simp add: cleared_def)
  have "config (risk_state ?b1) = config (risk_state b)"
    using rebuild_side_frame [of "cleared b pr" A True Buy "prepared_bids pr"] 0 by (auto simp: reindexed_def)
  then have "config (risk_state ?b1) \<noteq> None" using assms(2) by simp
  from rebuild_side_risk [OF this] rebuild_side_risk [of "cleared b pr" A Buy "prepared_bids pr"] assms(2) 0
  show ?thesis unfolding commit_eq [OF assms(1)] by (auto simp: collect_ids_def)
qed

lemma commit_inv:
  assumes pr: "prepared_ok A ok pr"
    and ne: "\<forall>e \<in> set (prepared_bids pr @ prepared_asks pr). snapshot_by_seq A (snd e) \<noteq> []"
  shows "book_inv A ok (commit_restored_levels A b pr r)"
    "resting A (commit_restored_levels A b pr r) =
       placed_levels A Buy (prepared_bids pr) \<union> placed_levels A Sell (prepared_asks pr)"
proof -
  let ?b = "commit_restored_levels A b pr r"
  let ?side = "\<lambda>s. case s of Buy \<Rightarrow> prepared_bids pr | Sell \<Rightarrow> prepared_asks pr"
  have lv: "levels ?b s = ?side s" for s using commit_levels [OF pr] by (cases s) simp_all
  have sm: "sm_invar (levels ?b s)" for s using pr commit_levels(1,2) [OF pr] by (cases s) (simp_all add: prepared_ok_def sm_invar_def)
  have get: "sm_get (levels ?b s) p = Some l \<longleftrightarrow> (p, l) \<in> set (?side s)" for s p l
    using sm_get_mem [OF sm] lv by simp
  have mem: "e \<in> set (?side s) \<Longrightarrow> ok (snd e) \<and> level_price A (snd e) = fst e \<and> snapshot_by_seq A (snd e) \<noteq> []" for e s
    using pr ne by (cases s) (auto simp: prepared_ok_def)
  have wf: "levels_wf A ok ?b" using sm get mem unfolding levels_wf_def by fastforce
  have no: "no_empty A ?b" using get mem unfolding no_empty_def by fastforce
  show rest: "resting A ?b = placed_levels A Buy (prepared_bids pr) \<union> placed_levels A Sell (prepared_asks pr)"
  proof -
    have "(i, u, p, s) \<in> resting A ?b \<longleftrightarrow>
        (i, u, p, s) \<in> placed_levels A Buy (prepared_bids pr) \<union> placed_levels A Sell (prepared_asks pr)" for i u p s
      unfolding resting_iff get by (cases s) (force simp: placed_levels_def placed_def)+
    then show ?thesis by auto
  qed
  have d: "distinct (collect_ids A (prepared_bids pr))" "distinct (collect_ids A (prepared_asks pr))"
    "set (collect_ids A (prepared_bids pr)) \<inter> set (collect_ids A (prepared_asks pr)) = {}"
    using pr by (auto simp: prepared_ok_def collect_ids_def)
  have "loc_idx (order_locations (cleared b pr)) {}" "usr_idx (user_orders (cleared b pr)) {}"
    by (simp_all add: cleared_def loc_idx_empty usr_idx_empty)
  from rebuild_side_idx [OF this d(1)]
  have 1: "loc_idx (order_locations (rebuild_side A r Buy (prepared_bids pr) (cleared b pr))) (placed_levels A Buy (prepared_bids pr))"
    "usr_idx (user_orders (rebuild_side A r Buy (prepared_bids pr) (cleared b pr))) (placed_levels A Buy (prepared_bids pr))"
    by simp_all
  from rebuild_side_idx [OF 1 d(2)] d(3)
  have "loc_idx (order_locations ?b) (resting A ?b) \<and> usr_idx (user_orders ?b) (resting A ?b)"
    unfolding rest unfolding commit_eq [OF pr] placed_ids by simp
  moreover have "cache_ok ?b"
    by (simp add: cache_ok_def commit_levels [OF pr] invalidate_cache_def invalidate_def
        get_cached_best_bid_def get_cached_best_ask_def)
  ultimately show "book_inv A ok ?b" using wf no by (simp add: book_inv_def)
qed

section \<open>What is restored\<close>

text \<open>The price and the orders of each level.\<close>

abbreviation contents :: "('l, 'g) pricelevel_api \<Rightarrow> (u128 \<times> 'l) list \<Rightarrow> (u128 \<times> unit_order list) list" where
  "contents A ls \<equiv> map (\<lambda>e. (fst e, snapshot_by_seq A (snd e))) ls"

lemma contents_keys: "map fst (contents A ls) = map fst ls"
  by simp

lemma contents_ids: "collect_ids A ls = concat (map (\<lambda>e. map oid (snd e)) (contents A ls))"
  by (simp add: collect_ids_def comp_def)

lemma contents_nonempty:
  "(\<forall>e \<in> set ls. snapshot_by_seq A (snd e) \<noteq> []) \<longleftrightarrow> (\<forall>e \<in> set (contents A ls). snd e \<noteq> [])"
  by simp

lemma contents_placed: "placed_levels A s ls = (\<Union>e \<in> set (contents A ls). placed (fst e) s (snd e))"
  by (simp add: placed_levels_def)

lemma insort_key_map: "map f (insort_key (\<lambda>x. k (f x)) x xs) = insort_key k (f x) (map f xs)"
  by (induction xs) simp_all

lemma sort_key_map: "map f (sort_key (\<lambda>x. k (f x)) xs) = sort_key k (map f xs)"
  by (induction xs) (simp_all add: insort_key_map)

lemma sort_contents: "contents A (sort_key fst ls) = sort_key fst (contents A ls)"
  using sort_key_map [of "\<lambda>e. (fst e, snapshot_by_seq A (snd e))" fst ls] by simp

lemma map_filter_get: "sm_invar m \<Longrightarrow> set es \<subseteq> set m \<Longrightarrow> List.map_filter (sm_get m) (map fst es) = map snd es"
proof (induction es)
  case (Cons e es)
  then have "sm_get m (fst e) = Some (snd e)" by (simp add: sm_get_mem)
  then show ?case using Cons by (simp add: map_filter_simps)
qed (simp add: map_filter_simps)

lemma create_snapshot_full:
  assumes "levels_wf A ok b" "length (bids b) \<le> depth" "length (asks b) \<le> depth"
    "create_snapshot S b depth = (sn, b1)"
  shows "snap_symbol sn = symbol b" "snap_bids sn = map (\<lambda>e. level_snapshot S (snd e)) (rev (bids b))"
    "snap_asks sn = map (\<lambda>e. level_snapshot S (snd e)) (asks b)" "b1 = b\<lparr>book_clock := book_clock b1\<rparr>"
proof -
  have i: "sm_invar (bids b)" "sm_invar (asks b)" using levels_wfD(1) [OF assms(1), of Buy] levels_wfD(1) [OF assms(1), of Sell] by simp_all
  then have so: "sort (map fst (bids b)) = map fst (bids b)" "sort (map fst (asks b)) = map fst (asks b)"
    by (simp_all add: sm_invar_def sort_key_id_if_sorted strict_sorted_imp_sorted)
  have f: "List.map_filter (sm_get (bids b)) (rev (map fst (bids b))) = map snd (rev (bids b))"
    "List.map_filter (sm_get (asks b)) (map fst (asks b)) = map snd (asks b)"
    using map_filter_get [OF i(1), of "rev (bids b)"] map_filter_get [OF i(2), of "asks b"] by (simp_all add: rev_map)
  show "snap_symbol sn = symbol b" "snap_bids sn = map (\<lambda>e. level_snapshot S (snd e)) (rev (bids b))"
    "snap_asks sn = map (\<lambda>e. level_snapshot S (snd e)) (asks b)" "b1 = b\<lparr>book_clock := book_clock b1\<rparr>"
    using assms(2-4) by (auto simp: create_snapshot_def Let_def sm_iter_def so f split: prod.splits)
qed

context level_snapshots
begin

lemma prepared_is_ok:
  assumes "prepare_snapshot_levels A S sn = Inr pr"
  shows "prepared_ok A ok pr"
    "contents A (prepared_bids pr) = sort_key fst (map (\<lambda>x. (sn_price S x, sn_orders S x)) (snap_bids sn))"
    "contents A (prepared_asks pr) = sort_key fst (map (\<lambda>x. (sn_price S x, sn_orders S x)) (snap_asks sn))"
proof -
  from assms obtain bs as where c: "convert_levels S (snap_bids sn) = Inr bs" "convert_levels S (snap_asks sn) = Inr as"
    and pr: "prepared_bids pr = sort_key fst bs" "prepared_asks pr = sort_key fst as"
    and st: "sorted_wrt (<) (map fst (sort_key fst bs))" "sorted_wrt (<) (map fst (sort_key fst as))"
    and d: "distinct (collect_ids A (sort_key fst bs @ sort_key fst as))" by (rule prepareE)
  note B = convert_levels_Inr [OF c(1)] and C = convert_levels_Inr [OF c(2)]
  have "\<forall>e \<in> set (sort_key fst bs @ sort_key fst as). ok (snd e) \<and> level_price A (snd e) = fst e"
    using conjunct2 [OF B] conjunct2 [OF C] by auto
  then show "prepared_ok A ok pr" using st d pr by (simp add: prepared_ok_def)
  show "contents A (prepared_bids pr) = sort_key fst (map (\<lambda>x. (sn_price S x, sn_orders S x)) (snap_bids sn))"
    "contents A (prepared_asks pr) = sort_key fst (map (\<lambda>x. (sn_price S x, sn_orders S x)) (snap_asks sn))"
    unfolding pr sort_contents conjunct1 [OF B] conjunct1 [OF C] by simp_all
qed

lemma convert_side_returns:
  assumes "sm_invar m" "\<forall>e \<in> set m. ok (snd e) \<and> level_price A (snd e) = fst e" "mset es = mset m"
  shows "\<exists>ls. convert_side S (map (\<lambda>e. sn_refresh S (level_snapshot S (snd e))) es) name = Inr ls \<and>
    contents A ls = contents A m"
proof -
  have set: "set es = set m" using assms(3) by (rule mset_eq_setD)
  have "\<forall>l \<in> set (map snd es). ok l" using assms(2) set by auto
  from convert_levels_returns [OF this] obtain ls
    where c: "convert_levels S (map (\<lambda>e. sn_refresh S (level_snapshot S (snd e))) es) = Inr ls"
    by (auto simp: comp_def)
  have "contents A ls = contents A es"
    using conjunct1 [OF convert_levels_Inr [OF c]] assms(2) set
    by (simp add: refresh_price refresh_orders snapshot_price snapshot_orders)
  moreover have "sort_key fst (contents A es) = contents A m"
  proof (rule sort_key_inj_key_eq)
    show "mset (contents A es) = mset (contents A m)" using assms(3) by simp
    show "inj_on fst (set (contents A es))"
      using sm_invar_distinct [OF assms(1)] set by (auto simp: inj_on_def distinct_map)
    show "sorted (map fst (contents A m))"
      using assms(1) by (simp add: comp_def sm_invar_def strict_sorted_imp_sorted)
  qed
  ultimately have eq: "contents A (sort_key fst ls) = contents A m" by (simp only: sort_contents)
  have "map fst (sort_key fst ls) = map fst m" using eq contents_keys by metis
  then have "sorted_wrt (<) (map fst (sort_key fst ls))" using assms(1) by (simp add: sm_invar_def)
  then have "same_price_window (sort_key fst ls) = None"
    using window_strict strict_sorted_imp_sorted by blast
  then show ?thesis using c eq by (simp add: convert_side_def Let_def)
qed

lemma prepare_returns:
  assumes inv: "book_inv A ok b"
    and "snap_bids sn = map (\<lambda>e. sn_refresh S (level_snapshot S (snd e))) (rev (bids b))"
    and "snap_asks sn = map (\<lambda>e. sn_refresh S (level_snapshot S (snd e))) (asks b)"
  shows "\<exists>pr. prepare_snapshot_levels A S sn = Inr pr \<and> contents A (prepared_bids pr) = contents A (bids b) \<and>
    contents A (prepared_asks pr) = contents A (asks b)"
proof -
  have wf: "levels_wf A ok b" using inv by (simp add: book_inv_def)
  have m: "sm_invar (levels b s)" "\<forall>e \<in> set (levels b s). ok (snd e) \<and> level_price A (snd e) = fst e" for s
    using levels_wfD [OF wf, of s] sm_get_mem [OF levels_wfD(1) [OF wf, of s]] by auto
  obtain bs where bs: "convert_side S (snap_bids sn) ''bid'' = Inr bs" "contents A bs = contents A (bids b)"
    using convert_side_returns [OF m [of Buy], of "rev (bids b)"] assms(2) by auto
  obtain as where as: "convert_side S (snap_asks sn) ''ask'' = Inr as" "contents A as = contents A (asks b)"
    using convert_side_returns [OF m [of Sell], of "asks b"] assms(3) by auto
  have "collect_ids A (bs @ as) = collect_ids A (bids b) @ collect_ids A (asks b)"
    unfolding contents_ids using bs(2) as(2) by simp
  then have "repeated_id {} (collect_ids A (bs @ as)) = None"
    using all_distinct [OF price_levels_axioms inv] by (simp add: repeated_id_None)
  then show ?thesis using bs as by (simp add: prepare_snapshot_levels_def)
qed

end

lemma placed_resting:
  assumes "levels_wf A ok b"
  shows "resting A b = placed_levels A Buy (bids b) \<union> placed_levels A Sell (asks b)"
proof -
  have "(i, u, p, s) \<in> resting A b \<longleftrightarrow>
      (i, u, p, s) \<in> placed_levels A Buy (bids b) \<union> placed_levels A Sell (asks b)" for i u p s
    unfolding resting_iff sm_get_mem [OF levels_wfD(1) [OF assms]]
    by (cases s) (force simp: placed_levels_def placed_def)+
  then show ?thesis by auto
qed

lemma package_newE:
  assumes "create_snapshot_package S J b depth = (Inr pkg, b1)"
  obtains sn c where "create_snapshot S b depth = (sn, b1)" "snapshot pkg = refresh_aggregates S sn"
    "compute_checksum J (snapshot pkg) = Inr (checksum pkg)" "version pkg = format_version"
    "pk_fee_schedule pkg = fee_schedule_of b1" "pk_stp_mode pkg = stp_mode_of b1" "pk_tick_size pkg = tick_size b1"
    "pk_lot_size pkg = lot_size b1" "pk_min_order_size pkg = min_order_size b1"
    "pk_max_order_size pkg = max_order_size b1" "pk_engine_seq pkg = engine_seq b1"
    "kill_switch_engaged pkg = kill_switch b1" "pk_risk_config pkg = config (risk_state b1)"
    "pk_market_close_timestamp pkg = market_close_timestamp b1" "pk_has_market_close pkg = has_market_close b1"
  using assms by (auto simp: create_snapshot_package_def package_new_def Let_def split: prod.splits sum.splits)

lemma restoreE:
  assumes "restore_from_snapshot_package A S J t pkg = (r, t')"
  obtains (refused) e where "r = Inl e" "t' = t"
  | (restored) pr b1 where "r = Inr ()" "validate_package J pkg = Inr ()" "snap_symbol (snapshot pkg) = symbol t"
      "prepare_snapshot_levels A S (snapshot pkg) = Inr pr" "symbol b1 = symbol t"
      "config (risk_state b1) = pk_risk_config pkg" "risk_orders (risk_state b1) = (\<lambda>_. None)"
      "t' = (commit_restored_levels A b1 pr True)\<lparr>fee_schedule_of := pk_fee_schedule pkg, stp_mode_of := pk_stp_mode pkg,
         tick_size := pk_tick_size pkg, lot_size := pk_lot_size pkg,
         min_order_size := pk_min_order_size pkg, max_order_size := pk_max_order_size pkg,
         engine_seq := pk_engine_seq pkg, kill_switch := kill_switch_engaged pkg,
         market_close_timestamp := pk_market_close_timestamp pkg, has_market_close := pk_has_market_close pkg\<rparr>"
proof (cases "\<exists>pr. into_snapshot J pkg = Inr (snapshot pkg) \<and> ensure_snapshot_symbol t (snapshot pkg) = Inr () \<and>
    prepare_snapshot_levels A S (snapshot pkg) = Inr pr")
  case False
  then have "\<exists>e. (r, t') = (Inl e, t)"
    using assms unfolding restore_from_snapshot_package_def into_snapshot_def
    by (auto split: sum.splits simp: Let_def intro: sym)
  then show ?thesis using refused by blast
next
  case True
  then obtain pr where t: "into_snapshot J pkg = Inr (snapshot pkg)" "ensure_snapshot_symbol t (snapshot pkg) = Inr ()"
    "prepare_snapshot_levels A S (snapshot pkg) = Inr pr" by blast
  define b1 where "b1 = t\<lparr>risk_state := risk_clear (case pk_risk_config pkg of
      Some cfg \<Rightarrow> set_config (risk_state t) cfg | None \<Rightarrow> risk_disable (risk_state t))\<rparr>"
  have "config (risk_state b1) = pk_risk_config pkg" "risk_orders (risk_state b1) = (\<lambda>_. None)" "symbol b1 = symbol t"
    by (simp_all add: b1_def risk_clear_def set_config_def risk_disable_def split: option.splits)
  moreover have "validate_package J pkg = Inr ()" using t(1) by (simp add: into_snapshot_def split: sum.splits)
  moreover have "snap_symbol (snapshot pkg) = symbol t"
    using t(2) by (simp add: ensure_snapshot_symbol_def split: if_splits)
  ultimately show ?thesis
    using assms t by (intro restored [of pr b1]) (auto simp: restore_from_snapshot_package_def b1_def Let_def)
qed

lemma settings_keep:
  assumes "b' = b\<lparr>fee_schedule_of := f, stp_mode_of := m, tick_size := ti, lot_size := lo, min_order_size := mi,
    max_order_size := ma, engine_seq := n, kill_switch := k, market_close_timestamp := c, has_market_close := h\<rparr>"
  shows "book_inv A ok b \<Longrightarrow> book_inv A ok b'" "resting A b' = resting A b"
proof -
  show "book_inv A ok b \<Longrightarrow> book_inv A ok b'" by (erule settings_inv) (simp_all add: assms)
  have "levels b' = levels b" by (rule levels_cong) (simp_all add: assms)
  then show "resting A b' = resting A b" by (rule resting_cong)
qed

lemma validate_Inr:
  "validate_package J pkg = Inr () \<longleftrightarrow> min_read_version \<le> version pkg \<and> version pkg \<le> format_version \<and>
     compute_checksum J (snapshot pkg) = Inr (checksum pkg)"
  by (auto simp: validate_package_def split: sum.splits)

section \<open>The reference level\<close>

text \<open>A snapshot of the reference level is the level; a repeated id is refused.\<close>

definition fifo_snapshots :: "(fifo_level, fifo_level) snapshot_api" where
  "fifo_snapshots =
     \<lparr>level_snapshot = (\<lambda>l. l), from_snapshot = (\<lambda>x. if distinct (map oid (fl_orders x)) then Inr x else Inl 0),
      sn_refresh = (\<lambda>x. x), sn_price = fl_price, sn_visible = level_visible fifo, sn_hidden = level_hidden fifo,
      sn_count = order_count fifo, sn_orders = fl_orders,
      sn_statistics = (\<lambda>_. \<lparr>orders_added = 0, orders_removed = 0, orders_executed = 0, quantity_executed = 0,
        value_executed = 0, stats_degraded = False\<rparr>)\<rparr>"

interpretation fifo_snap: level_snapshots fifo fifo_ok fifo_snapshots
  by unfold_locales (auto simp: fifo_snapshots_def fifo_def fifo_ok_def split: if_splits)

text \<open>A codec for the witnesses: the payload is the prices of the bids, one byte each.\<close>

definition demo_codec :: "fifo_level snapshot_codec" where
  "demo_codec =
     \<lparr>json_vec = (\<lambda>sn. Inr (map (\<lambda>l. of_nat (fl_price l)) (snap_bids sn))), sha256 = (\<lambda>x. x),
      package_json = (\<lambda>_. Inl ''no json''), package_of_json = (\<lambda>_. Inl ''no json'')\<rparr>"

abbreviation demo_package :: "fifo_level snapshot_package" where
  "demo_package \<equiv> projr (fst (create_snapshot_package fifo_snapshots demo_codec demo_book 10))"

lemma demo_package_made: "\<exists>b1. create_snapshot_package fifo_snapshots demo_codec demo_book 10 = (Inr demo_package, b1)"
proof -
  have "\<not> isl (fst (create_snapshot_package fifo_snapshots demo_codec demo_book 10))" by code_simp
  then show ?thesis by (metis prod.collapse sum.collapse(2))
qed

section \<open>Properties\<close>

text \<open>C14: a restore is all or nothing.  A package that is refused leaves the whole book as it was.  A
  package that is accepted carries a supported version and the checksum of its snapshot, and, when no
  level of the snapshot is empty, leaves a consistent book in which exactly the orders of the snapshot
  rest, each at the price of its level; with a risk configuration, exactly those orders are tracked.\<close>

theorem restore_all_or_nothing:
  assumes "level_snapshots A ok S" "restore_from_snapshot_package A S J t pkg = (r, t')"
    and "\<forall>x \<in> set (snap_bids (snapshot pkg) @ snap_asks (snapshot pkg)). sn_orders S x \<noteq> []"
  shows "case r of
      Inl e \<Rightarrow> t' = t
    | Inr _ \<Rightarrow> book_inv A ok t' \<and> 2 \<le> version pkg \<and> version pkg \<le> 3 \<and>
        compute_checksum J (snapshot pkg) = Inr (checksum pkg) \<and> symbol t = snap_symbol (snapshot pkg) \<and>
        resting A t' =
          (\<Union>x \<in> set (snap_bids (snapshot pkg)). placed (sn_price S x) Buy (sn_orders S x)) \<union>
          (\<Union>x \<in> set (snap_asks (snapshot pkg)). placed (sn_price S x) Sell (sn_orders S x)) \<and>
        (pk_risk_config pkg \<noteq> None \<longrightarrow> dom (risk_orders (risk_state t')) = fst ` resting A t')"
  using assms(2)
proof (cases rule: restoreE)
  case (restored pr b1)
  note P = level_snapshots.prepared_is_ok [OF assms(1) restored(4)]
  let ?c = "commit_restored_levels A b1 pr True"
  have ne: "\<forall>e \<in> set (prepared_bids pr @ prepared_asks pr). snapshot_by_seq A (snd e) \<noteq> []"
    using assms(3) contents_nonempty [of "prepared_bids pr" A] contents_nonempty [of "prepared_asks pr" A]
    unfolding P(2,3) by auto
  note C = commit_inv [OF P(1) ne, of b1 True] and K = settings_keep [OF restored(8)]
  have R: "resting A t' = (\<Union>x \<in> set (snap_bids (snapshot pkg)). placed (sn_price S x) Buy (sn_orders S x)) \<union>
      (\<Union>x \<in> set (snap_asks (snapshot pkg)). placed (sn_price S x) Sell (sn_orders S x))"
    unfolding K(2) C(2) contents_placed P(2,3) by simp
  have "dom (risk_orders (risk_state t')) = fst ` resting A t'" if "pk_risk_config pkg \<noteq> None"
  proof -
    have "dom (risk_orders (risk_state ?c)) = set (collect_ids A (prepared_bids pr @ prepared_asks pr))"
      using commit_risk [OF P(1), of b1] that restored(6,7) by simp
    then show ?thesis unfolding K(2) C(2) image_Un placed_ids using restored(8) by (simp add: collect_ids_def)
  qed
  then show ?thesis
    using restored(1-3) K(1) [OF C(1)] R by (simp add: validate_Inr min_read_version_def format_version_def)
qed simp

theorem restore_all_or_nothing_witness:
  "\<exists>t'. restore_from_snapshot_package fifo fifo_snapshots demo_codec demo_book demo_package = (Inr (), t') \<and>
     book_inv fifo fifo_ok t' \<and> resting fifo t' \<noteq> {}"
proof -
  let ?r = "restore_from_snapshot_package fifo fifo_snapshots demo_codec demo_book demo_package"
  have "\<forall>x \<in> set (snap_bids (snapshot demo_package) @ snap_asks (snapshot demo_package)). fl_orders x \<noteq> []"
    by code_simp
  then have ne: "\<forall>x \<in> set (snap_bids (snapshot demo_package) @ snap_asks (snapshot demo_package)).
      sn_orders fifo_snapshots x \<noteq> []" by (simp add: fifo_snapshots_def)
  have "\<not> isl (fst ?r)" by code_simp
  then obtain t' where r: "?r = (Inr (), t')" by (metis prod.collapse sum.collapse(2) unit.exhaust)
  have "snap_bids (snapshot demo_package) = [bid_98]" by code_simp
  then show ?thesis
    using restore_all_or_nothing [OF fifo_snap.level_snapshots_axioms r ne] r
    by (auto simp: placed_def fifo_snapshots_def bid_98_def)
qed

lemma package_accepted:
  assumes "level_snapshots A ok S" "book_inv A ok b" "length (bids b) \<le> depth" "length (asks b) \<le> depth"
    and "create_snapshot_package S J b depth = (Inr pkg, b1)" "symbol t = symbol b"
  obtains pr t' where "prepare_snapshot_levels A S (snapshot pkg) = Inr pr"
    "contents A (prepared_bids pr) = contents A (bids b)" "contents A (prepared_asks pr) = contents A (asks b)"
    "restore_from_snapshot_package A S J t pkg = (Inr (), t')"
proof -
  have wf: "levels_wf A ok b" using assms(2) by (simp add: book_inv_def)
  from assms(5) obtain sn where cr: "create_snapshot S b depth = (sn, b1)" and pk: "snapshot pkg = refresh_aggregates S sn"
    and sum: "compute_checksum J (snapshot pkg) = Inr (checksum pkg)" "version pkg = format_version"
    by (rule package_newE)
  note F = create_snapshot_full [OF wf assms(3,4) cr]
  have "snap_bids (snapshot pkg) = map (\<lambda>e. sn_refresh S (level_snapshot S (snd e))) (rev (bids b))"
    "snap_asks (snapshot pkg) = map (\<lambda>e. sn_refresh S (level_snapshot S (snd e))) (asks b)"
    by (simp_all add: pk refresh_aggregates_def F)
  from level_snapshots.prepare_returns [OF assms(1,2) this] obtain pr
    where pr: "prepare_snapshot_levels A S (snapshot pkg) = Inr pr"
    and ct: "contents A (prepared_bids pr) = contents A (bids b)" "contents A (prepared_asks pr) = contents A (asks b)"
    by blast
  have "snap_symbol (snapshot pkg) = symbol t" by (simp add: pk refresh_aggregates_def F assms(6))
  moreover have "validate_package J pkg = Inr ()" using sum by (simp add: validate_Inr min_read_version_def format_version_def)
  moreover obtain r t' where run: "restore_from_snapshot_package A S J t pkg = (r, t')" by fastforce
  ultimately have "r = Inr ()"
    using pr by (auto simp: restore_from_snapshot_package_def into_snapshot_def ensure_snapshot_symbol_def Let_def)
  then show ?thesis using that pr ct run by blast
qed

lemma package_fields:
  assumes "create_snapshot_package S J b depth = (Inr pkg, b1)"
  shows "pk_fee_schedule pkg = fee_schedule_of b" "pk_stp_mode pkg = stp_mode_of b" "pk_tick_size pkg = tick_size b"
    "pk_lot_size pkg = lot_size b" "pk_min_order_size pkg = min_order_size b" "pk_max_order_size pkg = max_order_size b"
    "pk_engine_seq pkg = engine_seq b" "kill_switch_engaged pkg = kill_switch b"
    "pk_risk_config pkg = config (risk_state b)" "pk_market_close_timestamp pkg = market_close_timestamp b"
    "pk_has_market_close pkg = has_market_close b"
  using assms
  by (auto simp: create_snapshot_package_def create_snapshot_def package_new_def Let_def split: prod.splits sum.splits)

text \<open>C13: taking a snapshot and restoring it gives the book back.  A package of a consistent book, taken
  deep enough to hold all levels, is accepted by every book with the same symbol; the restored book is
  consistent and has on each side the same prices with the same orders in the same queue order, the
  same settings, sequence counter, kill switch, risk configuration and market close.  The last trade
  price is not part of a package.\<close>

theorem snapshot_roundtrip:
  assumes "level_snapshots A ok S" "book_inv A ok b" "length (bids b) \<le> depth" "length (asks b) \<le> depth"
    and "create_snapshot_package S J b depth = (Inr pkg, b1)" "symbol t = symbol b"
  shows "\<exists>t'. restore_from_snapshot_package A S J t pkg = (Inr (), t') \<and> book_inv A ok t' \<and>
    (\<forall>s. contents A (levels t' s) = contents A (levels b s)) \<and> resting A t' = resting A b \<and>
    tick_size t' = tick_size b \<and> lot_size t' = lot_size b \<and> min_order_size t' = min_order_size b \<and>
    max_order_size t' = max_order_size b \<and> stp_mode_of t' = stp_mode_of b \<and>
    fee_schedule_of t' = fee_schedule_of b \<and> engine_seq t' = engine_seq b \<and> kill_switch t' = kill_switch b \<and>
    config (risk_state t') = config (risk_state b) \<and> market_close_timestamp t' = market_close_timestamp b \<and>
    has_market_close t' = has_market_close b \<and> last_trade_price t' = None"
proof -
  have wf: "levels_wf A ok b" and no: "no_empty A b" using assms(2) by (simp_all add: book_inv_def)
  from assms obtain pr t' where pr: "prepare_snapshot_levels A S (snapshot pkg) = Inr pr"
    and ct: "contents A (prepared_bids pr) = contents A (bids b)" "contents A (prepared_asks pr) = contents A (asks b)"
    and run: "restore_from_snapshot_package A S J t pkg = (Inr (), t')" by (rule package_accepted)
  note ok = level_snapshots.prepared_is_ok(1) [OF assms(1) pr] and fields = package_fields [OF assms(5)]
  from run show ?thesis
  proof (cases rule: restoreE)
    case (restored pr' b2)
    then have pr': "pr' = pr" using pr by simp
    let ?c = "commit_restored_levels A b2 pr True"
    have get: "e \<in> set (levels b s) \<Longrightarrow> snapshot_by_seq A (snd e) \<noteq> []" for s e
      using no sm_get_mem [OF levels_wfD(1) [OF wf, of s]] unfolding no_empty_def by (metis prod.collapse)
    have ne: "\<forall>e \<in> set (prepared_bids pr @ prepared_asks pr). snapshot_by_seq A (snd e) \<noteq> []"
      using contents_nonempty [of "prepared_bids pr" A] contents_nonempty [of "prepared_asks pr" A]
        contents_nonempty [of "bids b" A] contents_nonempty [of "asks b" A] get [of _ Buy] get [of _ Sell]
      unfolding ct by auto
    note C = commit_inv [OF ok ne, of b2 True] and L = commit_levels [OF ok, of b2 True]
      and K = settings_keep [OF restored(8) [unfolded pr']]
    have "resting A t' = resting A b"
      unfolding K(2) C(2) placed_resting [OF wf] contents_placed ct ..
    moreover have "contents A (levels t' s) = contents A (levels b s)" for s
      using ct L(1,2) restored(8) pr' by (cases s) simp_all
    ultimately show ?thesis
      using run restored(1,8) pr' K(1) [OF C(1)] L(4,5) restored(6) fields
      by (intro exI [of _ t']) (simp add: last_trade_price_def)
  qed simp
qed

theorem snapshot_roundtrip_witness:
  "\<exists>t'. restore_from_snapshot_package fifo fifo_snapshots demo_codec (with_clock ''DEMO'' stub_new 7) demo_package = (Inr (), t') \<and>
     book_inv fifo fifo_ok t' \<and> resting fifo t' = {(1, 7, 100, Sell), (2, 8, 100, Sell), (3, 7, 101, Sell), (4, 9, 98, Buy)}"
proof -
  obtain b1 where pk: "create_snapshot_package fifo_snapshots demo_codec demo_book 10 = (Inr demo_package, b1)"
    using demo_package_made ..
  have s: "symbol (with_clock ''DEMO'' stub_new 7 :: (fifo_level, nat) book) = symbol demo_book" by (simp add: demo_defs)
  show ?thesis
    using snapshot_roundtrip [OF fifo_snap.level_snapshots_axioms demo_book_inv _ _ pk s] unfolding demo_resting
    by (auto simp: demo_book_def)
qed

end
