(* ===== verification/Sequencer.thy ===== *)
theory Sequencer
  imports Snapshot
begin

text \<open>
  The sequencer's journal and its replay, \<open>src/orderbook/sequencer\<close>: commands, results and events
  (\<open>types.rs\<close>), the \<open>Journal\<close> trait as a record of its methods (\<open>journal.rs\<close>), the in-memory journal
  (\<open>in_memory_journal.rs\<close>) and the replay engine (\<open>replay.rs\<close>).  The locale \<open>event_journal\<close> is what the
  replay relies on.  \<open>OrderBook::new\<close> takes the wall clock and a random namespace for trade ids: the
  readings \<open>w\<close> and the generator \<open>g\<close> are parameters, as is the generator of a given namespace.
\<close>

section \<open>Commands, results, events\<close>

datatype 'x sequencer_command =
    AddOrder "'x order_type"
  | CancelOrderCmd ident
  | UpdateOrder order_update
  | MarketOrder ident u64 side
  | MarketOrderByAmount ident u128 side
  | CancelAll
  | CancelBySide side
  | CancelByUser hash32
  | CancelByPriceRange side u128 u128
  | EvictExpiredOrders u64

datatype sequencer_result =
    OrderAdded ident
  | OrderCancelled ident
  | OrderUpdated ident
  | TradeExecuted trade_result
  | MassCancelled mass_cancel_result
  | CommandRejected string

record 'x sequencer_event =
  sequence_num :: u64
  timestamp_ns :: u64
  command :: "'x sequencer_command"
  result :: sequencer_result

definition rejected :: "'x sequencer_event \<Rightarrow> bool" where
  "rejected ev = (case result ev of CommandRejected _ \<Rightarrow> True | _ \<Rightarrow> False)"

datatype journal_error =
    JournalIo string "string option"
  | CorruptEntry u64 u32 u32
  | EntryDeserialization u64 string
  | EntrySerialization string
  | EntryTooLarge usize usize
  | InvalidDirectory string
  | MutexPoisoned
  | SequenceNotFound u64
  | InvalidEntryHeader usize string
  | CounterOverflow string

record 'x journal_entry =
  event :: "'x sequencer_event"
  stored_crc :: u32

record ('j, 'x) journal_api =
  j_append :: "'j \<Rightarrow> 'x sequencer_event \<Rightarrow> (journal_error + unit) \<times> 'j"
  j_read_from :: "'j \<Rightarrow> u64 \<Rightarrow> journal_error + (journal_error + 'x journal_entry) list"
  j_last_sequence :: "'j \<Rightarrow> u64 option"
  j_verify_integrity :: "'j \<Rightarrow> journal_error + unit"

section \<open>The in-memory journal\<close>

text \<open>The lock is poisoned when a writer panicked while holding it.\<close>

record 'x in_memory_journal =
  events :: "'x sequencer_event list"
  poisoned :: bool

definition memory_new :: "'x in_memory_journal" where
  "memory_new = \<lparr>events = [], poisoned = False\<rparr>"

definition memory_len :: "'x in_memory_journal \<Rightarrow> usize" where
  "memory_len j = (if poisoned j then 0 else length (events j))"

definition memory_is_empty :: "'x in_memory_journal \<Rightarrow> bool" where
  "memory_is_empty j = (if poisoned j then True else events j = [])"

definition memory_append ::
    "'x in_memory_journal \<Rightarrow> 'x sequencer_event \<Rightarrow> (journal_error + unit) \<times> 'x in_memory_journal" where
  "memory_append j ev =
     (if poisoned j then (Inl (JournalIo ''failed to acquire write lock'' None), j)
      else (Inr (), j\<lparr>events := events j @ [ev]\<rparr>))"

definition memory_read_from ::
    "'x in_memory_journal \<Rightarrow> u64 \<Rightarrow> journal_error + (journal_error + 'x journal_entry) list" where
  "memory_read_from j seq =
     (if poisoned j then Inl (JournalIo ''failed to acquire read lock'' None)
      else Inr (map (\<lambda>ev. Inr \<lparr>event = ev, stored_crc = 0\<rparr>) (filter (\<lambda>ev. seq \<le> sequence_num ev) (events j))))"

definition memory_last_sequence :: "'x in_memory_journal \<Rightarrow> u64 option" where
  "memory_last_sequence j =
     (if poisoned j \<or> events j = [] then None else Some (sequence_num (last (events j))))"

definition memory_verify_integrity :: "'x in_memory_journal \<Rightarrow> journal_error + unit" where
  "memory_verify_integrity j = Inr ()"

definition in_memory :: "('x in_memory_journal, 'x) journal_api" where
  "in_memory = \<lparr>j_append = memory_append, j_read_from = memory_read_from,
     j_last_sequence = memory_last_sequence, j_verify_integrity = memory_verify_integrity\<rparr>"

section \<open>Replay\<close>

record 'n replay_book_config =
  rc_fee_schedule :: "fee_schedule option"
  rc_stp_mode :: stp_mode
  rc_tick_size :: "u128 option"
  rc_lot_size :: "u64 option"
  rc_min_order_size :: "u64 option"
  rc_max_order_size :: "u64 option"
  trade_id_namespace :: "'n option"

definition replay_config_new ::
    "fee_schedule option \<Rightarrow> stp_mode \<Rightarrow> u128 option \<Rightarrow> u64 option \<Rightarrow> u64 option \<Rightarrow> u64 option \<Rightarrow> 'n replay_book_config" where
  "replay_config_new fees mode tick lot mn mx =
     \<lparr>rc_fee_schedule = fees, rc_stp_mode = mode, rc_tick_size = tick, rc_lot_size = lot,
      rc_min_order_size = mn, rc_max_order_size = mx, trade_id_namespace = None\<rparr>"

definition with_trade_id_namespace :: "'n replay_book_config \<Rightarrow> 'n \<Rightarrow> 'n replay_book_config" where
  "with_trade_id_namespace cfg ns = cfg\<lparr>trade_id_namespace := Some ns\<rparr>"

definition set_tick_size_opt :: "('l, 'g) book \<Rightarrow> u128 option \<Rightarrow> ('l, 'g) book" where
  "set_tick_size_opt b t = b\<lparr>tick_size := t\<rparr>"

definition set_lot_size_opt :: "('l, 'g) book \<Rightarrow> u64 option \<Rightarrow> ('l, 'g) book" where
  "set_lot_size_opt b t = b\<lparr>lot_size := t\<rparr>"

definition set_trade_id_namespace :: "('n \<Rightarrow> 'g) \<Rightarrow> ('l, 'g) book \<Rightarrow> 'n \<Rightarrow> ('l, 'g) book" where
  "set_trade_id_namespace generator b ns = b\<lparr>transaction_id_generator := generator ns\<rparr>"

definition apply_to :: "('n \<Rightarrow> 'g) \<Rightarrow> 'n replay_book_config \<Rightarrow> ('l, 'g) book \<Rightarrow> ('l, 'g) book" where
  "apply_to generator cfg b =
     (let b1 = set_fee_schedule b (rc_fee_schedule cfg);
          b2 = set_stp_mode b1 (rc_stp_mode cfg);
          b3 = set_tick_size_opt b2 (rc_tick_size cfg);
          b4 = set_lot_size_opt b3 (rc_lot_size cfg);
          b5 = (case rc_min_order_size cfg of Some m \<Rightarrow> set_min_order_size b4 m | None \<Rightarrow> b4);
          b6 = (case rc_max_order_size cfg of Some m \<Rightarrow> set_max_order_size b5 m | None \<Rightarrow> b5)
      in case trade_id_namespace cfg of Some ns \<Rightarrow> set_trade_id_namespace generator b6 ns | None \<Rightarrow> b6)"

datatype replay_error =
    EmptyJournal
  | InvalidSequence u64 u64
  | SequenceGap u64 u64
  | SequenceOverflow u64
  | ReplayBookError u64 order_book_error
  | NamespaceRequiresFullReplay u64
  | SnapshotMismatch
  | ReplayJournalError journal_error

text \<open>\<open>map_err(|e| ReplayError::OrderBookError {..})?\<close>: the value is dropped.\<close>

definition at_sequence :: "u64 \<Rightarrow> (order_book_error + 'r) \<times> ('l, 'g) book \<Rightarrow> (replay_error + unit) \<times> ('l, 'g) book" where
  "at_sequence n x = (case x of (Inl e, b) \<Rightarrow> (Inl (ReplayBookError n e), b) | (Inr _, b) \<Rightarrow> (Inr (), b))"

definition apply_event ::
    "('l, 'g) pricelevel_api \<Rightarrow> 'x \<Rightarrow> ('l, 'g) book \<Rightarrow> 'x sequencer_event \<Rightarrow> (replay_error + unit) \<times> ('l, 'g) book" where
  "apply_event A d b ev =
     (if rejected ev then (Inr (), b)
      else case command ev of
        AddOrder order \<Rightarrow> at_sequence (sequence_num ev) (add_order A d b order)
      | CancelOrderCmd i \<Rightarrow> at_sequence (sequence_num ev) (cancel_order A d b i)
      | UpdateOrder update \<Rightarrow> at_sequence (sequence_num ev) (update_order A d b update)
      | MarketOrder i quantity s \<Rightarrow> at_sequence (sequence_num ev) (submit_market_order A b i quantity s)
      | MarketOrderByAmount i amount s \<Rightarrow> at_sequence (sequence_num ev) (submit_market_order_by_amount A b i amount s)
      | CancelAll \<Rightarrow> (Inr (), snd (cancel_all_orders A b))
      | CancelBySide s \<Rightarrow> (Inr (), snd (cancel_orders_by_side A d b s))
      | CancelByUser user \<Rightarrow> (Inr (), snd (cancel_orders_by_user A d b user))
      | CancelByPriceRange s lo hi \<Rightarrow> (Inr (), snd (cancel_orders_by_price_range A d b s lo hi))
      | EvictExpiredOrders now \<Rightarrow> (Inr (), snd (evict_expired_orders A d b now)))"

text \<open>The loop of \<open>replay_into\<close>.  The middle component is the calls of \<open>progress\<close>.\<close>

fun replay_loop ::
    "('l, 'g) pricelevel_api \<Rightarrow> 'x \<Rightarrow> (journal_error + 'x journal_entry) list \<Rightarrow> u64 \<Rightarrow> u64 \<Rightarrow> u64 \<Rightarrow> ('l, 'g) book \<Rightarrow>
      (replay_error + u64) \<times> (u64 \<times> u64) list \<times> ('l, 'g) book" where
  "replay_loop A d [] expected last_applied applied b = (Inr last_applied, [], b)"
| "replay_loop A d (Inl err # es) expected last_applied applied b = (Inl (ReplayJournalError err), [], b)"
| "replay_loop A d (Inr entry # es) expected last_applied applied b =
     (let ev = event entry in
      if sequence_num ev \<noteq> expected then (Inl (SequenceGap expected (sequence_num ev)), [], b)
      else case apply_event A d b ev of
        (Inl e, b1) \<Rightarrow> (Inl e, [], b1)
      | (Inr _, b1) \<Rightarrow>
          (case checked_add64 expected 1 of
             None \<Rightarrow> (Inl (SequenceOverflow expected), [], b1)
           | Some expected' \<Rightarrow>
               (if rejected ev then replay_loop A d es expected' last_applied applied b1
                else case checked_add64 applied 1 of
                  None \<Rightarrow> (Inl (SequenceOverflow applied), [], b1)
                | Some applied' \<Rightarrow>
                    (let (r, calls, b2) = replay_loop A d es expected' (sequence_num ev) applied' b1
                     in (r, (applied', sequence_num ev) # calls, b2)))))"

definition replay_into ::
    "('l, 'g) pricelevel_api \<Rightarrow> 'x \<Rightarrow> ('j, 'x) journal_api \<Rightarrow> ('l, 'g) book \<Rightarrow> 'j \<Rightarrow> u64 \<Rightarrow>
      (replay_error + u64) \<times> (u64 \<times> u64) list \<times> ('l, 'g) book" where
  "replay_into A d J b j from =
     (case j_read_from J j from of
        Inl err \<Rightarrow> (Inl (ReplayJournalError err), [], b)
      | Inr es \<Rightarrow> replay_loop A d es from 0 0 b)"

text \<open>The range check that opens every entry point, and the tail that returns the book.\<close>

definition check_range :: "('j, 'x) journal_api \<Rightarrow> 'j \<Rightarrow> u64 \<Rightarrow> replay_error + unit" where
  "check_range J j from =
     (case j_last_sequence J j of
        None \<Rightarrow> Inl EmptyJournal
      | Some last_seq \<Rightarrow> (if last_seq < from then Inl (InvalidSequence from last_seq) else Inr ()))"

definition with_book ::
    "(replay_error + u64) \<times> (u64 \<times> u64) list \<times> ('l, 'g) book \<Rightarrow> (replay_error + ('l, 'g) book \<times> u64) \<times> (u64 \<times> u64) list" where
  "with_book x = (case x of (Inl e, calls, b) \<Rightarrow> (Inl e, calls) | (Inr n, calls, b) \<Rightarrow> (Inr (b, n), calls))"

definition replay_from_with_clock_and_progress ::
    "('l, 'g) pricelevel_api \<Rightarrow> 'x \<Rightarrow> ('j, 'x) journal_api \<Rightarrow> 'g \<Rightarrow> 'j \<Rightarrow> u64 \<Rightarrow> string \<Rightarrow> clock \<Rightarrow>
      (replay_error + ('l, 'g) book \<times> u64) \<times> (u64 \<times> u64) list" where
  "replay_from_with_clock_and_progress A d J g j from sy c =
     (case check_range J j from of
        Inl e \<Rightarrow> (Inl e, [])
      | Inr _ \<Rightarrow> with_book (replay_into A d J (with_clock sy c g) j from))"

definition replay_from_with_clock ::
    "('l, 'g) pricelevel_api \<Rightarrow> 'x \<Rightarrow> ('j, 'x) journal_api \<Rightarrow> 'g \<Rightarrow> 'j \<Rightarrow> u64 \<Rightarrow> string \<Rightarrow> clock \<Rightarrow>
      replay_error + ('l, 'g) book \<times> u64" where
  "replay_from_with_clock A d J g j from sy c = fst (replay_from_with_clock_and_progress A d J g j from sy c)"

definition replay_from_with_progress ::
    "('l, 'g) pricelevel_api \<Rightarrow> 'x \<Rightarrow> ('j, 'x) journal_api \<Rightarrow> (nat \<Rightarrow> u64) \<Rightarrow> 'g \<Rightarrow> 'j \<Rightarrow> u64 \<Rightarrow> string \<Rightarrow>
      (replay_error + ('l, 'g) book \<times> u64) \<times> (u64 \<times> u64) list" where
  "replay_from_with_progress A d J w g j from sy =
     (case check_range J j from of
        Inl e \<Rightarrow> (Inl e, [])
      | Inr _ \<Rightarrow> with_book (replay_into A d J (with_clock sy (MonotonicClock w 0) g) j from))"

definition replay_from ::
    "('l, 'g) pricelevel_api \<Rightarrow> 'x \<Rightarrow> ('j, 'x) journal_api \<Rightarrow> (nat \<Rightarrow> u64) \<Rightarrow> 'g \<Rightarrow> 'j \<Rightarrow> u64 \<Rightarrow> string \<Rightarrow>
      replay_error + ('l, 'g) book \<times> u64" where
  "replay_from A d J w g j from sy = fst (replay_from_with_progress A d J w g j from sy)"

definition check_namespace_full_replay :: "u64 \<Rightarrow> 'n replay_book_config \<Rightarrow> replay_error + unit" where
  "check_namespace_full_replay from cfg =
     (if from \<noteq> 0 \<and> trade_id_namespace cfg \<noteq> None then Inl (NamespaceRequiresFullReplay from) else Inr ())"

definition replay_from_with_clock_and_config ::
    "('l, 'g) pricelevel_api \<Rightarrow> 'x \<Rightarrow> ('j, 'x) journal_api \<Rightarrow> ('n \<Rightarrow> 'g) \<Rightarrow> 'g \<Rightarrow> 'j \<Rightarrow> u64 \<Rightarrow> string \<Rightarrow> clock \<Rightarrow>
      'n replay_book_config \<Rightarrow> replay_error + ('l, 'g) book \<times> u64" where
  "replay_from_with_clock_and_config A d J generator g j from sy c cfg =
     (case check_range J j from of
        Inl e \<Rightarrow> Inl e
      | Inr _ \<Rightarrow>
          (case check_namespace_full_replay from cfg of
             Inl e \<Rightarrow> Inl e
           | Inr _ \<Rightarrow> fst (with_book (replay_into A d J (apply_to generator cfg (with_clock sy c g)) j from))))"

definition replay_from_with_config ::
    "('l, 'g) pricelevel_api \<Rightarrow> 'x \<Rightarrow> ('j, 'x) journal_api \<Rightarrow> ('n \<Rightarrow> 'g) \<Rightarrow> (nat \<Rightarrow> u64) \<Rightarrow> 'g \<Rightarrow> 'j \<Rightarrow> u64 \<Rightarrow> string \<Rightarrow>
      'n replay_book_config \<Rightarrow> replay_error + ('l, 'g) book \<times> u64" where
  "replay_from_with_config A d J generator w g j from sy cfg =
     (case check_range J j from of
        Inl e \<Rightarrow> Inl e
      | Inr _ \<Rightarrow>
          (case check_namespace_full_replay from cfg of
             Inl e \<Rightarrow> Inl e
           | Inr _ \<Rightarrow> fst (with_book (replay_into A d J
               (apply_to generator cfg (with_clock sy (MonotonicClock w 0) g)) j from))))"

section \<open>Comparing snapshots\<close>

definition levels_match :: "('l, 's) snapshot_api \<Rightarrow> 's \<Rightarrow> 's \<Rightarrow> bool" where
  "levels_match S x y =
     (if sn_price S x \<noteq> sn_price S y \<or> sn_visible S x \<noteq> sn_visible S y \<or> sn_hidden S x \<noteq> sn_hidden S y \<or>
         sn_count S x \<noteq> sn_count S y then False
      else if sn_orders S x \<noteq> sn_orders S y then False
      else let p = sn_statistics S x; q = sn_statistics S y in
        orders_added p = orders_added q \<and> orders_removed p = orders_removed q \<and>
        orders_executed p = orders_executed q \<and> quantity_executed p = quantity_executed q \<and>
        value_executed p = value_executed q \<and> stats_degraded p = stats_degraded q)"

definition sides_match :: "('l, 's) snapshot_api \<Rightarrow> 's list \<Rightarrow> 's list \<Rightarrow> bool" where
  "sides_match S xs ys =
     (if length xs \<noteq> length ys then False
      else list_all (\<lambda>(x, y). levels_match S x y) (zip (sort_key (sn_price S) xs) (sort_key (sn_price S) ys)))"

definition snapshots_match :: "('l, 's) snapshot_api \<Rightarrow> 's order_book_snapshot \<Rightarrow> 's order_book_snapshot \<Rightarrow> bool" where
  "snapshots_match S x y =
     (if snap_symbol x \<noteq> snap_symbol y then False
      else sides_match S (snap_bids x) (snap_bids y) \<and> sides_match S (snap_asks x) (snap_asks y))"

definition verify_replay ::
    "('l, 'g) pricelevel_api \<Rightarrow> ('l, 's) snapshot_api \<Rightarrow> 'x \<Rightarrow> ('j, 'x) journal_api \<Rightarrow> (nat \<Rightarrow> u64) \<Rightarrow> 'g \<Rightarrow> 'j \<Rightarrow>
      's order_book_snapshot \<Rightarrow> replay_error + bool" where
  "verify_replay A S d J w g j expected =
     (case replay_from A d J w g j 0 (snap_symbol expected) of
        Inl e \<Rightarrow> Inl e
      | Inr (b, _) \<Rightarrow> Inr (snapshots_match S (fst (create_snapshot S b u64_max)) expected))"

section \<open>The journal contract\<close>

locale event_journal =
  fixes J :: "('j, 'x) journal_api"
    and log :: "'j \<Rightarrow> 'x sequencer_event list"
    and crc :: "'x sequencer_event \<Rightarrow> u32"
    and up :: "'j \<Rightarrow> bool"
  assumes append_up: "up j \<Longrightarrow> \<exists>j'. j_append J j ev = (Inr (), j') \<and> up j' \<and> log j' = log j @ [ev]"
    and append_down: "\<not> up j \<Longrightarrow> \<exists>e. j_append J j ev = (Inl e, j)"
    and read_up: "up j \<Longrightarrow> j_read_from J j n =
      Inr (map (\<lambda>ev. Inr \<lparr>event = ev, stored_crc = crc ev\<rparr>) (filter (\<lambda>ev. n \<le> sequence_num ev) (log j)))"
    and last_up: "up j \<Longrightarrow> j_last_sequence J j = (if log j = [] then None else Some (sequence_num (last (log j))))"
    and last_down: "\<not> up j \<Longrightarrow> j_last_sequence J j = None"
begin

lemma check_range_Inr:
  "check_range J j from = Inr () \<longleftrightarrow> up j \<and> log j \<noteq> [] \<and> from \<le> sequence_num (last (log j))"
  by (cases "up j") (auto simp: check_range_def last_up last_down)

lemma replay_into_up:
  "up j \<Longrightarrow> replay_into A d J b j from = replay_loop A d
     (map (\<lambda>ev. Inr \<lparr>event = ev, stored_crc = crc ev\<rparr>) (filter (\<lambda>ev. from \<le> sequence_num ev) (log j))) from 0 0 b"
  by (simp add: replay_into_def read_up)

end

interpretation mem: event_journal in_memory events "\<lambda>_. 0" "\<lambda>j. \<not> poisoned j"
  by unfold_locales (simp_all add: in_memory_def memory_append_def memory_read_from_def memory_last_sequence_def)

section \<open>What a replay does\<close>

text \<open>A command the book accepts, and the book it leaves.\<close>

inductive executes ::
    "('l, 'g) pricelevel_api \<Rightarrow> 'x \<Rightarrow> ('l, 'g) book \<Rightarrow> 'x sequencer_command \<Rightarrow> ('l, 'g) book \<Rightarrow> bool"
  for A :: "('l, 'g) pricelevel_api" and d :: 'x and b :: "('l, 'g) book" where
  exec_add: "add_order A d b od = (Inr r, b') \<Longrightarrow> executes A d b (AddOrder od) b'"
| exec_cancel: "cancel_order A d b i = (Inr r, b') \<Longrightarrow> executes A d b (CancelOrderCmd i) b'"
| exec_update: "update_order A d b upd = (Inr r, b') \<Longrightarrow> executes A d b (UpdateOrder upd) b'"
| exec_market: "submit_market_order A b i q s = (Inr r, b') \<Longrightarrow> executes A d b (MarketOrder i q s) b'"
| exec_amount: "submit_market_order_by_amount A b i a s = (Inr r, b') \<Longrightarrow> executes A d b (MarketOrderByAmount i a s) b'"
| exec_all: "cancel_all_orders A b = (m, b') \<Longrightarrow> executes A d b CancelAll b'"
| exec_side: "cancel_orders_by_side A d b s = (m, b') \<Longrightarrow> executes A d b (CancelBySide s) b'"
| exec_user: "cancel_orders_by_user A d b u = (m, b') \<Longrightarrow> executes A d b (CancelByUser u) b'"
| exec_range: "cancel_orders_by_price_range A d b s lo hi = (m, b') \<Longrightarrow> executes A d b (CancelByPriceRange s lo hi) b'"
| exec_evict: "evict_expired_orders A d b now = (ods, b') \<Longrightarrow> executes A d b (EvictExpiredOrders now) b'"

inductive_simps executes_simps:
  "executes A d b (AddOrder od) b'" "executes A d b (CancelOrderCmd i) b'" "executes A d b (UpdateOrder upd) b'"
  "executes A d b (MarketOrder i q s) b'" "executes A d b (MarketOrderByAmount i a s) b'" "executes A d b CancelAll b'"
  "executes A d b (CancelBySide s) b'" "executes A d b (CancelByUser u) b'"
  "executes A d b (CancelByPriceRange s lo hi) b'" "executes A d b (EvictExpiredOrders now) b'"

text \<open>A run of a sequencer: accepted commands are executed, rejected ones leave the book as it is.\<close>

inductive live_run ::
    "('l, 'g) pricelevel_api \<Rightarrow> 'x \<Rightarrow> 'x sequencer_event list \<Rightarrow> ('l, 'g) book \<Rightarrow> ('l, 'g) book \<Rightarrow> bool"
  for A :: "('l, 'g) pricelevel_api" and d :: 'x where
  live_done: "live_run A d [] b b"
| live_executed: "\<not> rejected ev \<Longrightarrow> executes A d b (command ev) b1 \<Longrightarrow> live_run A d evs b1 b' \<Longrightarrow>
    live_run A d (ev # evs) b b'"
| live_rejected: "rejected ev \<Longrightarrow> live_run A d evs b b' \<Longrightarrow> live_run A d (ev # evs) b b'"

inductive_simps live_run_simps [simp]: "live_run A d [] b b'" "live_run A d (ev # evs) b b'"

lemma at_sequence_Inr: "at_sequence n x = (Inr u, b') \<longleftrightarrow> (\<exists>r. x = (Inr r, b'))"
  by (cases x; cases "fst x") (auto simp: at_sequence_def)

lemma apply_event_Inr:
  "apply_event A d b ev = (Inr u, b') \<longleftrightarrow> (if rejected ev then b' = b else executes A d b (command ev) b')"
  by (cases "command ev")
    (auto simp: apply_event_def at_sequence_Inr executes_simps intro: surjective_pairing)

text \<open>The accepted events, the last of their sequence numbers, and the progress calls.\<close>

abbreviation accepted :: "'x sequencer_event list \<Rightarrow> 'x sequencer_event list" where
  "accepted evs \<equiv> filter (\<lambda>ev. \<not> rejected ev) evs"

definition last_applied_seq :: "u64 \<Rightarrow> 'x sequencer_event list \<Rightarrow> u64" where
  "last_applied_seq n evs = last (n # map sequence_num (accepted evs))"

definition progress_calls :: "u64 \<Rightarrow> 'x sequencer_event list \<Rightarrow> (u64 \<times> u64) list" where
  "progress_calls k evs =
     zip [Suc k..<Suc k + length (accepted evs)] (map sequence_num (accepted evs))"

lemma last_applied_Cons:
  "last_applied_seq n (ev # evs) = (if rejected ev then last_applied_seq n evs else last_applied_seq (sequence_num ev) evs)"
  by (simp add: last_applied_seq_def)

lemma progress_calls_Cons:
  "progress_calls k (ev # evs) =
     (if rejected ev then progress_calls k evs else (Suc k, sequence_num ev) # progress_calls (Suc k) evs)"
  by (simp add: progress_calls_def upt_conv_Cons del: upt_Suc)

text \<open>The loop succeeds exactly on gap-free events whose accepted commands all execute.\<close>

lemma replay_loop_iff:
  assumes "k \<le> n"
  shows "replay_loop A d (map (\<lambda>ev. Inr \<lparr>event = ev, stored_crc = crc ev\<rparr>) evs) n la k b = (Inr m, calls, b') \<longleftrightarrow>
    map sequence_num evs = [n..<n + length evs] \<and> (evs = [] \<or> n + length evs \<le> u64_max) \<and> live_run A d evs b b' \<and>
    m = last_applied_seq la evs \<and> calls = progress_calls k evs"
  using assms
proof (induction evs arbitrary: n la k b calls)
  case Nil
  then show ?case by (auto simp: last_applied_seq_def progress_calls_def)
next
  case (Cons ev evs)
  let ?es = "map (\<lambda>ev. Inr \<lparr>event = ev, stored_crc = crc ev\<rparr>) evs"
  have up: "[n..<Suc (n + length evs)] = n # [Suc n..<Suc (n + length evs)]"
    by (simp add: upt_conv_Cons del: upt_Suc)
  show ?case
  proof (cases "sequence_num ev = n \<and> Suc n \<le> u64_max \<and> (\<exists>b1. apply_event A d b ev = (Inr (), b1))")
    case True
    then obtain b1 where seq: "sequence_num ev = n" and n: "Suc n \<le> u64_max" and ap: "apply_event A d b ev = (Inr (), b1)"
      by blast
    have k: "Suc k \<le> u64_max" "Suc k \<le> Suc n" "k \<le> Suc n" using Cons.prems n by simp_all
    have len: "evs = [] \<or> Suc (n + length evs) \<le> u64_max \<longleftrightarrow> Suc (n + length evs) \<le> u64_max" using n by auto
    show ?thesis
    proof (cases "rejected ev")
      case True
      then have "b1 = b" using ap apply_event_Inr [of A d b ev "()" b1] by simp
      then show ?thesis using True seq n ap Cons.IH [OF k(3), of la b calls] len
        by (simp add: checked_add64_def last_applied_Cons progress_calls_Cons up del: upt_Suc)
    next
      case False
      then have "executes A d b (command ev) c \<longleftrightarrow> c = b1" for c
        using ap apply_event_Inr [of A d b ev "()" c] by auto
      then show ?thesis using False seq n k ap Cons.IH [OF k(2), of n b1 "tl calls"] len
        by (cases calls) (auto simp: checked_add64_def last_applied_Cons progress_calls_Cons up simp del: upt_Suc
            split: prod.splits)
    qed
  next
    case False
    have "replay_loop A d (map (\<lambda>ev. Inr \<lparr>event = ev, stored_crc = crc ev\<rparr>) (ev # evs)) n la k b \<noteq> (Inr m, calls, b')"
      using False by (auto simp: checked_add64_def split: prod.splits sum.splits if_splits)
    moreover have "\<not> (map sequence_num (ev # evs) = [n..<n + length (ev # evs)] \<and> n + length (ev # evs) \<le> u64_max \<and>
        live_run A d (ev # evs) b b')"
      using False apply_event_Inr [of A d b ev "()"] by (auto simp: up simp del: upt_Suc)
    ultimately show ?thesis by blast
  qed
qed

lemma with_book_Inr: "with_book x = (Inr (b, n), calls) \<longleftrightarrow> x = (Inr n, calls, b)"
  by (cases x; cases "fst x") (auto simp: with_book_def)

lemma replay_run_iff:
  "replay_from_with_clock_and_progress A d in_memory g j from sy c = (Inr (b, n), calls) \<longleftrightarrow>
   (let evs = filter (\<lambda>ev. from \<le> sequence_num ev) (events j) in
    \<not> poisoned j \<and> events j \<noteq> [] \<and> from \<le> sequence_num (last (events j)) \<and>
    map sequence_num evs = [from..<from + length evs] \<and> from + length evs \<le> u64_max \<and>
    live_run A d evs (with_clock sy c g) b \<and> n = last_applied_seq 0 evs \<and> calls = progress_calls 0 evs)"
proof (cases "check_range in_memory j from = Inr ()")
  case False
  then have "\<not> (\<not> poisoned j \<and> events j \<noteq> [] \<and> from \<le> sequence_num (last (events j)))"
    by (simp add: mem.check_range_Inr)
  moreover have "replay_from_with_clock_and_progress A d in_memory g j from sy c \<noteq> (Inr (b, n), calls)"
    using False by (auto simp: replay_from_with_clock_and_progress_def split: sum.splits)
  ultimately show ?thesis unfolding Let_def by blast
next
  case True
  then have up: "\<not> poisoned j" "events j \<noteq> []" "from \<le> sequence_num (last (events j))"
    by (simp_all add: mem.check_range_Inr)
  then have "last (events j) \<in> set (filter (\<lambda>ev. from \<le> sequence_num ev) (events j))" by simp
  then have ne: "filter (\<lambda>ev. from \<le> sequence_num ev) (events j) \<noteq> []" by force
  show ?thesis
    unfolding replay_from_with_clock_and_progress_def True Let_def sum.case with_book_Inr
      mem.replay_into_up [OF up(1)] replay_loop_iff [OF le0]
    using up ne by simp
qed


lemma submit_user_zero:
  "submit_market_order A b i q s = submit_market_order_with_user A b i q s 0"
  "submit_market_order_by_amount A b i a s = submit_market_order_by_amount_with_user A b i a s 0"
  unfolding submit_market_order_def submit_market_order_with_user_def submit_market_order_by_amount_def
    submit_market_order_by_amount_with_user_def match_market_order_def match_market_order_by_amount_def
  by (rule refl)+

definition command_allowed :: "'x sequencer_command \<Rightarrow> bool" where
  "command_allowed cmd = (case cmd of UpdateOrder upd \<Rightarrow> update_allowed upd | _ \<Rightarrow> True)"

lemma executes_step:
  assumes "executes A d b cmd b'" "command_allowed cmd"
  shows "book_step A d to_str b b'"
  using assms(1)
proof cases
  case (exec_add od r)
  then show ?thesis using step_add [of A d to_str b od] by simp
next
  case (exec_cancel i r)
  then show ?thesis using step_cancel [of A d to_str b i] by simp
next
  case (exec_update upd r)
  then show ?thesis using step_update [of upd A d to_str b] assms(2) by (simp add: command_allowed_def)
next
  case (exec_market i q s r)
  then show ?thesis using step_submit [of A d to_str b i q s 0] by (simp add: submit_user_zero)
next
  case (exec_amount i a s r)
  then show ?thesis using step_submit_amount [of A d to_str b i a s 0] by (simp add: submit_user_zero)
next
  case (exec_all m)
  then show ?thesis using step_cancel_all [of A d to_str b] by simp
next
  case (exec_side s m)
  then show ?thesis using step_cancel_side [of A d to_str b s] by simp
next
  case (exec_user u m)
  then show ?thesis using step_cancel_user [of A d to_str b u] by simp
next
  case (exec_range s lo hi m)
  then show ?thesis using step_cancel_range [of A d to_str b s lo hi] by simp
next
  case (exec_evict now ods)
  then show ?thesis using step_evict [of A d to_str b now] by simp
qed

lemma live_run_inv:
  assumes "price_levels A ok" "live_run A d evs b b'" "book_inv A ok b" "\<forall>ev \<in> set evs. command_allowed (command ev)"
  shows "book_inv A ok b'"
  using assms(2-4)
proof induction
  case (live_executed ev b b1 evs b')
  have "book_step A d (\<lambda>_. []) b b1" using executes_step [OF live_executed(2)] live_executed(6) by simp
  from book_step_inv [OF assms(1) this live_executed(5)] show ?case using live_executed by simp
qed auto


text \<open>A journal for the witnesses: two resting orders and a rejected command.\<close>

definition demo_journal :: "unit in_memory_journal" where
  "demo_journal = \<lparr>events =
     [\<lparr>sequence_num = 0, timestamp_ns = 5, command = AddOrder (Standard 1 100 5 Sell 7 0 Gtc ()), result = OrderAdded 1\<rparr>,
      \<lparr>sequence_num = 1, timestamp_ns = 6, command = AddOrder (Standard 1 100 5 Sell 7 0 Gtc ()), result = CommandRejected ''duplicate''\<rparr>,
      \<lparr>sequence_num = 2, timestamp_ns = 7, command = AddOrder (Standard 2 100 2 Buy 8 0 Gtc ()), result = OrderAdded 2\<rparr>],
     poisoned = False\<rparr>"


section \<open>Commands that fail after trading\<close>

lemma ok_or: "isl (fst x) \<or> P (snd x) \<Longrightarrow> (case x of (Inl e, _) \<Rightarrow> True | (Inr _, b) \<Rightarrow> P b)"
  by (cases x; cases "fst x") auto

definition ioc_book :: "(fifo_level, nat) book" where
  "ioc_book = snd (add_order fifo () (with_clock ''DEMO'' stub_new 0) (Standard 1 100 5 Sell 7 0 Gtc ()))"

definition ioc_event :: "sequencer_result \<Rightarrow> unit sequencer_event" where
  "ioc_event res = \<lparr>sequence_num = 1, timestamp_ns = 6, command = AddOrder (Standard 2 100 20 Buy 8 0 Ioc ()), result = res\<rparr>"

text \<open>C39: a partially filled immediate order cannot be replayed.  The order trades with the whole ask side
  and the command then fails, because a remainder is left.  Whatever result the journal records for
  it, the replay does not reach the live book: an event marked rejected is skipped and the ask stays,
  any other result makes the replay stop with an error.\<close>

theorem partial_fill_not_replayable:
  "(case add_order fifo () ioc_book (Standard 2 100 20 Buy 8 0 Ioc ()) of
      (r, live) \<Rightarrow> isl r \<and> has_traded live \<and> asks live = [] \<and>
        (\<forall>res. case apply_event fifo () ioc_book (ioc_event res) of
           (Inl e, _) \<Rightarrow> True | (Inr _, replayed) \<Rightarrow> asks replayed \<noteq> asks live))"
proof -
  let ?x = "add_order fifo () ioc_book (Standard 2 100 20 Buy 8 0 Ioc ())"
  have live: "isl (fst ?x)" "has_traded (snd ?x)" "asks (snd ?x) = []" by code_simp+
  have before: "asks ioc_book \<noteq> []" by code_simp
  have "isl (fst (apply_event fifo () ioc_book (ioc_event res))) \<or>
      asks (snd (apply_event fifo () ioc_book (ioc_event res))) \<noteq> []" for res
  proof (cases "rejected (ioc_event res)")
    case True
    then show ?thesis using before by (simp add: apply_event_def)
  next
    case False
    then have "apply_event fifo () ioc_book (ioc_event res) = at_sequence 1 ?x" by (simp add: apply_event_def ioc_event_def)
    then show ?thesis using live(1) by (cases ?x; cases "fst ?x") (auto simp: at_sequence_def)
  qed
  then have "case apply_event fifo () ioc_book (ioc_event res) of (Inl e, _) \<Rightarrow> True | (Inr _, replayed) \<Rightarrow> asks replayed \<noteq> []" for res
    by (rule ok_or)
  moreover obtain r b where x: "?x = (r, b)" by fastforce
  moreover from live x have b: "isl r" "has_traded b" "asks b = []" by simp_all
  ultimately show ?thesis unfolding x case_prod_conv b(3) by simp
qed

section \<open>Comparing snapshots\<close>

text \<open>What the comparison looks at in a level.\<close>

definition level_key ::
    "('l, 's) snapshot_api \<Rightarrow> 's \<Rightarrow> u128 \<times> u64 \<times> u64 \<times> usize \<times> unit_order list \<times> level_statistics" where
  "level_key S x = (sn_price S x, sn_visible S x, sn_hidden S x, sn_count S x, sn_orders S x, sn_statistics S x)"

lemma levels_match_key: "levels_match S x y \<longleftrightarrow> level_key S x = level_key S y"
  by (auto simp: levels_match_def level_key_def Let_def)

lemma list_all_zip_key:
  "length xs = length ys \<Longrightarrow> list_all (\<lambda>(x, y). f x = f y) (zip xs ys) \<longleftrightarrow> map f xs = map f ys"
  by (induction xs ys rule: list_induct2) auto

lemma sides_match_key:
  "sides_match S xs ys \<longleftrightarrow> sort_key fst (map (level_key S) xs) = sort_key fst (map (level_key S) ys)"
proof -
  have k: "sort_key fst (map (level_key S) zs) = map (level_key S) (sort_key (sn_price S) zs)" for zs
    using sort_key_map [of "level_key S" fst zs] by (simp add: level_key_def)
  have "sort_key fst (map (level_key S) xs) = sort_key fst (map (level_key S) ys) \<Longrightarrow> length xs = length ys"
    by (metis length_map length_sort)
  then show ?thesis
    using list_all_zip_key [of "sort_key (sn_price S) xs" "sort_key (sn_price S) ys" "level_key S"]
    unfolding sides_match_def levels_match_key k by auto
qed

text \<open>The comparison of snapshots is equality of content.  Two snapshots match exactly when they have
  the same symbol and, after sorting each side by price, the same prices, visible and hidden
  quantities, order counts, orders in queue order and deterministic statistics; the timestamp and the
  order in which the levels are listed do not matter.\<close>

lemma snapshots_match_exact:
  "snapshots_match S x y \<longleftrightarrow> snap_symbol x = snap_symbol y \<and>
     sort_key fst (map (level_key S) (snap_bids x)) = sort_key fst (map (level_key S) (snap_bids y)) \<and>
     sort_key fst (map (level_key S) (snap_asks x)) = sort_key fst (map (level_key S) (snap_asks y))"
  by (simp add: snapshots_match_def sides_match_key)

end
