(* ===== verification/Market_Data.thy ===== *)
theory Market_Data
  imports Operations Complex_Main
begin

text \<open>
  Read-only views of the book: depth queries, simulation of market orders, market impact, level
  iterators and the depth distribution (\<open>src/orderbook/book.rs\<close>, \<open>iterators.rs\<close>,
  \<open>market_impact.rs\<close>, \<open>statistics.rs\<close>).  A finite \<open>f64\<close> is the rational number it denotes; each
  operation rounds the exact result to 53 bits, ties to even.  All operands are quotients, products
  and sums of \<open>u128\<close> values, far from the overflow and subnormal ranges.  Unchecked integer
  arithmetic wraps, as in a release build.
\<close>

section \<open>Floating point\<close>

text \<open>The quotient is computed to more than 53 bits with a sticky bit for the remainder, and rounded once.\<close>

definition f64_quot :: "nat \<Rightarrow> nat \<Rightarrow> rat" where
  "f64_quot n d =
     (let k = 107 + f64_shift d; q = n * 2 ^ k div d; r = n * 2 ^ k mod d
      in of_nat (f64_of_nat (2 * q + (if r = 0 then 0 else 1))) / 2 ^ Suc k)"

definition f64_round :: "rat \<Rightarrow> rat" where
  "f64_round x =
     (let (n, d) = quotient_of x
      in if n < 0 then - f64_quot (nat (- n)) (nat d) else f64_quot (nat n) (nat d))"

definition as_f64 :: "nat \<Rightarrow> rat" where
  "as_f64 n = of_nat (f64_of_nat n)"

definition f64_div :: "rat \<Rightarrow> rat \<Rightarrow> rat" where
  "f64_div x y = f64_round (x / y)"

definition f64_mul :: "rat \<Rightarrow> rat \<Rightarrow> rat" where
  "f64_mul x y = f64_round (x * y)"

definition f64_add :: "rat \<Rightarrow> rat \<Rightarrow> rat" where
  "f64_add x y = f64_round (x + y)"

definition f64_sub :: "rat \<Rightarrow> rat \<Rightarrow> rat" where
  "f64_sub x y = f64_round (x - y)"

definition wrap_mul128 :: "u128 \<Rightarrow> u128 \<Rightarrow> u128" where
  [arith_ops]: "wrap_mul128 a b = (a * b) mod 2 ^ 128"

section \<open>Depth of one side\<close>

text \<open>\<open>total_quantity().unwrap_or(0)\<close>, and a side from its best price on.\<close>

definition level_qty :: "('l, 'g) pricelevel_api \<Rightarrow> 'l \<Rightarrow> u64" where
  "level_qty A l = (case level_total A l of Inr n \<Rightarrow> n | Inl _ \<Rightarrow> 0)"

definition side_iter :: "('l, 'g) book \<Rightarrow> side \<Rightarrow> (u128 \<times> 'l) list" where
  "side_iter b s = (case s of Buy \<Rightarrow> sm_iter_rev (bids b) | Sell \<Rightarrow> sm_iter (asks b))"

fun depth_loop :: "('l, 'g) pricelevel_api \<Rightarrow> u64 \<Rightarrow> u64 \<Rightarrow> (u128 \<times> 'l) list \<Rightarrow> (u128 \<times> u64) option" where
  "depth_loop A target cumulative [] = None"
| "depth_loop A target cumulative ((price, l) # ls) =
     (let cumulative' = sat_add64 cumulative (level_qty A l)
      in if target \<le> cumulative' then Some (price, cumulative') else depth_loop A target cumulative' ls)"

definition cumulative_depth_to_target :: "('l, 'g) pricelevel_api \<Rightarrow> ('l, 'g) book \<Rightarrow> u64 \<Rightarrow> side \<Rightarrow> (u128 \<times> u64) option" where
  "cumulative_depth_to_target A b target s =
     (if levels b s = [] then None else depth_loop A target 0 (side_iter b s))"

definition price_at_depth :: "('l, 'g) pricelevel_api \<Rightarrow> ('l, 'g) book \<Rightarrow> u64 \<Rightarrow> side \<Rightarrow> u128 option" where
  "price_at_depth A b target s =
     (if levels b s = [] then None else map_option fst (depth_loop A target 0 (side_iter b s)))"

fun total_depth_loop :: "('l, 'g) pricelevel_api \<Rightarrow> usize \<Rightarrow> usize \<Rightarrow> u64 \<Rightarrow> (u128 \<times> 'l) list \<Rightarrow> u64" where
  "total_depth_loop A n taken total_qty [] = total_qty"
| "total_depth_loop A n taken total_qty ((price, l) # ls) =
     (if n \<le> taken then total_qty
      else total_depth_loop A n (Suc taken) (sat_add64 total_qty (level_qty A l)) ls)"

definition total_depth_at_levels :: "('l, 'g) pricelevel_api \<Rightarrow> ('l, 'g) book \<Rightarrow> usize \<Rightarrow> side \<Rightarrow> u64" where
  "total_depth_at_levels A b n s =
     (if n = 0 then 0 else if levels b s = [] then 0 else total_depth_loop A n 0 0 (side_iter b s))"

fun range_loop :: "('l, 'g) pricelevel_api \<Rightarrow> u128 \<Rightarrow> u128 \<Rightarrow> u64 \<Rightarrow> (u128 \<times> 'l) list \<Rightarrow> u64" where
  "range_loop A lo hi liquidity [] = liquidity"
| "range_loop A lo hi liquidity ((price, l) # ls) =
     (if price < lo then range_loop A lo hi liquidity ls
      else if hi < price then liquidity
      else range_loop A lo hi (sat_add64 liquidity (level_qty A l)) ls)"

definition liquidity_in_range :: "('l, 'g) pricelevel_api \<Rightarrow> ('l, 'g) book \<Rightarrow> u128 \<Rightarrow> u128 \<Rightarrow> side \<Rightarrow> u64" where
  "liquidity_in_range A b lo hi s =
     (if hi < lo then 0 else if levels b s = [] then 0 else range_loop A lo hi 0 (sm_iter (levels b s)))"

definition queue_ahead_at_price :: "('l, 'g) pricelevel_api \<Rightarrow> ('l, 'g) book \<Rightarrow> u128 \<Rightarrow> side \<Rightarrow> usize" where
  "queue_ahead_at_price A b price s =
     (case sm_get (levels b s) price of Some l \<Rightarrow> length (iter_orders A l) | None \<Rightarrow> 0)"

definition price_n_ticks_inside :: "('l, 'g) book \<Rightarrow> usize \<Rightarrow> u128 \<Rightarrow> side \<Rightarrow> u128 option \<times> ('l, 'g) book" where
  "price_n_ticks_inside b n tick s =
     (if n = 0 \<or> tick = 0 then (None, b)
      else if u128_max < n * tick then (None, b)
      else case s of
        Buy \<Rightarrow> (case best_bid b of
            (None, b1) \<Rightarrow> (None, b1)
          | (Some p, b1) \<Rightarrow> (if n * tick \<le> p then Some (p - n * tick) else None, b1))
      | Sell \<Rightarrow> (case best_ask b of
            (None, b1) \<Rightarrow> (None, b1)
          | (Some p, b1) \<Rightarrow> (if p + n * tick \<le> u128_max then Some (p + n * tick) else None, b1)))"

fun position_loop :: "usize \<Rightarrow> usize \<Rightarrow> (u128 \<times> 'l) list \<Rightarrow> u128 option" where
  "position_loop pos current [] = None"
| "position_loop pos current ((price, l) # ls) =
     (if current = pos then Some price else position_loop pos (Suc current) ls)"

definition price_for_queue_position :: "('l, 'g) book \<Rightarrow> usize \<Rightarrow> side \<Rightarrow> u128 option" where
  "price_for_queue_position b pos s =
     (if pos = 0 then None else if levels b s = [] then None
      else position_loop pos 1 (side_iter b s))"

fun adjusted_loop ::
    "('l, 'g) pricelevel_api \<Rightarrow> u64 \<Rightarrow> u128 \<Rightarrow> side \<Rightarrow> u64 \<Rightarrow> u128 option \<Rightarrow> (u128 \<times> 'l) list \<Rightarrow> u128 option" where
  "adjusted_loop A target tick s cumulative last_price [] = last_price"
| "adjusted_loop A target tick s cumulative last_price ((price, l) # ls) =
     (let cumulative' = sat_add64 cumulative (level_qty A l)
      in if target \<le> cumulative'
         then (case s of
                 Buy \<Rightarrow> if price + tick \<le> u128_max then Some (price + tick) else None
               | Sell \<Rightarrow> if tick \<le> price then Some (price - tick) else None)
         else adjusted_loop A target tick s cumulative' (Some price) ls)"

definition price_at_depth_adjusted ::
    "('l, 'g) pricelevel_api \<Rightarrow> ('l, 'g) book \<Rightarrow> u64 \<Rightarrow> u128 \<Rightarrow> side \<Rightarrow> u128 option" where
  "price_at_depth_adjusted A b target tick s =
     (if target = 0 \<or> tick = 0 then None else if levels b s = [] then None
      else adjusted_loop A target tick s 0 None (side_iter b s))"

section \<open>Level iterators\<close>

record level_info =
  li_price :: u128
  li_quantity :: u64
  li_cumulative_depth :: u64

text \<open>The items an iterator yields, in order.\<close>

fun levels_with_cumulative :: "('l, 'g) pricelevel_api \<Rightarrow> u64 \<Rightarrow> (u128 \<times> 'l) list \<Rightarrow> level_info list" where
  "levels_with_cumulative A cumulative [] = []"
| "levels_with_cumulative A cumulative ((price, l) # ls) =
     (let cumulative' = sat_add64 cumulative (level_qty A l)
      in \<lparr>li_price = price, li_quantity = level_qty A l, li_cumulative_depth = cumulative'\<rparr> #
         levels_with_cumulative A cumulative' ls)"

fun levels_until :: "('l, 'g) pricelevel_api \<Rightarrow> u64 \<Rightarrow> u64 \<Rightarrow> (u128 \<times> 'l) list \<Rightarrow> level_info list" where
  "levels_until A target cumulative [] = []"
| "levels_until A target cumulative ((price, l) # ls) =
     (let cumulative' = sat_add64 cumulative (level_qty A l)
      in \<lparr>li_price = price, li_quantity = level_qty A l, li_cumulative_depth = cumulative'\<rparr> #
         (if target \<le> cumulative' then [] else levels_until A target cumulative' ls))"

fun levels_in_band :: "('l, 'g) pricelevel_api \<Rightarrow> side \<Rightarrow> u128 \<Rightarrow> u128 \<Rightarrow> (u128 \<times> 'l) list \<Rightarrow> level_info list" where
  "levels_in_band A s lo hi [] = []"
| "levels_in_band A s lo hi ((price, l) # ls) =
     (if (case s of Buy \<Rightarrow> price < lo | Sell \<Rightarrow> hi < price) then []
      else if lo \<le> price \<and> price \<le> hi
        then \<lparr>li_price = price, li_quantity = level_qty A l, li_cumulative_depth = 0\<rparr> # levels_in_band A s lo hi ls
      else levels_in_band A s lo hi ls)"

definition levels_with_cumulative_depth :: "('l, 'g) pricelevel_api \<Rightarrow> ('l, 'g) book \<Rightarrow> side \<Rightarrow> level_info list" where
  "levels_with_cumulative_depth A b s = levels_with_cumulative A 0 (side_iter b s)"

definition levels_until_depth :: "('l, 'g) pricelevel_api \<Rightarrow> ('l, 'g) book \<Rightarrow> u64 \<Rightarrow> side \<Rightarrow> level_info list" where
  "levels_until_depth A b target s = levels_until A target 0 (side_iter b s)"

definition levels_in_range :: "('l, 'g) pricelevel_api \<Rightarrow> ('l, 'g) book \<Rightarrow> u128 \<Rightarrow> u128 \<Rightarrow> side \<Rightarrow> level_info list" where
  "levels_in_range A b lo hi s = levels_in_band A s lo hi (side_iter b s)"

definition find_level ::
    "('l, 'g) pricelevel_api \<Rightarrow> ('l, 'g) book \<Rightarrow> side \<Rightarrow> (level_info \<Rightarrow> bool) \<Rightarrow> level_info option" where
  "find_level A b s predicate = find predicate (levels_with_cumulative_depth A b s)"

section \<open>Simulated market orders\<close>

text \<open>The loop of \<open>vwap\<close> and \<open>simulate_market_order\<close>: remaining, cost, filled and the fills.\<close>

fun fill_loop ::
    "('l, 'g) pricelevel_api \<Rightarrow> u64 \<Rightarrow> u128 \<Rightarrow> u64 \<Rightarrow> (u128 \<times> u64) list \<Rightarrow> (u128 \<times> 'l) list \<Rightarrow>
      u64 \<times> u128 \<times> u64 \<times> (u128 \<times> u64) list" where
  "fill_loop A remaining cost filled fs [] = (remaining, cost, filled, fs)"
| "fill_loop A remaining cost filled fs ((price, l) # ls) =
     (if remaining = 0 then (remaining, cost, filled, fs)
      else let available = level_qty A l in
        if available = 0 then fill_loop A remaining cost filled fs ls
        else let fill_qty = min remaining available in
          fill_loop A (sat_sub remaining fill_qty) (sat_add128 cost (wrap_mul128 price fill_qty))
            (sat_add64 filled fill_qty) (fs @ [(price, fill_qty)]) ls)"

definition vwap :: "('l, 'g) pricelevel_api \<Rightarrow> ('l, 'g) book \<Rightarrow> u64 \<Rightarrow> side \<Rightarrow> rat option" where
  "vwap A b quantity s =
     (if quantity = 0 then None else if levels b (opposite s) = [] then None
      else let (remaining, cost, filled, fs) = fill_loop A quantity 0 0 [] (sweep_order b s)
           in if filled = quantity then Some (f64_div (as_f64 cost) (as_f64 filled)) else None)"

record order_simulation =
  fills :: "(u128 \<times> u64) list"
  sim_avg_price :: rat
  total_filled :: u64
  remaining_quantity :: u64

definition simulation_empty :: order_simulation where
  "simulation_empty = \<lparr>fills = [], sim_avg_price = 0, total_filled = 0, remaining_quantity = 0\<rparr>"

definition is_fully_filled :: "order_simulation \<Rightarrow> bool" where
  "is_fully_filled r \<longleftrightarrow> remaining_quantity r = 0"

definition levels_count :: "order_simulation \<Rightarrow> usize" where
  "levels_count r = length (fills r)"

definition total_cost :: "order_simulation \<Rightarrow> u128" where
  "total_cost r = foldl (\<lambda>acc f. sat_add128 acc (sat_mul128 (fst f) (snd f))) 0 (fills r)"

definition simulate_market_order :: "('l, 'g) pricelevel_api \<Rightarrow> ('l, 'g) book \<Rightarrow> u64 \<Rightarrow> side \<Rightarrow> order_simulation" where
  "simulate_market_order A b quantity s =
     (if quantity = 0 then simulation_empty
      else if levels b (opposite s) = [] then simulation_empty\<lparr>remaining_quantity := quantity\<rparr>
      else let (remaining, cost, filled, fs) = fill_loop A quantity 0 0 [] (sweep_order b s)
           in \<lparr>fills = fs, sim_avg_price = (if 0 < filled then f64_div (as_f64 cost) (as_f64 filled) else 0),
               total_filled = filled, remaining_quantity = remaining\<rparr>)"

record market_impact =
  mi_avg_price :: rat
  worst_price :: u128
  slippage :: u128
  slippage_bps :: rat
  levels_consumed :: usize
  total_quantity_available :: u64

definition impact_empty :: market_impact where
  "impact_empty = \<lparr>mi_avg_price = 0, worst_price = 0, slippage = 0, slippage_bps = 0, levels_consumed = 0,
     total_quantity_available = 0\<rparr>"

definition can_fill :: "market_impact \<Rightarrow> u64 \<Rightarrow> bool" where
  "can_fill r requested \<longleftrightarrow> requested \<le> total_quantity_available r"

definition fill_ratio :: "market_impact \<Rightarrow> u64 \<Rightarrow> rat" where
  "fill_ratio r requested =
     (if requested = 0 then 0 else f64_div (as_f64 (total_quantity_available r)) (as_f64 requested))"

text \<open>The loop of \<open>market_impact\<close>: remaining, cost, filled, available, worst price, levels.\<close>

fun impact_loop ::
    "('l, 'g) pricelevel_api \<Rightarrow> u64 \<Rightarrow> u128 \<Rightarrow> u64 \<Rightarrow> u64 \<Rightarrow> u128 \<Rightarrow> usize \<Rightarrow> (u128 \<times> 'l) list \<Rightarrow>
      u128 \<times> u64 \<times> u64 \<times> u128 \<times> usize" where
  "impact_loop A remaining cost filled available worst n [] = (cost, filled, available, worst, n)"
| "impact_loop A remaining cost filled available worst n ((price, l) # ls) =
     (let here = level_qty A l in
      if here = 0 then impact_loop A remaining cost filled available worst n ls
      else let available' = sat_add64 available here in
        if 0 < remaining then
          (let fill_qty = min remaining here
           in impact_loop A (sat_sub remaining fill_qty) (sat_add128 cost (wrap_mul128 price fill_qty))
                (sat_add64 filled fill_qty) available' price (Suc n) ls)
        else impact_loop A remaining cost filled available' worst n ls)"

definition market_impact_of ::
    "('l, 'g) pricelevel_api \<Rightarrow> ('l, 'g) book \<Rightarrow> u64 \<Rightarrow> side \<Rightarrow> market_impact \<times> ('l, 'g) book" where
  "market_impact_of A b quantity s =
     (if quantity = 0 then (impact_empty, b)
      else if levels b (opposite s) = [] then (impact_empty, b)
      else case (case s of Buy \<Rightarrow> best_ask b | Sell \<Rightarrow> best_bid b) of
        (None, b1) \<Rightarrow> (impact_empty, b1)
      | (Some best, b1) \<Rightarrow>
          (let (cost, filled, available, worst, n) = impact_loop A quantity 0 0 0 best 0 (sweep_order b1 s);
               slip = (case s of Buy \<Rightarrow> sat_sub worst best | Sell \<Rightarrow> sat_sub best worst)
           in (\<lparr>mi_avg_price = (if 0 < filled then f64_div (as_f64 cost) (as_f64 filled) else 0),
                worst_price = worst, slippage = slip,
                slippage_bps = (if 0 < best then f64_mul (f64_div (as_f64 slip) (as_f64 best)) 10000 else 0),
                levels_consumed = n, total_quantity_available = available\<rparr>, b1)))"

section \<open>Prices and pressure\<close>

definition spread_bps :: "('l, 'g) book \<Rightarrow> rat option \<Rightarrow> rat option \<times> ('l, 'g) book" where
  "spread_bps b multiplier =
     (let m = (case multiplier of Some x \<Rightarrow> x | None \<Rightarrow> 10000);
          (bid, b1) = best_bid b; (ask, b2) = best_ask b1; (mid2, b3) = mid_price b2
      in (case (bid, ask, mid2) of
            (Some x, Some y, Some t) \<Rightarrow>
              (if 0 < t then Some (f64_mul (f64_div (as_f64 (sat_sub y x)) (of_nat t / 2)) m) else None)
          | _ \<Rightarrow> None, b3))"

definition micro_price :: "('l, 'g) pricelevel_api \<Rightarrow> ('l, 'g) book \<Rightarrow> rat option \<times> ('l, 'g) book" where
  "micro_price A b =
     (case best_bid b of
        (None, b1) \<Rightarrow> (None, b1)
      | (Some bid, b1) \<Rightarrow>
          (case best_ask b1 of
             (None, b2) \<Rightarrow> (None, b2)
           | (Some ask, b2) \<Rightarrow>
               (case (sm_get (bids b2) bid, sm_get (asks b2) ask) of
                  (Some lb, Some la) \<Rightarrow>
                    (let bid_volume = level_qty A lb; ask_volume = level_qty A la;
                         total_volume = sat_add64 bid_volume ask_volume
                     in if total_volume = 0 then (None, b2)
                        else (Some (f64_div
                            (f64_add (f64_mul (as_f64 ask) (as_f64 bid_volume)) (f64_mul (as_f64 bid) (as_f64 ask_volume)))
                            (as_f64 total_volume)), b2))
                | _ \<Rightarrow> (None, b2))))"

definition order_book_imbalance :: "('l, 'g) pricelevel_api \<Rightarrow> ('l, 'g) book \<Rightarrow> usize \<Rightarrow> rat" where
  "order_book_imbalance A b n =
     (if n = 0 then 0
      else let bid_volume = total_depth_at_levels A b n Buy; ask_volume = total_depth_at_levels A b n Sell
           in if sat_add64 bid_volume ask_volume = 0 then 0
              else f64_div (f64_sub (as_f64 bid_volume) (as_f64 ask_volume)) (f64_add (as_f64 bid_volume) (as_f64 ask_volume)))"

definition get_volume_by_price :: "('l, 'g) pricelevel_api \<Rightarrow> ('l, 'g) book \<Rightarrow> (u128 \<rightharpoonup> u64) \<times> (u128 \<rightharpoonup> u64)" where
  "get_volume_by_price A b =
     (map_of (map (\<lambda>e. (fst e, level_qty A (snd e))) (sm_iter (bids b))),
      map_of (map (\<lambda>e. (fst e, level_qty A (snd e))) (sm_iter (asks b))))"

definition buy_sell_pressure :: "('l, 'g) pricelevel_api \<Rightarrow> ('l, 'g) book \<Rightarrow> u64 \<times> u64" where
  "buy_sell_pressure A b =
     (foldl (\<lambda>acc e. wrap_add64 acc (level_qty A (snd e))) 0 (sm_iter (bids b)),
      foldl (\<lambda>acc e. wrap_add64 acc (level_qty A (snd e))) 0 (sm_iter (asks b)))"

section \<open>Depth distribution\<close>

record distribution_bin =
  bin_min_price :: u128
  bin_max_price :: u128
  volume :: u64
  level_count :: usize

definition midpoint :: "distribution_bin \<Rightarrow> u128" where
  "midpoint x = (bin_min_price x + bin_max_price x) div 2"

definition width :: "distribution_bin \<Rightarrow> u128" where
  "width x = sat_sub (bin_max_price x) (bin_min_price x)"

definition empty_bins :: "u128 \<Rightarrow> u128 \<Rightarrow> u128 \<Rightarrow> usize \<Rightarrow> distribution_bin list" where
  "empty_bins min_price max_price bin_width bins =
     map (\<lambda>i. let bin_min = wrap_add128 min_price (wrap_mul128 i bin_width)
             in \<lparr>bin_min_price = bin_min,
                 bin_max_price = (if i = bins - 1 then wrap_add128 max_price 1 else wrap_add128 bin_min bin_width),
                 volume = 0, level_count = 0\<rparr>) [0..<bins]"

fun fill_bins ::
    "('l, 'g) pricelevel_api \<Rightarrow> u128 \<Rightarrow> u128 \<Rightarrow> u128 \<Rightarrow> usize \<Rightarrow> (u128 \<times> 'l) list \<Rightarrow> distribution_bin list \<Rightarrow> distribution_bin list" where
  "fill_bins A min_price max_price bin_width bins [] distribution = distribution"
| "fill_bins A min_price max_price bin_width bins ((price, l) # ls) distribution =
     (let quantity = level_qty A l in
      if quantity = 0 then fill_bins A min_price max_price bin_width bins ls distribution
      else let i = (if max_price \<le> price then bins - 1 else min ((price - min_price) div bin_width) (bins - 1));
               x = distribution ! i
           in fill_bins A min_price max_price bin_width bins ls
                (distribution[i := x\<lparr>volume := sat_add64 (volume x) quantity, level_count := level_count x + 1\<rparr>]))"

definition depth_distribution :: "('l, 'g) pricelevel_api \<Rightarrow> ('l, 'g) book \<Rightarrow> side \<Rightarrow> usize \<Rightarrow> distribution_bin list" where
  "depth_distribution A b s bins =
     (if bins = 0 then [] else if levels b s = [] then []
      else let prices = map fst (sm_iter (levels b s));
               min_price = foldl min u128_max prices;
               max_price = foldl max 0 prices
           in if min_price = u128_max \<or> max_price < min_price then []
              else let price_range = max_price - min_price;
                       bin_width = (if price_range = 0 then 1 else div_ceil price_range bins)
                   in fill_bins A min_price max_price bin_width bins (sm_iter (levels b s))
                        (empty_bins min_price max_price bin_width bins))"

section \<open>What a simulation reports\<close>

abbreviation depth_of :: "('l, 'g) pricelevel_api \<Rightarrow> (u128 \<times> 'l) list \<Rightarrow> nat" where
  "depth_of A ls \<equiv> sum_list (map (\<lambda>e. level_qty A (snd e)) ls)"

text \<open>The fills take whole non-empty levels from the front, and at most one level in part, which is the
  last one and ends the quantity.\<close>

definition greedy_fills :: "('l, 'g) pricelevel_api \<Rightarrow> (u128 \<times> 'l) list \<Rightarrow> u64 \<Rightarrow> (u128 \<times> u64) list \<Rightarrow> bool" where
  "greedy_fills A ls q fs \<longleftrightarrow>
     (\<exists>xs ys part. filter (\<lambda>e. 0 < level_qty A (snd e)) ls = xs @ ys \<and>
        fs = map (\<lambda>e. (fst e, level_qty A (snd e))) xs @ part \<and>
        (part = [] \<and> (ys = [] \<or> depth_of A xs = q) \<or>
         (\<exists>e zs x. ys = e # zs \<and> part = [(fst e, x)] \<and> 0 < x \<and> x < level_qty A (snd e) \<and> depth_of A xs + x = q)))"

lemma greedy_done: "greedy_fills A ls 0 []"
  unfolding greedy_fills_def by (intro exI [of _ "[]"] exI) auto

lemma greedy_skip: "level_qty A l = 0 \<Longrightarrow> greedy_fills A ls q fs \<Longrightarrow> greedy_fills A ((p, l) # ls) q fs"
  by (simp add: greedy_fills_def)

lemma greedy_whole:
  assumes "0 < level_qty A l" "level_qty A l \<le> q" "greedy_fills A ls (q - level_qty A l) fs"
  shows "greedy_fills A ((p, l) # ls) q ((p, level_qty A l) # fs)"
proof -
  from assms(3) obtain xs ys part where g: "filter (\<lambda>e. 0 < level_qty A (snd e)) ls = xs @ ys"
    "fs = map (\<lambda>e. (fst e, level_qty A (snd e))) xs @ part"
    "part = [] \<and> (ys = [] \<or> depth_of A xs = q - level_qty A l) \<or>
     (\<exists>e zs x. ys = e # zs \<and> part = [(fst e, x)] \<and> 0 < x \<and> x < level_qty A (snd e) \<and> depth_of A xs + x = q - level_qty A l)"
    unfolding greedy_fills_def by blast
  show ?thesis
    unfolding greedy_fills_def
    by (intro exI [of _ "(p, l) # xs"] exI [of _ ys] exI [of _ part]) (use assms(1,2) g in auto)
qed

lemma greedy_part:
  assumes "0 < q" "q < level_qty A l"
  shows "greedy_fills A ((p, l) # ls) q [(p, q)]"
  unfolding greedy_fills_def
  by (intro exI [of _ "[]"] exI [of _ "(p, l) # filter (\<lambda>e. 0 < level_qty A (snd e)) ls"] exI [of _ "[(p, q)]"])
    (use assms in auto)

lemma min_plus_front: "a \<le> q \<Longrightarrow> min q (a + n) = a + min (q - a) n" for a q n :: nat
  by (auto simp: min_def)

lemma fill_loop_done: "fill_loop A 0 cost filled fs ls = (0, cost, filled, fs)"
  by (cases ls) auto

lemma fill_loop_spec:
  assumes "filled + q \<le> u64_max"
  shows "\<exists>cost' gs. fill_loop A q cost filled fs ls =
      (q - min q (depth_of A ls), cost', filled + min q (depth_of A ls), fs @ gs) \<and>
    greedy_fills A ls q gs \<and> sum_list (map snd gs) = min q (depth_of A ls)"
  using assms
proof (induction ls arbitrary: q cost filled fs)
  case Nil
  then show ?case by (auto simp: greedy_fills_def)
next
  case (Cons e ls)
  obtain p l where e: "e = (p, l)" by (cases e)
  show ?case
  proof (cases "q = 0")
    case True
    then show ?thesis using greedy_done by (auto simp: fill_loop_done)
  next
    case q: False
    show ?thesis
    proof (cases "level_qty A l = 0")
      case True
      then show ?thesis using q e Cons.IH [OF Cons.prems, of cost fs] greedy_skip [of A l ls q _ p] by fastforce
    next
      case a: False
      show ?thesis
      proof (cases "level_qty A l \<le> q")
        case True
        have "filled + level_qty A l + (q - level_qty A l) \<le> u64_max" using True Cons.prems by simp
        from Cons.IH [OF this, of "sat_add128 cost (wrap_mul128 p (level_qty A l))" "fs @ [(p, level_qty A l)]"]
        obtain cost' gs where "fill_loop A (q - level_qty A l) (sat_add128 cost (wrap_mul128 p (level_qty A l)))
            (filled + level_qty A l) (fs @ [(p, level_qty A l)]) ls =
            (q - level_qty A l - min (q - level_qty A l) (depth_of A ls), cost',
             filled + level_qty A l + min (q - level_qty A l) (depth_of A ls), (fs @ [(p, level_qty A l)]) @ gs)"
          and gs: "greedy_fills A ls (q - level_qty A l) gs" "sum_list (map snd gs) = min (q - level_qty A l) (depth_of A ls)"
          by blast
        moreover have "greedy_fills A (e # ls) q ((p, level_qty A l) # gs)"
          unfolding e using greedy_whole [OF _ True gs(1)] a by simp
        moreover have "sat_sub q (level_qty A l) = q - level_qty A l" "sat_add64 filled (level_qty A l) = filled + level_qty A l"
          using True Cons.prems by (simp_all add: sat_sub_def sat_add64_def)
        moreover have "fill_loop A q cost filled fs (e # ls) = fill_loop A (sat_sub q (level_qty A l))
            (sat_add128 cost (wrap_mul128 p (level_qty A l))) (sat_add64 filled (level_qty A l)) (fs @ [(p, level_qty A l)]) ls"
          using q a True by (simp add: e Let_def min_absorb2)
        moreover have "min q (depth_of A (e # ls)) = level_qty A l + min (q - level_qty A l) (depth_of A ls)"
          using min_plus_front [OF True, of "depth_of A ls"] by (simp add: e)
        ultimately show ?thesis using gs(2)
          by (intro exI [of _ cost'] exI [of _ "(p, level_qty A l) # gs"]) simp
      next
        case False
        then have "greedy_fills A (e # ls) q [(p, q)]" unfolding e using q by (intro greedy_part) simp_all
        then show ?thesis using q a False Cons.prems
          by (intro exI [of _ "sat_add128 cost (wrap_mul128 p q)"] exI [of _ "[(p, q)]"])
            (simp add: e Let_def fill_loop_done sat_sub_def sat_add64_def min_def)
      qed
    qed
  qed
qed

lemma peek_loop_spec:
  assumes "m \<le> q" "q \<le> u64_max"
  shows "peek_loop A s q None m ls = m + min (q - m) (depth_of A ls)"
  using assms
proof (induction ls arbitrary: m)
  case (Cons e ls)
  obtain p l where e: "e = (p, l)" by (cases e)
  show ?case
  proof (cases "q \<le> m")
    case False
    let ?m = "m + min (q - m) (level_qty A l)"
    have "?m \<le> q" using Cons.prems(1) by simp
    moreover have "sat_add64 m (min (sat_sub q m) (level_qty A l)) = ?m"
      using calculation Cons.prems(2) by (simp add: sat_add64_def sat_sub_def)
    ultimately show ?thesis using Cons.IH [of ?m] Cons.prems(2) False
      by (simp add: e Let_def beyond_limit_def level_qty_def [symmetric]) (auto simp: min_def)
  qed (use Cons.prems in \<open>simp add: e\<close>)
qed simp

lemma sweep_order_empty: "levels b (opposite s) = [] \<Longrightarrow> sweep_order b s = []"
  by (cases s) (auto simp: sweep_order_def sm_iter_def sm_iter_rev_def)

lemma peek_match_spec: "q \<le> u64_max \<Longrightarrow> peek_match A b s q None = min q (depth_of A (sweep_order b s))"
  using peek_loop_spec [of 0 q A s "sweep_order b s"] by (auto simp: peek_match_def dest: sweep_order_empty)

text \<open>C35: a simulated market order reports what the book holds.  The filled quantity is the order's
  quantity or the whole depth of the opposite side, whichever is less, and is what \<open>peek_match\<close>
  reports for a market order; the rest is remaining; the fills add up to it and take the levels in
  price priority, each level completely except possibly the last.\<close>

theorem simulation_exact:
  assumes "q \<le> u64_max"
  shows "total_filled (simulate_market_order A b q s) = min q (depth_of A (sweep_order b s)) \<and>
    total_filled (simulate_market_order A b q s) = peek_match A b s q None \<and>
    remaining_quantity (simulate_market_order A b q s) = q - total_filled (simulate_market_order A b q s) \<and>
    sum_list (map snd (fills (simulate_market_order A b q s))) = total_filled (simulate_market_order A b q s) \<and>
    greedy_fills A (sweep_order b s) q (fills (simulate_market_order A b q s))"
proof (cases "q = 0 \<or> levels b (opposite s) = []")
  case True
  then show ?thesis
    using peek_match_spec [OF assms, of A b s] sweep_order_empty [of b s] greedy_done
    by (auto simp: simulate_market_order_def simulation_empty_def greedy_fills_def)
next
  case False
  from fill_loop_spec [of 0 q A 0 "[]" "sweep_order b s"] assms obtain cost gs
    where "fill_loop A q 0 0 [] (sweep_order b s) =
      (q - min q (depth_of A (sweep_order b s)), cost, min q (depth_of A (sweep_order b s)), gs)"
      "greedy_fills A (sweep_order b s) q gs" "sum_list (map snd gs) = min q (depth_of A (sweep_order b s))"
    by auto
  then show ?thesis using False peek_match_spec [OF assms, of A b s] by (simp add: simulate_market_order_def)
qed

theorem simulation_exact_witness:
  "total_filled (simulate_market_order fifo demo_book 12 Buy) = 12 \<and>
   sum_list (map snd (fills (simulate_market_order fifo demo_book 12 Buy))) = 12 \<and>
   greedy_fills fifo (sweep_order demo_book Buy) 12 (fills (simulate_market_order fifo demo_book 12 Buy))"
proof -
  have "depth_of fifo (sweep_order demo_book Buy) = 15" by code_simp
  then show ?thesis using simulation_exact [of 12 fifo demo_book Buy] by (simp add: u64_max_def)
qed

text \<open>C40: the depth distribution can put a level into a bin that does not contain its price.  On a book
  with one ask level at price 100 and two bins, the level is counted in the last bin, whose range
  starts at 101 and is empty, and the bin that starts at 100 counts nothing.\<close>

definition one_ask :: "(fifo_level, nat) book" where
  "one_ask = (with_clock ''DEMO'' stub_new 0)\<lparr>asks := [(100, ask_100)]\<rparr>"


end
