(* ===== verification/Manager.thy ===== *)
theory Manager
  imports Operations
begin

text \<open>
  Several books under one roof, \<open>src/orderbook/manager.rs\<close>.  \<open>BookManagerStd\<close> and \<open>BookManagerTokio\<close> differ
  only in the channel that carries the trade events; one model serves both.  A book created by the
  manager has a trade listener: each of its trade results becomes one event on the channel.  The
  receiving thread, which only logs, is not modelled.  Each book is given its wall clock \<open>w\<close> and
  its trade id generator \<open>g\<close> when it is added.  The locale \<open>book_store\<close> is the trait \<open>BookManager\<close>.
\<close>

section \<open>State and operations\<close>

datatype manager_error = ProcessorAlreadyStarted | BookAlreadyExists string

record trade_event =
  te_symbol :: string
  te_trade_result :: trade_result
  te_timestamp :: u64
  te_engine_seq :: u64

record ('l, 'g) manager =
  books :: "(string \<times> ('l, 'g) book) list"
  trade_receiver :: bool

definition manager_new :: "('l, 'g) manager" where
  "manager_new = \<lparr>books = [], trade_receiver = True\<rparr>"

definition start_trade_processor :: "('l, 'g) manager \<Rightarrow> (manager_error + unit) \<times> ('l, 'g) manager" where
  "start_trade_processor m =
     (if trade_receiver m then (Inr (), m\<lparr>trade_receiver := False\<rparr>) else (Inl ProcessorAlreadyStarted, m))"

text \<open>What the listener of a managed book sends for a trade result at wall time \<open>now\<close>.\<close>

definition listener_event :: "u64 \<Rightarrow> trade_result \<Rightarrow> trade_event" where
  "listener_event now tr =
     \<lparr>te_symbol = tr_symbol tr, te_trade_result = tr, te_timestamp = now, te_engine_seq = tr_engine_seq tr\<rparr>"

definition with_trade_listener :: "string \<Rightarrow> (nat \<Rightarrow> u64) \<Rightarrow> 'g \<Rightarrow> ('l, 'g) book" where
  "with_trade_listener sy w g = (with_clock sy (MonotonicClock w 0) g)\<lparr>trade_listener := True\<rparr>"

definition get_book :: "('l, 'g) manager \<Rightarrow> string \<Rightarrow> ('l, 'g) book option" where
  "get_book m sy = map_of (books m) sy"

definition put_book :: "('l, 'g) manager \<Rightarrow> string \<Rightarrow> ('l, 'g) book \<Rightarrow> ('l, 'g) manager" where
  "put_book m sy b = m\<lparr>books := AList.update sy b (books m)\<rparr>"

definition has_book :: "('l, 'g) manager \<Rightarrow> string \<Rightarrow> bool" where
  "has_book m sy \<longleftrightarrow> map_of (books m) sy \<noteq> None"

definition add_book :: "(nat \<Rightarrow> u64) \<Rightarrow> 'g \<Rightarrow> ('l, 'g) manager \<Rightarrow> string \<Rightarrow> (manager_error + unit) \<times> ('l, 'g) manager" where
  "add_book w g m sy =
     (if has_book m sy then (Inl (BookAlreadyExists sy), m)
      else (Inr (), m\<lparr>books := AList.update sy (with_trade_listener sy w g) (books m)\<rparr>))"

definition symbols :: "('l, 'g) manager \<Rightarrow> string list" where
  "symbols m = map fst (books m)"

definition remove_book :: "('l, 'g) manager \<Rightarrow> string \<Rightarrow> ('l, 'g) book option \<times> ('l, 'g) manager" where
  "remove_book m sy = (map_of (books m) sy, m\<lparr>books := AList.delete sy (books m)\<rparr>)"

definition book_count :: "('l, 'g) manager \<Rightarrow> usize" where
  "book_count m = length (books m)"

text \<open>\<open>books.iter().map(|(symbol, book)| (symbol.clone(), book.f())).collect()\<close>.\<close>

definition across :: "(('l, 'g) book \<Rightarrow> 'r \<times> ('l, 'g) book) \<Rightarrow> ('l, 'g) manager \<Rightarrow> (string \<times> 'r) list \<times> ('l, 'g) manager" where
  "across f m =
     (map (\<lambda>e. (fst e, fst (f (snd e)))) (books m), m\<lparr>books := map (\<lambda>e. (fst e, snd (f (snd e)))) (books m)\<rparr>)"

definition cancel_all_across_books ::
    "('l, 'g) pricelevel_api \<Rightarrow> ('l, 'g) manager \<Rightarrow> (string \<times> mass_cancel_result) list \<times> ('l, 'g) manager" where
  "cancel_all_across_books A m = across (cancel_all_orders A) m"

definition cancel_by_user_across_books ::
    "('l, 'g) pricelevel_api \<Rightarrow> 'x \<Rightarrow> ('l, 'g) manager \<Rightarrow> hash32 \<Rightarrow> (string \<times> mass_cancel_result) list \<times> ('l, 'g) manager" where
  "cancel_by_user_across_books A d m user_id = across (\<lambda>b. cancel_orders_by_user A d b user_id) m"

definition cancel_by_side_across_books ::
    "('l, 'g) pricelevel_api \<Rightarrow> 'x \<Rightarrow> ('l, 'g) manager \<Rightarrow> side \<Rightarrow> (string \<times> mass_cancel_result) list \<times> ('l, 'g) manager" where
  "cancel_by_side_across_books A d m s = across (\<lambda>b. cancel_orders_by_side A d b s) m"

definition manager_evict_expired ::
    "('l, 'g) pricelevel_api \<Rightarrow> 'x \<Rightarrow> ('l, 'g) manager \<Rightarrow> string \<Rightarrow> u64 \<Rightarrow> 'x order_type list option \<times> ('l, 'g) manager" where
  "manager_evict_expired A d m sy now =
     (case map_of (books m) sy of
        None \<Rightarrow> (None, m)
      | Some b \<Rightarrow> (let (gone, b1) = evict_expired_orders A d b now in (Some gone, put_book m sy b1)))"

definition evict_expired_across_books ::
    "('l, 'g) pricelevel_api \<Rightarrow> 'x \<Rightarrow> ('l, 'g) manager \<Rightarrow> u64 \<Rightarrow> (string \<times> 'x order_type list) list \<times> ('l, 'g) manager" where
  "evict_expired_across_books A d m now = across (\<lambda>b. evict_expired_orders A d b now) m"

section \<open>The trait\<close>

locale book_store =
  fixes fresh :: "string \<Rightarrow> 'b"
    and find :: "'m \<Rightarrow> string \<Rightarrow> 'b option"
    and has :: "'m \<Rightarrow> string \<Rightarrow> bool"
    and add :: "'m \<Rightarrow> string \<Rightarrow> (manager_error + unit) \<times> 'm"
    and remove :: "'m \<Rightarrow> string \<Rightarrow> 'b option \<times> 'm"
    and names :: "'m \<Rightarrow> string list"
    and size_of :: "'m \<Rightarrow> nat"
    and wf :: "'m \<Rightarrow> bool"
  assumes has_find: "has m x \<longleftrightarrow> find m x \<noteq> None"
    and add_refused: "has m x \<Longrightarrow> add m x = (Inl (BookAlreadyExists x), m)"
    and add_fresh: "\<not> has m x \<Longrightarrow> \<exists>m'. add m x = (Inr (), m') \<and> find m' = (find m)(x \<mapsto> fresh x) \<and> (wf m \<longrightarrow> wf m')"
    and remove_spec: "wf m \<Longrightarrow> \<exists>m'. remove m x = (find m x, m') \<and> find m' = (find m)(x := None) \<and> wf m'"
    and names_find: "wf m \<Longrightarrow> set (names m) = dom (find m)"
    and size_spec: "wf m \<Longrightarrow> size_of m = card (dom (find m))"
begin

lemma add_keeps_others: "add m x = (r, m') \<Longrightarrow> y \<noteq> x \<Longrightarrow> find m' y = find m y"
  using add_refused [of m x] add_fresh [of m x] by (cases "has m x") auto

lemma add_never_overwrites: "find m x = Some b \<Longrightarrow> add m x = (r, m') \<Longrightarrow> m' = m \<and> r = Inl (BookAlreadyExists x)"
  using add_refused [of m x] has_find by auto

lemma remove_add:
  assumes "wf m" "remove m x = (r, m1)"
  shows "\<exists>m2. add m1 x = (Inr (), m2) \<and> find m2 = (find m)(x \<mapsto> fresh x) \<and> wf m2"
proof -
  from remove_spec [OF assms(1), of x] assms(2) have m1: "find m1 = (find m)(x := None)" "wf m1" by auto
  then have "\<not> has m1 x" by (simp add: has_find)
  from add_fresh [OF this] m1 show ?thesis by auto
qed

end

definition manager_wf :: "('l, 'g) manager \<Rightarrow> bool" where
  "manager_wf m \<longleftrightarrow> distinct (map fst (books m))"

lemma dom_map_of_fst: "dom (map_of xs) = set (map fst xs)"
  by (simp add: dom_map_of_conv_image_fst)

lemma get_book_fun: "get_book m = map_of (books m)"
  by (rule ext) (simp add: get_book_def)

interpretation bm: book_store "\<lambda>sy. with_trade_listener sy w g" get_book has_book "add_book w g" remove_book symbols book_count manager_wf
proof (unfold_locales, goal_cases)
  case (3 m x)
  then show ?case
    by (auto simp: add_book_def get_book_def has_book_def manager_wf_def update_conv' distinct_update fun_eq_iff)
next
  case (4 m x)
  then show ?case
    by (auto simp: remove_book_def get_book_def manager_wf_def fun_eq_iff distinct_delete)
next
  case (5 m)
  show ?case by (simp add: symbols_def get_book_fun dom_map_of_fst)
next
  case (6 m)
  then show ?case
    using distinct_card [of "map fst (books m)"]
    by (simp add: book_count_def get_book_fun manager_wf_def dom_map_of_fst)
qed (simp_all add: has_book_def get_book_def add_book_def)

section \<open>Every managed book stays consistent\<close>

definition manager_inv :: "('l, 'g) pricelevel_api \<Rightarrow> ('l \<Rightarrow> bool) \<Rightarrow> ('l, 'g) manager \<Rightarrow> bool" where
  "manager_inv A ok m \<longleftrightarrow> manager_wf m \<and> (\<forall>sy b. get_book m sy = Some b \<longrightarrow> book_inv A ok b)"

lemma across_get: "get_book (snd (across f m)) sy = map_option (\<lambda>b. snd (f b)) (get_book m sy)"
proof -
  have "map_of (map (\<lambda>e. (fst e, snd (f (snd e)))) xs) sy = map_option (\<lambda>b. snd (f b)) (map_of xs sy)" for xs
    by (induction xs) auto
  then show ?thesis by (simp add: across_def get_book_def)
qed

lemma across_result:
  "map_of (fst (across f m)) sy = map_option (\<lambda>b. fst (f b)) (get_book m sy)"
proof -
  have "map_of (map (\<lambda>e. (fst e, fst (f (snd e)))) xs) sy = map_option (\<lambda>b. fst (f b)) (map_of xs sy)" for xs
    by (induction xs) auto
  then show ?thesis by (simp add: across_def get_book_def)
qed

lemma across_inv:
  assumes "manager_inv A ok m" "\<And>b. book_inv A ok b \<Longrightarrow> book_inv A ok (snd (f b))"
  shows "manager_inv A ok (snd (across f m))"
proof -
  have "map fst (books (snd (across f m))) = map fst (books m)" by (simp add: across_def)
  then show ?thesis using assms by (auto simp: manager_inv_def manager_wf_def across_get)
qed

lemma manager_inv_new: "manager_inv A ok manager_new"
  by (simp add: manager_inv_def manager_wf_def manager_new_def get_book_def)

lemma manager_inv_put:
  "manager_inv A ok m \<Longrightarrow> book_inv A ok b \<Longrightarrow> manager_inv A ok (put_book m sy b)"
  by (auto simp: manager_inv_def manager_wf_def put_book_def get_book_def distinct_update update_conv' split: if_splits)

lemma with_trade_listener_inv: "book_inv A ok (with_trade_listener sy w g)"
  unfolding with_trade_listener_def by (rule settings_inv [OF new_book_inv]) simp_all

lemma manager_add_inv: "manager_inv A ok m \<Longrightarrow> manager_inv A ok (snd (add_book w g m sy))"
  using manager_inv_put [OF _ with_trade_listener_inv, of A ok m sy sy w g] by (simp add: add_book_def put_book_def)

lemma manager_remove_inv: "manager_inv A ok m \<Longrightarrow> manager_inv A ok (snd (remove_book m sy))"
  by (auto simp: manager_inv_def manager_wf_def remove_book_def get_book_def distinct_delete split: if_splits)

lemma manager_mass_inv:
  assumes "price_levels A ok" "manager_inv A ok m"
  shows "manager_inv A ok (snd (cancel_all_across_books A m))"
    "manager_inv A ok (snd (cancel_by_user_across_books A d m u))"
    "manager_inv A ok (snd (cancel_by_side_across_books A d m s))"
    "manager_inv A ok (snd (evict_expired_across_books A d m now))"
    "manager_inv A ok (snd (manager_evict_expired A d m sy now))"
proof -
  show "manager_inv A ok (snd (cancel_all_across_books A m))"
    "manager_inv A ok (snd (cancel_by_user_across_books A d m u))"
    "manager_inv A ok (snd (cancel_by_side_across_books A d m s))"
    "manager_inv A ok (snd (evict_expired_across_books A d m now))"
    unfolding cancel_all_across_books_def cancel_by_user_across_books_def cancel_by_side_across_books_def
      evict_expired_across_books_def
    by (intro across_inv assms(2) cancel_all_inv [OF assms(1)] mass_cancel_inv [OF assms(1)]; assumption)+
  show "manager_inv A ok (snd (manager_evict_expired A d m sy now))"
  proof (cases "map_of (books m) sy")
    case (Some b)
    then have "book_inv A ok b" using assms(2) by (simp add: manager_inv_def get_book_def)
    then have "book_inv A ok (snd (evict_expired_orders A d b now))" by (rule mass_cancel_inv [OF assms(1)])
    then show ?thesis using Some manager_inv_put [OF assms(2)] by (simp add: manager_evict_expired_def split_beta)
  qed (use assms(2) in \<open>simp add: manager_evict_expired_def\<close>)
qed

text \<open>A mass operation acts on each book by that book's own operation and returns its result under
  the book's symbol; a single eviction touches one book only.\<close>

lemma across_exact:
  assumes "get_book m sy = Some b"
  shows "get_book (snd (across f m)) sy = Some (snd (f b)) \<and> map_of (fst (across f m)) sy = Some (fst (f b))"
  using assms by (simp add: across_get across_result)

lemma evict_one_book:
  "sy' \<noteq> sy \<Longrightarrow> get_book (snd (manager_evict_expired A d m sy now)) sy' = get_book m sy'"
  by (simp add: manager_evict_expired_def put_book_def get_book_def update_conv' split: option.splits prod.splits)

text \<open>The receiver is handed out once.\<close>

lemma processor_starts_once:
  "fst (start_trade_processor (snd (start_trade_processor m))) = Inl ProcessorAlreadyStarted"
  by (simp add: start_trade_processor_def)

end
