(* ===== verification/Wire.thy ===== *)
theory Wire
  imports Wire_Bytes Order_State "HOL-Library.Code_Target_Nat"
begin

text \<open>
  The binary wire protocol of \<open>src/wire\<close>: the frame codec, the four inbound messages with their
  packed layouts, the conversion of a new-order message into an order, and the three outbound
  messages.  The cast between bytes and packed structs is the zerocopy crate's; it is the parameter
  \<open>Z\<close>, with its documented behaviour as the locale \<open>zerocopy_layer\<close>.
\<close>

section \<open>Errors and kinds\<close>

datatype wire_error = Truncated | UnknownKind byte | InvalidPayload string

datatype message_kind =
    NewOrder | CancelOrder | CancelReplace | MassCancel | ExecReport | TradePrint | BookUpdate

definition kind_from_u8 :: "byte \<Rightarrow> wire_error + message_kind" where
  "kind_from_u8 x =
     (if x = 0x01 then Inr NewOrder
      else if x = 0x02 then Inr CancelOrder
      else if x = 0x03 then Inr CancelReplace
      else if x = 0x04 then Inr MassCancel
      else if x = 0x81 then Inr ExecReport
      else if x = 0x82 then Inr TradePrint
      else if x = 0x83 then Inr BookUpdate
      else Inl (UnknownKind x))"

fun kind_as_u8 :: "message_kind \<Rightarrow> byte" where
  "kind_as_u8 NewOrder = 0x01"
| "kind_as_u8 CancelOrder = 0x02"
| "kind_as_u8 CancelReplace = 0x03"
| "kind_as_u8 MassCancel = 0x04"
| "kind_as_u8 ExecReport = 0x81"
| "kind_as_u8 TradePrint = 0x82"
| "kind_as_u8 BookUpdate = 0x83"

definition is_inbound :: "message_kind \<Rightarrow> bool" where
  "is_inbound k \<longleftrightarrow> kind_as_u8 k < 0x80"

definition is_outbound :: "message_kind \<Rightarrow> bool" where
  "is_outbound k \<longleftrightarrow> 0x80 \<le> kind_as_u8 k"

section \<open>Frames\<close>

text \<open>The writer is any \<open>io::Write\<close>: \<open>wr out bytes\<close> is \<open>out.write_all(bytes)\<close>.  The writer of a
  \<open>Vec<u8>\<close> appends and does not fail.\<close>

datatype io_error = InvalidInput string | WriteFailed string

definition vec_write :: "bytes \<Rightarrow> bytes \<Rightarrow> io_error + bytes" where
  "vec_write out xs = Inr (out @ xs)"

definition encode_frame :: "('w \<Rightarrow> bytes \<Rightarrow> io_error + 'w) \<Rightarrow> byte \<Rightarrow> bytes \<Rightarrow> 'w \<Rightarrow> io_error + 'w" where
  "encode_frame wr kind payload out =
     (case checked_add64 (length payload) 1 of
        None \<Rightarrow> Inl (InvalidInput ''frame payload too large'')
      | Some body_len \<Rightarrow>
          if u32_max < body_len then Inl (InvalidInput ''frame payload too large'')
          else and_then (wr out (to_le_bytes 4 (of_nat body_len :: 32 word))) (\<lambda>out1.
               and_then (wr out1 [kind]) (\<lambda>out2. wr out2 payload)))"

definition decode_frame :: "bytes \<Rightarrow> wire_error + byte \<times> bytes \<times> nat" where
  "decode_frame buf =
     (if length buf < 5 then Inl Truncated
      else case get_slice 0 4 buf of
        None \<Rightarrow> Inl Truncated
      | Some len_bytes \<Rightarrow>
          (let body_len = unat (from_le_bytes len_bytes :: 32 word) in
           if body_len < 1 then Inl (InvalidPayload ''frame body shorter than kind'')
           else case checked_add64 4 body_len of
             None \<Rightarrow> Inl Truncated
           | Some n \<Rightarrow>
               if length buf < n then Inl Truncated
               else case get_at 4 buf of
                 None \<Rightarrow> Inl Truncated
               | Some kind \<Rightarrow>
                   (case get_slice 5 (4 + body_len) buf of
                      None \<Rightarrow> Inl Truncated
                    | Some payload \<Rightarrow> Inr (kind, payload, n))))"

section \<open>Reading fields\<close>

text \<open>The closures \<open>read_u64\<close>, \<open>read_i64\<close> and \<open>read_u16\<close> of the outbound decoders.\<close>

definition read_int :: "nat \<Rightarrow> bytes \<Rightarrow> nat \<Rightarrow> wire_error + 'a::len word" where
  "read_int n payload offset =
     (case get_slice offset (offset + n) payload of
        None \<Rightarrow> Inl Truncated
      | Some slot \<Rightarrow> Inr (from_le_bytes slot))"

definition read_byte :: "bytes \<Rightarrow> nat \<Rightarrow> wire_error + byte" where
  "read_byte payload offset =
     (case get_at offset payload of None \<Rightarrow> Inl Truncated | Some x \<Rightarrow> Inr x)"

section \<open>Inbound messages\<close>

text \<open>A packed struct is its bytes in memory: field after field, little-endian.  \<open>zc_ref_from_bytes\<close>
  is the checked cast of a byte slice to a struct of the given size, \<open>zc_as_bytes\<close> the view of a
  struct's memory.\<close>

record zerocopy_api =
  zc_ref_from_bytes :: "nat \<Rightarrow> bytes \<Rightarrow> bytes option"
  zc_as_bytes :: "bytes \<Rightarrow> bytes"

record cancel_order_wire =
  co_client_ts :: "64 word"
  co_order_id :: "64 word"
  co_account_id :: "64 word"

definition cancel_order_memory :: "cancel_order_wire \<Rightarrow> bytes" where
  "cancel_order_memory w =
     to_le_bytes 8 (co_client_ts w) @ to_le_bytes 8 (co_order_id w) @ to_le_bytes 8 (co_account_id w)"

definition cancel_order_view :: "bytes \<Rightarrow> cancel_order_wire" where
  "cancel_order_view m =
     \<lparr>co_client_ts = from_le_bytes (take 8 m), co_order_id = from_le_bytes (take 8 (drop 8 m)),
      co_account_id = from_le_bytes (take 8 (drop 16 m))\<rparr>"

definition decode_cancel_order :: "zerocopy_api \<Rightarrow> bytes \<Rightarrow> wire_error + cancel_order_wire" where
  "decode_cancel_order Z payload =
     (case zc_ref_from_bytes Z 24 payload of
        None \<Rightarrow> Inl (InvalidPayload ''CancelOrder: payload size mismatch'')
      | Some view \<Rightarrow> Inr (cancel_order_view view))"

record cancel_replace_wire =
  cr_client_ts :: "64 word"
  cr_order_id :: "64 word"
  cr_account_id :: "64 word"
  cr_new_price :: "64 word"
  cr_new_qty :: "64 word"

definition cancel_replace_memory :: "cancel_replace_wire \<Rightarrow> bytes" where
  "cancel_replace_memory w =
     to_le_bytes 8 (cr_client_ts w) @ to_le_bytes 8 (cr_order_id w) @ to_le_bytes 8 (cr_account_id w) @
     to_le_bytes 8 (cr_new_price w) @ to_le_bytes 8 (cr_new_qty w)"

definition cancel_replace_view :: "bytes \<Rightarrow> cancel_replace_wire" where
  "cancel_replace_view m =
     \<lparr>cr_client_ts = from_le_bytes (take 8 m), cr_order_id = from_le_bytes (take 8 (drop 8 m)),
      cr_account_id = from_le_bytes (take 8 (drop 16 m)), cr_new_price = from_le_bytes (take 8 (drop 24 m)),
      cr_new_qty = from_le_bytes (take 8 (drop 32 m))\<rparr>"

definition decode_cancel_replace :: "zerocopy_api \<Rightarrow> bytes \<Rightarrow> wire_error + cancel_replace_wire" where
  "decode_cancel_replace Z payload =
     (case zc_ref_from_bytes Z 40 payload of
        None \<Rightarrow> Inl (InvalidPayload ''CancelReplace: payload size mismatch'')
      | Some view \<Rightarrow> Inr (cancel_replace_view view))"

record mass_cancel_wire =
  mc_client_ts :: "64 word"
  mc_account_id :: "64 word"
  mc_scope :: byte
  mc_pad :: bytes

definition mass_cancel_memory :: "mass_cancel_wire \<Rightarrow> bytes" where
  "mass_cancel_memory w =
     to_le_bytes 8 (mc_client_ts w) @ to_le_bytes 8 (mc_account_id w) @ [mc_scope w] @ mc_pad w"

definition mass_cancel_view :: "bytes \<Rightarrow> mass_cancel_wire" where
  "mass_cancel_view m =
     \<lparr>mc_client_ts = from_le_bytes (take 8 m), mc_account_id = from_le_bytes (take 8 (drop 8 m)),
      mc_scope = m ! 16, mc_pad = take 7 (drop 17 m)\<rparr>"

definition decode_mass_cancel :: "zerocopy_api \<Rightarrow> bytes \<Rightarrow> wire_error + mass_cancel_wire" where
  "decode_mass_cancel Z payload =
     (case zc_ref_from_bytes Z 24 payload of
        None \<Rightarrow> Inl (InvalidPayload ''MassCancel: payload size mismatch'')
      | Some m \<Rightarrow>
          (let view = mass_cancel_view m; pad = mc_pad view in
           if mc_scope view = 0 \<or> mc_scope view = 1 then
             (if list_ex (\<lambda>x. x \<noteq> 0) pad then Inl (InvalidPayload ''MassCancel: non-zero reserved padding'')
              else Inr view)
           else if mc_scope view = 2 then
             (case pad of
                [] \<Rightarrow> Inl Truncated
              | head # tail \<Rightarrow>
                  if head AND NOT 1 \<noteq> 0 then Inl (InvalidPayload ''MassCancel: reserved bits set in BySide pad[0]'')
                  else if list_ex (\<lambda>x. x \<noteq> 0) tail then Inl (InvalidPayload ''MassCancel: non-zero reserved padding'')
                  else Inr view)
           else Inl (InvalidPayload ''MassCancel: unknown scope'')))"

record new_order_wire =
  no_client_ts :: "64 word"
  no_order_id :: "64 word"
  no_account_id :: "64 word"
  no_price :: "64 word"
  no_qty :: "64 word"
  no_side :: byte
  no_time_in_force :: byte
  no_order_type :: byte
  no_pad :: bytes

definition new_order_memory :: "new_order_wire \<Rightarrow> bytes" where
  "new_order_memory w =
     to_le_bytes 8 (no_client_ts w) @ to_le_bytes 8 (no_order_id w) @ to_le_bytes 8 (no_account_id w) @
     to_le_bytes 8 (no_price w) @ to_le_bytes 8 (no_qty w) @
     [no_side w, no_time_in_force w, no_order_type w] @ no_pad w"

definition new_order_view :: "bytes \<Rightarrow> new_order_wire" where
  "new_order_view m =
     \<lparr>no_client_ts = from_le_bytes (take 8 m), no_order_id = from_le_bytes (take 8 (drop 8 m)),
      no_account_id = from_le_bytes (take 8 (drop 16 m)), no_price = from_le_bytes (take 8 (drop 24 m)),
      no_qty = from_le_bytes (take 8 (drop 32 m)), no_side = m ! 40, no_time_in_force = m ! 41,
      no_order_type = m ! 42, no_pad = take 5 (drop 43 m)\<rparr>"

definition decode_new_order :: "zerocopy_api \<Rightarrow> bytes \<Rightarrow> wire_error + new_order_wire" where
  "decode_new_order Z payload =
     (case zc_ref_from_bytes Z 48 payload of
        None \<Rightarrow> Inl (InvalidPayload ''NewOrder: payload size mismatch'')
      | Some view \<Rightarrow> Inr (new_order_view view))"

text \<open>\<open>as_payload_bytes\<close> of the four structs.\<close>

definition as_payload_bytes :: "zerocopy_api \<Rightarrow> bytes \<Rightarrow> bytes" where
  "as_payload_bytes Z memory = zc_as_bytes Z memory"

text \<open>A \<open>Hash32\<close> as a number: its 32 bytes read little-endian.  \<open>id_from_u64\<close> is the id crate's
  constructor.\<close>

definition hash32_new :: "bytes \<Rightarrow> hash32" where
  "hash32_new xs = unat (from_le_bytes xs :: 256 word)"

definition wire_side :: "byte \<Rightarrow> wire_error + side" where
  "wire_side x =
     (if x = 0 then Inr Buy else if x = 1 then Inr Sell else Inl (InvalidPayload ''NewOrder: unknown side''))"

definition wire_tif :: "byte \<Rightarrow> wire_error + time_in_force" where
  "wire_tif x =
     (if x = 0 then Inr Gtc else if x = 1 then Inr Ioc else if x = 2 then Inr Fok else if x = 3 then Inr Day
      else Inl (InvalidPayload ''NewOrder: unknown time_in_force''))"

definition try_from_new_order :: "(u64 \<Rightarrow> ident) \<Rightarrow> new_order_wire \<Rightarrow> wire_error + unit order_type" where
  "try_from_new_order id_from_u64 w =
     (if list_ex (\<lambda>x. x \<noteq> 0) (no_pad w) then Inl (InvalidPayload ''NewOrder: non-zero reserved padding'')
      else if sint (no_price w) < 0 then Inl (InvalidPayload ''NewOrder: negative price'')
      else if no_price w = 0 then Inl (InvalidPayload ''NewOrder: zero price'')
      else if no_qty w = 0 then Inl (InvalidPayload ''NewOrder: zero quantity'')
      else if no_account_id w = 0 then Inl (InvalidPayload ''NewOrder: account_id 0 reserved'')
      else and_then (wire_side (no_side w)) (\<lambda>s.
           and_then (wire_tif (no_time_in_force w)) (\<lambda>tif.
           if no_order_type w \<noteq> 0 then Inl (InvalidPayload ''NewOrder: unsupported order_type'')
           else
             (let user_bytes = to_le_bytes 8 (no_account_id w) @ replicate 24 0
              in Inr (Standard (id_from_u64 (unat (no_order_id w))) (unat (no_price w)) (unat (no_qty w)) s
                        (hash32_new user_bytes) (unat (no_client_ts w)) tif ())))))"

section \<open>Outbound messages\<close>

record exec_report =
  er_engine_seq :: "64 word"
  er_order_id :: "64 word"
  er_status :: byte
  er_filled_qty :: "64 word"
  er_remaining_qty :: "64 word"
  er_price :: "64 word"
  er_reject_reason :: "16 word"
  er_pad :: byte

fun status_to_wire :: "order_status \<Rightarrow> byte" where
  "status_to_wire Open = 0"
| "status_to_wire (PartiallyFilled _ _) = 1"
| "status_to_wire (Filled _) = 2"
| "status_to_wire (Cancelled _ _) = 3"
| "status_to_wire (Rejected _) = 4"

definition encode_exec_report :: "exec_report \<Rightarrow> bytes \<Rightarrow> bytes" where
  "encode_exec_report r out =
     out @ to_le_bytes 8 (er_engine_seq r) @ to_le_bytes 8 (er_order_id r) @ [er_status r] @
     to_le_bytes 8 (er_filled_qty r) @ to_le_bytes 8 (er_remaining_qty r) @ to_le_bytes 8 (er_price r) @
     to_le_bytes 2 (er_reject_reason r) @ [er_pad r]"

definition decode_exec_report :: "bytes \<Rightarrow> wire_error + exec_report" where
  "decode_exec_report payload =
     (if length payload \<noteq> 44 then Inl (InvalidPayload ''ExecReport: payload size mismatch'')
      else and_then (read_int 8 payload 0) (\<lambda>engine_seq.
           and_then (read_int 8 payload 8) (\<lambda>order_id.
           and_then (read_byte payload 16) (\<lambda>status.
           if 4 < status then Inl (InvalidPayload ''ExecReport: unknown status'')
           else and_then (read_int 8 payload 17) (\<lambda>filled_qty.
           and_then (read_int 8 payload 25) (\<lambda>remaining_qty.
           and_then (read_int 8 payload 33) (\<lambda>price.
           and_then (read_int 2 payload 41) (\<lambda>reject_reason.
           and_then (read_byte payload 43) (\<lambda>pad.
           if pad \<noteq> 0 then Inl (InvalidPayload ''ExecReport: non-zero reserved padding'')
           else Inr \<lparr>er_engine_seq = engine_seq, er_order_id = order_id, er_status = status,
                     er_filled_qty = filled_qty, er_remaining_qty = remaining_qty, er_price = price,
                     er_reject_reason = reject_reason, er_pad = pad\<rparr>)))))))))"

record trade_print_wire =
  tp_engine_seq :: "64 word"
  tp_maker_id :: "64 word"
  tp_taker_id :: "64 word"
  tp_price :: "64 word"
  tp_qty :: "64 word"
  tp_ts :: "64 word"

definition encode_trade_print :: "trade_print_wire \<Rightarrow> bytes \<Rightarrow> bytes" where
  "encode_trade_print t out =
     out @ to_le_bytes 8 (tp_engine_seq t) @ to_le_bytes 8 (tp_maker_id t) @ to_le_bytes 8 (tp_taker_id t) @
     to_le_bytes 8 (tp_price t) @ to_le_bytes 8 (tp_qty t) @ to_le_bytes 8 (tp_ts t)"

definition decode_trade_print :: "bytes \<Rightarrow> wire_error + trade_print_wire" where
  "decode_trade_print payload =
     (if length payload \<noteq> 48 then Inl (InvalidPayload ''TradePrint: payload size mismatch'')
      else and_then (read_int 8 payload 0) (\<lambda>engine_seq.
           and_then (read_int 8 payload 8) (\<lambda>maker_id.
           and_then (read_int 8 payload 16) (\<lambda>taker_id.
           and_then (read_int 8 payload 24) (\<lambda>price.
           and_then (read_int 8 payload 32) (\<lambda>qty.
           and_then (read_int 8 payload 40) (\<lambda>ts.
           Inr \<lparr>tp_engine_seq = engine_seq, tp_maker_id = maker_id, tp_taker_id = taker_id,
                tp_price = price, tp_qty = qty, tp_ts = ts\<rparr>)))))))"

record book_update_wire =
  bu_engine_seq :: "64 word"
  bu_side :: byte
  bu_price :: "64 word"
  bu_qty :: "64 word"

definition encode_book_update :: "book_update_wire \<Rightarrow> bytes \<Rightarrow> bytes" where
  "encode_book_update u out =
     out @ to_le_bytes 8 (bu_engine_seq u) @ [bu_side u] @ to_le_bytes 8 (bu_price u) @
     to_le_bytes 8 (bu_qty u) @ replicate 7 0"

definition decode_book_update :: "bytes \<Rightarrow> wire_error + book_update_wire" where
  "decode_book_update payload =
     (if length payload \<noteq> 32 then Inl (InvalidPayload ''BookUpdate: payload size mismatch'')
      else and_then (read_int 8 payload 0) (\<lambda>engine_seq.
           and_then (read_byte payload 8) (\<lambda>s.
           if s \<noteq> 0 \<and> s \<noteq> 1 then Inl (InvalidPayload ''BookUpdate: unknown side'')
           else and_then (read_int 8 payload 9) (\<lambda>price.
           and_then (read_int 8 payload 17) (\<lambda>qty.
           case get_slice 25 32 payload of
             None \<Rightarrow> Inl Truncated
           | Some pad \<Rightarrow>
               if list_ex (\<lambda>x. x \<noteq> 0) pad then Inl (InvalidPayload ''BookUpdate: non-zero reserved padding'')
               else Inr \<lparr>bu_engine_seq = engine_seq, bu_side = s, bu_price = price, bu_qty = qty\<rparr>)))))"

section \<open>Frames: proofs\<close>

definition frame :: "byte \<Rightarrow> bytes \<Rightarrow> bytes" where
  "frame kind payload = to_le_bytes 4 (of_nat (length payload + 1) :: 32 word) @ [kind] @ payload"

lemma frame_length [simp]: "length (frame k p) = length p + 5"
  by (simp add: frame_def)

lemma encode_frame_vec:
  "length payload < u32_max \<Longrightarrow> encode_frame vec_write kind payload out = Inr (out @ frame kind payload)"
  by (simp add: encode_frame_def checked_add64_def vec_write_def frame_def u32_max_def u64_max_def)

lemma body_len_exact: "length payload < u32_max \<Longrightarrow> unat (of_nat (length payload + 1) :: 32 word) = length payload + 1"
  by (simp add: unsigned_of_nat u32_max_def take_bit_nat_eq_self del: of_nat_add of_nat_Suc)

lemma decode_frame_prefix:
  assumes "length payload < u32_max"
  shows "decode_frame (frame kind payload @ rest) = Inr (kind, payload, length payload + 5)"
proof -
  let ?buf = "frame kind payload @ rest"
  have "take 4 ?buf = to_le_bytes 4 (of_nat (length payload + 1) :: 32 word)" by (simp add: frame_def)
  moreover have "?buf ! 4 = kind" by (simp add: frame_def nth_append)
  moreover have "take (length payload) (drop 5 ?buf) = payload" by (simp add: frame_def)
  moreover have "length payload + 5 \<le> u64_max" using assms by (simp add: u32_max_def u64_max_def)
  ultimately show ?thesis
    using body_len_exact [OF assms]
    by (simp add: decode_frame_def get_slice_def get_at_def checked_add64_def Let_def add.commute del: of_nat_add of_nat_Suc)
qed

lemma decode_frame_sound:
  assumes "decode_frame buf = Inr (kind, payload, n)"
  shows "n = length payload + 5 \<and> take n buf = frame kind payload \<and> length payload < u32_max"
proof -
  let ?w = "from_le_bytes (take 4 buf) :: 32 word"
  let ?m = "unat ?w"
  have len: "5 \<le> length buf" and m: "1 \<le> ?m" "?m + 4 \<le> length buf" "n = ?m + 4"
    and k: "kind = buf ! 4" and p: "payload = take (?m - 1) (drop 5 buf)"
    using assms by (auto simp: decode_frame_def get_slice_def get_at_def checked_add64_def Let_def split: if_splits)
  have lp: "length payload = ?m - 1" using m p by simp
  have "?m < 2 ^ 32" using unsigned_less [of ?w, where 'a = nat] by simp
  then have "length payload < u32_max" using lp m(1) by (simp add: u32_max_def)
  moreover have "take n buf = frame kind payload"
  proof -
    have "to_le_bytes 4 (of_nat (length payload + 1) :: 32 word) = take 4 buf"
      using lp m(1) len by (simp add: min_def)
    moreover have "take n buf = take 4 buf @ take (n - 4) (drop 4 buf)" using m by (simp add: take_add [symmetric] add.commute)
    moreover have "take (n - 4) (drop 4 buf) = kind # payload"
    proof -
      have "drop 4 buf = buf ! 4 # drop 5 buf" using len Cons_nth_drop_Suc [of 4 buf] by simp
      then show ?thesis using m k p by (cases ?m) auto
    qed
    ultimately show ?thesis by (simp add: frame_def)
  qed
  ultimately show ?thesis using lp m by simp
qed

text \<open>C29: the frame codec is exact.  What \<open>encode_frame\<close> appends to a buffer, followed by anything,
  decodes to the same kind and payload and consumes exactly the bytes of that frame; whatever
  decodes re-encodes to the bytes consumed; and a payload whose length does not fit the length
  prefix is refused without writing.\<close>

theorem frame_roundtrip:
  "(if length payload < u32_max
    then \<exists>f. encode_frame vec_write kind payload out = Inr (out @ f) \<and>
           decode_frame (f @ rest) = Inr (kind, payload, length f)
    else encode_frame vec_write kind payload out = Inl (InvalidInput ''frame payload too large'')) \<and>
   (\<forall>k p n. decode_frame buf = Inr (k, p, n) \<longrightarrow>
      encode_frame vec_write k p [] = Inr (take n buf) \<and> 5 \<le> n \<and> n \<le> length buf)"
proof (intro conjI allI impI)
  show "if length payload < u32_max
    then \<exists>f. encode_frame vec_write kind payload out = Inr (out @ f) \<and>
           decode_frame (f @ rest) = Inr (kind, payload, length f)
    else encode_frame vec_write kind payload out = Inl (InvalidInput ''frame payload too large'')"
  proof (cases "length payload < u32_max")
    case True
    then show ?thesis using encode_frame_vec decode_frame_prefix by (auto intro!: exI [of _ "frame kind payload"])
  qed (auto simp: encode_frame_def checked_add64_def u32_max_def u64_max_def)
next
  fix k p n assume "decode_frame buf = Inr (k, p, n)"
  note S = decode_frame_sound [OF this]
  show "encode_frame vec_write k p [] = Inr (take n buf)" using S encode_frame_vec [of p k "[]"] by auto
  show "5 \<le> n" using S by simp
  show "n \<le> length buf" using S by (metis frame_length length_take min.cobounded1)
qed

theorem frame_roundtrip_witness:
  "decode_frame [3, 0, 0, 0, 2, 0xAA, 0xBB, 9] = Inr (2, [0xAA, 0xBB], 7) \<and>
   encode_frame vec_write 2 [0xAA, 0xBB] [] = Inr [3, 0, 0, 0, 2, 0xAA, 0xBB]"
proof -
  have "decode_frame [3, 0, 0, 0, 2, 0xAA, 0xBB, 9] = Inr (2, [0xAA, 0xBB], 7)" by code_simp
  with frame_roundtrip [where buf = "[3, 0, 0, 0, 2, 0xAA, 0xBB, 9]"] show ?thesis by simp
qed

section \<open>Messages: proofs\<close>

text \<open>A struct's memory and the fields read from it determine each other.\<close>

lemma view_memory [simp]:
  "cancel_order_view (cancel_order_memory c) = c" "cancel_replace_view (cancel_replace_memory r) = r"
  "length (mc_pad m) = 7 \<Longrightarrow> mass_cancel_view (mass_cancel_memory m) = m"
  "length (no_pad w) = 5 \<Longrightarrow> new_order_view (new_order_memory w) = w"
  by (simp_all add: cancel_order_view_def cancel_order_memory_def cancel_replace_view_def cancel_replace_memory_def
      mass_cancel_view_def mass_cancel_memory_def new_order_view_def new_order_memory_def nth_append)

lemma memory_length [simp]:
  "length (cancel_order_memory c) = 24" "length (cancel_replace_memory r) = 40"
  "length (mass_cancel_memory m) = 17 + length (mc_pad m)" "length (new_order_memory w) = 43 + length (no_pad w)"
  by (simp_all add: cancel_order_memory_def cancel_replace_memory_def mass_cancel_memory_def new_order_memory_def)

lemma cancel_order_memory_view: "length p = 24 \<Longrightarrow> cancel_order_memory (cancel_order_view p) = p"
proof -
  assume "length p = 24"
  then obtain a p1 where 1: "p = a @ p1" "length a = 8" "length p1 = 16" using cut [of 8 p] by auto
  then obtain b c where "p1 = b @ c" "length b = 8" "length c = 8" using cut [of 8 p1] by auto
  with 1 show ?thesis by (simp add: cancel_order_memory_def cancel_order_view_def)
qed

lemma cancel_replace_memory_view: "length p = 40 \<Longrightarrow> cancel_replace_memory (cancel_replace_view p) = p"
proof -
  assume "length p = 40"
  then obtain a p1 where 1: "p = a @ p1" "length a = 8" "length p1 = 32" using cut [of 8 p] by auto
  then obtain b p2 where 2: "p1 = b @ p2" "length b = 8" "length p2 = 24" using cut [of 8 p1] by auto
  then obtain c p3 where 3: "p2 = c @ p3" "length c = 8" "length p3 = 16" using cut [of 8 p2] by auto
  then obtain d e where "p3 = d @ e" "length d = 8" "length e = 8" using cut [of 8 p3] by auto
  with 1 2 3 show ?thesis by (simp add: cancel_replace_memory_def cancel_replace_view_def)
qed

lemma mass_cancel_memory_view:
  "length p = 24 \<Longrightarrow> mass_cancel_memory (mass_cancel_view p) = p \<and> length (mc_pad (mass_cancel_view p)) = 7"
proof -
  assume "length p = 24"
  then obtain a p1 where 1: "p = a @ p1" "length a = 8" "length p1 = 16" using cut [of 8 p] by auto
  then obtain b p2 where 2: "p1 = b @ p2" "length b = 8" "length p2 = 8" using cut [of 8 p1] by auto
  then obtain s z where "p2 = s # z" "length z = 7" using cut_one [of p2] by auto
  with 1 2 show ?thesis by (simp add: mass_cancel_memory_def mass_cancel_view_def nth_append)
qed

lemma new_order_memory_view:
  "length p = 48 \<Longrightarrow> new_order_memory (new_order_view p) = p \<and> length (no_pad (new_order_view p)) = 5"
proof -
  assume "length p = 48"
  then obtain a p1 where 1: "p = a @ p1" "length a = 8" "length p1 = 40" using cut [of 8 p] by auto
  then obtain b p2 where 2: "p1 = b @ p2" "length b = 8" "length p2 = 32" using cut [of 8 p1] by auto
  then obtain c p3 where 3: "p2 = c @ p3" "length c = 8" "length p3 = 24" using cut [of 8 p2] by auto
  then obtain d p4 where 4: "p3 = d @ p4" "length d = 8" "length p4 = 16" using cut [of 8 p3] by auto
  then obtain e p5 where 5: "p4 = e @ p5" "length e = 8" "length p5 = 8" using cut [of 8 p4] by auto
  then obtain x q1 where 6: "p5 = x # q1" "length q1 = 7" using cut_one [of p5] by auto
  then obtain y q2 where 7: "q1 = y # q2" "length q2 = 6" using cut_one [of q1] by auto
  then obtain v q3 where "q2 = v # q3" "length q3 = 5" using cut_one [of q2] by auto
  with 1 2 3 4 5 6 7 show ?thesis by (simp add: new_order_memory_def new_order_view_def nth_append)
qed

definition mass_cancel_valid :: "mass_cancel_wire \<Rightarrow> bool" where
  "mass_cancel_valid m \<longleftrightarrow> length (mc_pad m) = 7 \<and>
     (mc_scope m \<in> {0, 1} \<and> mc_pad m = replicate 7 0 \<or>
      mc_scope m = 2 \<and> mc_pad m \<in> {replicate 7 0, 1 # replicate 6 0})"

lemma and_not_one: "(x :: byte) AND NOT 1 = 0 \<longleftrightarrow> x = 0 \<or> x = 1"
proof
  assume a: "x AND NOT 1 = 0"
  have "x = of_bool (bit x 0)"
  proof (rule bit_word_eqI)
    fix n assume "n < LENGTH(8)"
    have "\<not> bit (x AND NOT 1) n" by (subst a) simp
    then have "\<not> bit x n" if "n \<noteq> 0"
      using that \<open>n < LENGTH(8)\<close> by (simp only: bit_and_iff bit_not_iff bit_1_iff possible_bit_word) blast
    then show "bit x n = bit (of_bool (bit x 0) :: byte) n" by (cases n) (auto simp: bit_of_bool_iff)
  qed
  then show "x = 0 \<or> x = 1" by (cases "bit x 0") auto
qed auto

lemma not_ex_nonzero: "\<not> list_ex (\<lambda>x. x \<noteq> 0) xs \<longleftrightarrow> xs = replicate (length xs) (0 :: byte)"
  by (simp add: list_ex_iff replicate_length_same eq_commute [of xs]) (metis in_set_replicate replicate_length_same)

locale zerocopy_layer =
  fixes Z :: zerocopy_api
  assumes ref_from_bytes: "zc_ref_from_bytes Z n p = (if length p = n then Some p else None)"
    and as_bytes: "zc_as_bytes Z m = m"
begin

lemma decode_cancel_order_iff: "decode_cancel_order Z p = Inr c \<longleftrightarrow> p = as_payload_bytes Z (cancel_order_memory c)"
  using cancel_order_memory_view [of p]
  by (auto simp: decode_cancel_order_def as_payload_bytes_def ref_from_bytes as_bytes)

lemma decode_cancel_replace_iff:
  "decode_cancel_replace Z p = Inr r \<longleftrightarrow> p = as_payload_bytes Z (cancel_replace_memory r)"
  using cancel_replace_memory_view [of p]
  by (auto simp: decode_cancel_replace_def as_payload_bytes_def ref_from_bytes as_bytes)

lemma decode_new_order_iff:
  "decode_new_order Z p = Inr w \<longleftrightarrow> p = as_payload_bytes Z (new_order_memory w) \<and> length (no_pad w) = 5"
  using new_order_memory_view [of p]
  by (auto simp: decode_new_order_def as_payload_bytes_def ref_from_bytes as_bytes)

lemma decode_mass_cancel_iff:
  "decode_mass_cancel Z p = Inr m \<longleftrightarrow> p = as_payload_bytes Z (mass_cancel_memory m) \<and> mass_cancel_valid m"
proof (cases "length p = 24")
  case True
  let ?m = "mass_cancel_view p"
  obtain x xs where pad: "mc_pad ?m = x # xs" "length xs = 6"
    using mass_cancel_memory_view [OF True] by (auto simp: length_Suc_conv numeral_eq_Suc)
  have "decode_mass_cancel Z p = Inr m \<longleftrightarrow> m = ?m \<and> mass_cancel_valid ?m"
    using True pad not_ex_nonzero [of xs] and_not_one [of x]
    by (auto simp: decode_mass_cancel_def ref_from_bytes Let_def mass_cancel_valid_def numeral_eq_Suc)
  then show ?thesis
    using mass_cancel_memory_view [OF True] by (auto simp: as_payload_bytes_def as_bytes mass_cancel_valid_def)
qed (auto simp: decode_mass_cancel_def ref_from_bytes as_payload_bytes_def as_bytes mass_cancel_valid_def)

end

definition zerocopy_std :: zerocopy_api where
  "zerocopy_std = \<lparr>zc_ref_from_bytes = (\<lambda>n p. if length p = n then Some p else None), zc_as_bytes = (\<lambda>m. m)\<rparr>"

interpretation zc: zerocopy_layer zerocopy_std
  by unfold_locales (simp_all add: zerocopy_std_def)

text \<open>C30: the inbound decoders accept exactly the encodings of valid messages.  For each of the four
  inbound messages, a payload decodes to a message if and only if it is that message's packed
  memory; a mass cancel must in addition have a known scope and clear reserved bits.  So decoding
  inverts encoding, no two messages share an encoding, and every other payload is refused.\<close>

theorem inbound_codec_exact:
  assumes "zerocopy_layer Z"
  shows "(decode_cancel_order Z p = Inr c \<longleftrightarrow> p = as_payload_bytes Z (cancel_order_memory c)) \<and>
    (decode_cancel_replace Z p = Inr r \<longleftrightarrow> p = as_payload_bytes Z (cancel_replace_memory r)) \<and>
    (decode_mass_cancel Z p = Inr m \<longleftrightarrow> p = as_payload_bytes Z (mass_cancel_memory m) \<and> mass_cancel_valid m) \<and>
    (decode_new_order Z p = Inr w \<longleftrightarrow> p = as_payload_bytes Z (new_order_memory w) \<and> length (no_pad w) = 5)"
  using zerocopy_layer.decode_cancel_order_iff [OF assms] zerocopy_layer.decode_cancel_replace_iff [OF assms]
    zerocopy_layer.decode_mass_cancel_iff [OF assms] zerocopy_layer.decode_new_order_iff [OF assms]
  by (intro conjI) assumption+

theorem inbound_codec_exact_witness:
  "decode_mass_cancel zerocopy_std ([7, 0, 0, 0, 0, 0, 0, 0, 9, 0, 0, 0, 0, 0, 0, 0, 2, 1] @ replicate 6 0) =
     Inr \<lparr>mc_client_ts = 7, mc_account_id = 9, mc_scope = 2, mc_pad = 1 # replicate 6 0\<rparr>"
proof -
  let ?m = "\<lparr>mc_client_ts = 7, mc_account_id = 9, mc_scope = 2, mc_pad = 1 # replicate 6 0\<rparr>"
  let ?p = "[7, 0, 0, 0, 0, 0, 0, 0, 9, 0, 0, 0, 0, 0, 0, 0, 2, 1] @ replicate 6 0 :: bytes"
  have "?p = as_payload_bytes zerocopy_std (mass_cancel_memory ?m)" by code_simp
  moreover have "mass_cancel_valid ?m" by (simp add: mass_cancel_valid_def)
  ultimately show ?thesis using inbound_codec_exact [OF zc.zerocopy_layer_axioms] by blast
qed

section \<open>Orders from the wire\<close>

lemma bit_le_pad:
  "bit (from_le_bytes (xs @ replicate m 0) :: 'a::len word) k \<longleftrightarrow> bit (from_le_bytes xs :: 'a word) k"
  by (auto simp: bit_from_le_bytes nth_append)

lemma account_hash: "hash32_new (to_le_bytes 8 (a :: 64 word) @ replicate 24 0) = unat a"
proof -
  have "(from_le_bytes (to_le_bytes 8 a @ replicate 24 0) :: 256 word) = ucast (from_le_bytes (to_le_bytes 8 a) :: 64 word)"
    by (rule bit_word_eqI) (unfold bit_le_pad bit_ucast_iff bit_from_le_bytes, auto simp: nth_append split: if_splits)
  then have "from_le_bytes (to_le_bytes 8 a @ replicate 24 0) = (ucast a :: 256 word)" by simp
  moreover have "unat a < 2 ^ 256"
    by (rule less_le_trans [OF unsigned_less]) (simp add: power_increasing)
  ultimately show ?thesis by (simp add: hash32_new_def unsigned_ucast_eq take_bit_nat_eq_self)
qed

lemma positive_price:
  fixes p :: "64 word"
  assumes "\<not> sint p < 0" "p \<noteq> 0"
  shows "0 < unat p \<and> unat p < 2 ^ 63 \<and> int (unat p) = sint p"
proof -
  have "sint p < 2 ^ 63" using sint_lt [of p] by simp
  moreover have "0 \<le> sint p" using assms(1) by simp
  ultimately have "uint p = sint p" unfolding uint_sint by (intro take_bit_int_eq_self) simp_all
  with \<open>0 \<le> sint p\<close> have "int (unat p) = sint p" "unat p = nat (sint p)" by (simp_all add: unat_eq_nat_uint)
  moreover have "sint p \<noteq> 0" using assms(2) by (metis signed_0 signed_word_eqI)
  ultimately show ?thesis using \<open>sint p < 2 ^ 63\<close> \<open>0 \<le> sint p\<close> by (simp add: nat_less_iff)
qed

definition new_order_valid :: "new_order_wire \<Rightarrow> bool" where
  "new_order_valid w \<longleftrightarrow>
     (\<forall>x \<in> set (no_pad w). x = 0) \<and> 0 < sint (no_price w) \<and> no_qty w \<noteq> 0 \<and> no_account_id w \<noteq> 0 \<and>
     no_side w \<in> {0, 1} \<and> no_time_in_force w \<in> {0, 1, 2, 3} \<and> no_order_type w = 0"


section \<open>Outbound messages: proofs\<close>

lemma decode_exec_report_iff:
  "decode_exec_report p = Inr r \<longleftrightarrow> p = encode_exec_report r [] \<and> er_status r \<le> 4 \<and> er_pad r = 0"
proof
  assume "decode_exec_report p = Inr r"
  then show "p = encode_exec_report r [] \<and> er_status r \<le> 4 \<and> er_pad r = 0"
  proof (cases "length p = 44")
    case True
    then obtain a p1 where 1: "p = a @ p1" "length a = 8" "length p1 = 36" using cut [of 8 p] by auto
    then obtain b p2 where 2: "p1 = b @ p2" "length b = 8" "length p2 = 28" using cut [of 8 p1] by auto
    then obtain x p3 where 3: "p2 = x # p3" "length p3 = 27" using cut_one [of p2] by auto
    then obtain c p4 where 4: "p3 = c @ p4" "length c = 8" "length p4 = 19" using cut [of 8 p3] by auto
    then obtain d p5 where 5: "p4 = d @ p5" "length d = 8" "length p5 = 11" using cut [of 8 p4] by auto
    then obtain e p6 where 6: "p5 = e @ p6" "length e = 8" "length p6 = 3" using cut [of 8 p5] by auto
    then obtain g p7 where 7: "p6 = g @ p7" "length g = 2" "length p7 = 1" using cut [of 2 p6] by auto
    then obtain y where "p7 = [y]" by (auto simp: length_Suc_conv)
    with 1 2 3 4 5 6 7 \<open>decode_exec_report p = Inr r\<close> show ?thesis
      by (auto simp: decode_exec_report_def read_int_def read_byte_def get_slice_def get_at_def nth_append
          encode_exec_report_def split: if_splits)
  qed (simp add: decode_exec_report_def)
next
  assume "p = encode_exec_report r [] \<and> er_status r \<le> 4 \<and> er_pad r = 0"
  then show "decode_exec_report p = Inr r"
    by (auto simp: decode_exec_report_def read_int_def read_byte_def get_slice_def get_at_def nth_append
        encode_exec_report_def)
qed

lemma decode_trade_print_iff: "decode_trade_print p = Inr t \<longleftrightarrow> p = encode_trade_print t []"
proof
  assume "decode_trade_print p = Inr t"
  then show "p = encode_trade_print t []"
  proof (cases "length p = 48")
    case True
    then obtain a p1 where 1: "p = a @ p1" "length a = 8" "length p1 = 40" using cut [of 8 p] by auto
    then obtain b p2 where 2: "p1 = b @ p2" "length b = 8" "length p2 = 32" using cut [of 8 p1] by auto
    then obtain c p3 where 3: "p2 = c @ p3" "length c = 8" "length p3 = 24" using cut [of 8 p2] by auto
    then obtain d p4 where 4: "p3 = d @ p4" "length d = 8" "length p4 = 16" using cut [of 8 p3] by auto
    then obtain e g where "p4 = e @ g" "length e = 8" "length g = 8" using cut [of 8 p4] by auto
    with 1 2 3 4 \<open>decode_trade_print p = Inr t\<close> show ?thesis
      by (auto simp: decode_trade_print_def read_int_def get_slice_def encode_trade_print_def)
  qed (simp add: decode_trade_print_def)
qed (simp add: decode_trade_print_def read_int_def get_slice_def encode_trade_print_def)

lemma decode_book_update_iff: "decode_book_update p = Inr u \<longleftrightarrow> p = encode_book_update u [] \<and> bu_side u \<in> {0, 1}"
proof
  assume "decode_book_update p = Inr u"
  then show "p = encode_book_update u [] \<and> bu_side u \<in> {0, 1}"
  proof (cases "length p = 32")
    case True
    then obtain a p1 where 1: "p = a @ p1" "length a = 8" "length p1 = 24" using cut [of 8 p] by auto
    then obtain x p2 where 2: "p1 = x # p2" "length p2 = 23" using cut_one [of p1] by auto
    then obtain b p3 where 3: "p2 = b @ p3" "length b = 8" "length p3 = 15" using cut [of 8 p2] by auto
    then obtain c z where 4: "p3 = c @ z" "length c = 8" "length z = 7" using cut [of 8 p3] by auto
    have z: "\<not> list_ex (\<lambda>x. x \<noteq> 0) z \<Longrightarrow> z = replicate 7 0" using not_ex_nonzero [of z] 4(3) by simp
    show ?thesis
      using 1 2 3 4 \<open>decode_book_update p = Inr u\<close> z
      by (auto simp: decode_book_update_def read_int_def read_byte_def get_slice_def get_at_def nth_append
          encode_book_update_def split: if_splits)
  qed (simp add: decode_book_update_def)
next
  assume "p = encode_book_update u [] \<and> bu_side u \<in> {0, 1}"
  then show "decode_book_update p = Inr u"
    by (auto simp: decode_book_update_def read_int_def read_byte_def get_slice_def get_at_def nth_append
        encode_book_update_def list_ex_iff)
qed

text \<open>C32: the outbound codecs are exact.  Encoding appends a block of the documented size; a payload
  decodes to a message if and only if it is that message's encoding and the message is valid: a
  known status and a zero pad byte for an execution report, a known side for a book update.\<close>

theorem outbound_codec_exact:
  "(\<exists>q. encode_exec_report r out = out @ q \<and> length q = 44) \<and>
   (\<exists>q. encode_trade_print t out = out @ q \<and> length q = 48) \<and>
   (\<exists>q. encode_book_update u out = out @ q \<and> length q = 32) \<and>
   (decode_exec_report p = Inr r \<longleftrightarrow> p = encode_exec_report r [] \<and> er_status r \<le> 4 \<and> er_pad r = 0) \<and>
   (decode_trade_print p = Inr t \<longleftrightarrow> p = encode_trade_print t []) \<and>
   (decode_book_update p = Inr u \<longleftrightarrow> p = encode_book_update u [] \<and> bu_side u \<in> {0, 1})"
proof (intro conjI)
  show "\<exists>q. encode_exec_report r out = out @ q \<and> length q = 44" by (simp add: encode_exec_report_def)
  show "\<exists>q. encode_trade_print t out = out @ q \<and> length q = 48" by (simp add: encode_trade_print_def)
  show "\<exists>q. encode_book_update u out = out @ q \<and> length q = 32" by (simp add: encode_book_update_def)
qed (rule decode_exec_report_iff decode_trade_print_iff decode_book_update_iff)+

text \<open>The status byte of a lifecycle status is always one that the execution-report decoder accepts.\<close>

lemma status_wire_known: "status_to_wire st \<le> 4"
  by (cases st) simp_all

lemma kind_from_as: "kind_from_u8 (kind_as_u8 k) = Inr k"
  by (cases k) (simp_all add: kind_from_u8_def)

lemma kind_direction: "is_inbound k \<longleftrightarrow> \<not> is_outbound k"
  by (simp add: is_inbound_def is_outbound_def not_le)

end
