(* ===== verification/Spec2Isabelle.thy ===== *)
theory Spec2Isabelle
  imports Sequencer Market_Data Manager Wire
begin

text \<open>
  \<^bold>\<open>A verification of the OrderBook-rs matching engine.\<close>

  The program is a limit order book: \<open>OrderBook<T>\<close> (\<open>src/orderbook/book.rs\<close>) keeps one price-ordered
  map of price levels per side, an index from order id to price and side, and an index from user to
  order ids.  Orders enter through \<open>operations.rs\<close> and \<open>modifications.rs\<close>, are checked by \<open>risk.rs\<close>,
  the kill switch and the configured tick, lot and size limits, are matched by \<open>matching.rs\<close> under the
  self-trade rules of \<open>stp.rs\<close>, and their remainder rests.  \<open>mass_cancel.rs\<close> removes groups of orders,
  \<open>repricing.rs\<close> moves pegged orders and trailing stops, \<open>order_state.rs\<close> records the life of each
  order, \<open>fees.rs\<close> and \<open>trade.rs\<close> price the trades.  Snapshots (\<open>snapshot.rs\<close>, \<open>book.rs\<close>) save and restore
  a book, the sequencer (\<open>sequencer/\<close>) journals commands and replays them, \<open>manager.rs\<close> keeps several
  books, and the depth queries of \<open>book.rs\<close>, \<open>iterators.rs\<close>, \<open>market_impact.rs\<close> and \<open>statistics.rs\<close> read
  them.  \<open>src/wire\<close> is the binary protocol in front of it.

  \<^bold>\<open>Conventions.\<close>  \<open>u64\<close>, \<open>u128\<close>, \<open>usize\<close>, ids and user hashes are \<open>nat\<close>; each arithmetic operation of
  the source that saturates, checks or wraps is a named operation of \<open>Prelude\<close> with its bound written
  out.  Signed integers are \<open>int\<close>; integers on the wire are words of their width.  \<open>Result\<close> is a sum
  with the error on the left, a struct is a record, an enum a datatype.  An operation takes the book
  and returns its result beside the new book.  The code is written for concurrent use; the model is
  the sequential semantics of each operation, so interleavings inside one operation are not covered.
  Listener calls, metrics and lifecycle records are logged in the state in the order of the source.

  \<^bold>\<open>Code outside the repository.\<close>  The \<open>pricelevel\<close> crate (the queue of one price level) is the record
  parameter \<open>A\<close> of every definition that uses it; what the book relies on is the locale
  \<open>price_levels\<close> of \<open>Price_Level\<close>, interpreted there on a first-in-first-out level, so that its laws
  are consistent and the witnesses can run.  The \<open>zerocopy\<close> casts are the parameter \<open>Z\<close> of \<open>Wire\<close>, with
  the locale \<open>zerocopy_layer\<close>; the printed form of an id and its construction from a number are
  function parameters.  Level snapshots of the same crate are the parameter \<open>S\<close> of \<open>Snapshot\<close>, with the
  locale \<open>level_snapshots\<close>; JSON and SHA-256 are its parameter \<open>J\<close>, about which nothing is assumed.
  The generator of trade ids is a parameter wherever a book is created, and the wall clock is a
  function from the number of a reading to its value.

  \<^bold>\<open>Theories.\<close>
  \<^item> \<open>Prelude\<close>, \<open>Skip_Map\<close>: bounded arithmetic, association lists, the ordered map of a side.
  \<^item> \<open>Order_Types\<close>, \<open>Price_Level\<close>: orders, trades, match results; the level interface and its contract.
  \<^item> \<open>Stp\<close>, \<open>Book_Errors\<close>, \<open>Fees\<close>, \<open>Risk\<close>, \<open>Clock\<close>, \<open>Order_State\<close>, \<open>Price_Cache\<close>: the components of
    the same names under \<open>src/orderbook\<close> with their own laws: reject codes, fee arithmetic, exact risk
    counters and limits, the bounded and coherent lifecycle tracker.
  \<^item> \<open>Book\<close>: the state, its settings, best prices through the cache, indices, expiry, risk gates.
    \<open>Book_Frame\<close> lists what each helper leaves alone; \<open>Book_Invariant\<close> defines \<open>book_inv\<close>: sorted maps
    of non-empty well-formed levels, both indices describing exactly the resting orders, a cache that
    never lies.
  \<^item> \<open>Matching\<close>: \<open>match_order_inner\<close> and its parts.  \<open>Sweep\<close> proves the loop lemmas, \<open>Sweep_Results\<close> what a
    sweep reports (conservation, price priority and limit, no self-trade), \<open>Sweep_Modes\<close> the
    notional, fill-or-kill and exhaustion results, \<open>Sweep_Book\<close> that a sweep keeps \<open>book_inv\<close>.
  \<^item> \<open>Modifications\<close>: cancel, validate, add and update.  \<open>Modify_Inv\<close> proves that they keep \<open>book_inv\<close> and
    what they do to the resting orders; \<open>Order_Flow\<close> states what a client sees.
  \<^item> \<open>Mass_Cancel\<close>, \<open>Repricing\<close>, \<open>Operations\<close>: the remaining operations; the step relation \<open>book_step\<close>
    of \<open>Operations\<close> has one rule for each state-changing operation, and every reachable book is
    consistent.
  \<^item> \<open>Snapshot\<close>: taking, packaging, validating and restoring snapshots; a restore is all or nothing, and
    a full snapshot gives the book back.
  \<^item> \<open>Sequencer\<close>: commands, events, the \<open>Journal\<close> trait as the locale \<open>event_journal\<close> with the in-memory
    journal as its instance, and all replay entry points; a replay succeeds exactly on a gap-free
    journal whose accepted commands execute, and rebuilds the book of that run.
  \<^item> \<open>Market_Data\<close>: depth queries, iterators, simulated orders, market impact, prices in \<open>f64\<close> and the
    depth distribution.
  \<^item> \<open>Manager\<close>: the map of books, with the trait \<open>BookManager\<close> as the locale \<open>book_store\<close>.
  \<^item> \<open>Wire_Bytes\<close>, \<open>Wire\<close>: little-endian integers, frames, inbound and outbound messages.
  \<^item> \<open>Demo_Book\<close>: the concrete book on which witnesses are evaluated.

  \<^bold>\<open>Bounds and termination.\<close>  Every loop of the source runs over a finite list taken before it starts
  (levels of a side, orders of a level, ids to cancel, bytes of a buffer), so every definition is a
  total function by structural recursion; there is no fuel.  Quantities are bounded by the saturating
  and checked operations themselves; no theorem assumes that arithmetic does not overflow unless it
  says so.

  Unchecked arithmetic wraps, as in a release build.

  \<^bold>\<open>Where the code departs from its intent.\<close>  Five theorems exhibit runs of the model: a modification
  that loses the original order, an update that cancels without releasing risk, a re-pricing pass that
  crosses the spread, a partially filled immediate order that no journal record can replay, and a
  depth distribution that counts a level outside its bin.

  \<^bold>\<open>Not modelled.\<close>  Concurrency: atomics and lock-free structures are read sequentially.  The text of
  error messages where it interpolates values.  \<open>serialization.rs\<close>, which only calls serde.  The NATS
  publishers and the worker threads, which are network and scheduling.  \<open>file_journal.rs\<close>: memory-mapped
  segments and checksums of the operating system and other crates; the replay is proved against the
  journal interface.  \<open>metrics.rs\<close> beyond the events it records.  The implied-volatility solver, whose
  results depend on the rounding of \<open>exp\<close>, \<open>ln\<close> and \<open>sqrt\<close>, and \<open>depth_statistics\<close> and the enriched
  snapshot metrics for the same reason.  The vector pool, which has no observable effect.
\<close>

end
